(* ===== verification/Rust_Prelude.thy ===== *)
theory Rust_Prelude
  imports Main "HOL-Library.Word" "HOL-Library.List_Lexorder" "HOL-Library.Product_Lexorder"
begin

section \<open>Rust strings, bytes and results\<close>

text \<open>
  What the components share: the part of Rust's standard library that the sources call.
  A \<^verbatim>\<open>str\<close> is the list of its Unicode scalar values (as integers, whose
  binary numerals evaluate quickly), so that
  character-wise code (\<^verbatim>\<open>chars\<close>, \<^verbatim>\<open>split\<close>, \<^verbatim>\<open>trim\<close>, \<^verbatim>\<open>strip_prefix\<close>) is list code and
  \<^verbatim>\<open>len\<close>, which counts UTF-8 bytes, is a sum of encoding widths.  The order of Rust strings
  is the order of their UTF-8 bytes, which is the lexicographic order of the scalar values,
  as in \<open>List_Lexorder\<close>.  A \<^verbatim>\<open>Result<T, E>\<close> is \<open>'e + 'a\<close> with \<open>Inl\<close> for the error.
\<close>

named_theorems rust_str \<open>characteristic equations of the string operations\<close>

type_synonym rchar = int
type_synonym rstr = "int list"
type_synonym u8 = "8 word"
type_synonym u16 = "16 word"
type_synonym u32 = "32 word"
type_synonym bytes = "8 word list"

definition str :: "string \<Rightarrow> rstr" where
  "str s = map of_char s"

abbreviation chr :: "char \<Rightarrow> rchar" where
  "chr c \<equiv> of_char c"

lemma str_simps [simp]:
  "str [] = []"
  "str (c # cs) = chr c # str cs"
  by (simp_all add: str_def)

subsection \<open>Character classes\<close>

definition utf8_width :: "rchar \<Rightarrow> nat" where
  "utf8_width c = (if c < 0x80 then 1 else if c < 0x800 then 2 else if c < 0x10000 then 3 else 4)"

definition is_whitespace :: "rchar \<Rightarrow> bool" where
  "is_whitespace c \<longleftrightarrow> 9 \<le> c \<and> c \<le> 13 \<or> c = 0x20 \<or> c = 0x85 \<or> c = 0xA0 \<or> c = 0x1680
     \<or> 0x2000 \<le> c \<and> c \<le> 0x200A \<or> c = 0x2028 \<or> c = 0x2029 \<or> c = 0x202F \<or> c = 0x205F \<or> c = 0x3000"

definition is_control :: "rchar \<Rightarrow> bool" where
  "is_control c \<longleftrightarrow> c < 0x20 \<or> 0x7F \<le> c \<and> c < 0xA0"

definition is_ascii_whitespace :: "rchar \<Rightarrow> bool" where
  "is_ascii_whitespace c \<longleftrightarrow> c = 0x20 \<or> c = 9 \<or> c = 10 \<or> c = 12 \<or> c = 13"

definition is_ascii_digit :: "rchar \<Rightarrow> bool" where
  "is_ascii_digit c \<longleftrightarrow> 48 \<le> c \<and> c \<le> 57"

definition is_ascii_alphanumeric :: "rchar \<Rightarrow> bool" where
  "is_ascii_alphanumeric c \<longleftrightarrow>
     48 \<le> c \<and> c \<le> 57 \<or> 65 \<le> c \<and> c \<le> 90 \<or> 97 \<le> c \<and> c \<le> 122"

definition ascii_lower :: "rchar \<Rightarrow> rchar" where
  "ascii_lower c = (if 65 \<le> c \<and> c \<le> 90 then c + 32 else c)"

abbreviation to_ascii_lowercase :: "rstr \<Rightarrow> rstr" where
  "to_ascii_lowercase \<equiv> map ascii_lower"

definition eq_ignore_ascii_case :: "rstr \<Rightarrow> rstr \<Rightarrow> bool" where
  "eq_ignore_ascii_case a b \<longleftrightarrow> to_ascii_lowercase a = to_ascii_lowercase b"

lemmas char_class_defs =
  is_whitespace_def is_control_def is_ascii_whitespace_def is_ascii_digit_def
  is_ascii_alphanumeric_def ascii_lower_def utf8_width_def

lemma ascii_lower_idem [simp]: "ascii_lower (ascii_lower c) = ascii_lower c"
  by (simp add: ascii_lower_def)

lemma to_ascii_lowercase_idem [simp]:
  "to_ascii_lowercase (to_ascii_lowercase s) = to_ascii_lowercase s"
  by (simp add: comp_def)

lemma utf8_width_pos [simp]: "0 < utf8_width c"
  by (simp add: utf8_width_def)

lemma utf8_width_ascii [simp]: "c < 128 \<Longrightarrow> utf8_width c = 1"
  by (simp add: utf8_width_def)

lemma utf8_width_lower [simp]: "utf8_width (ascii_lower c) = utf8_width c"
  by (auto simp: utf8_width_def ascii_lower_def)

lemma is_whitespace_lower [simp]: "is_whitespace (ascii_lower c) = is_whitespace c"
  by (auto simp: is_whitespace_def ascii_lower_def)

lemma is_ascii_alphanumeric_lower [simp]:
  "is_ascii_alphanumeric (ascii_lower c) = is_ascii_alphanumeric c"
  by (auto simp: is_ascii_alphanumeric_def ascii_lower_def)

lemma alphanumeric_not_whitespace: "is_ascii_alphanumeric c \<Longrightarrow> \<not> is_whitespace c"
  by (auto simp: is_ascii_alphanumeric_def is_whitespace_def)

subsection \<open>Length in bytes\<close>

definition rlen :: "rstr \<Rightarrow> nat" where
  "rlen s = sum_list (map utf8_width s)"

lemma rlen_simps [simp]:
  "rlen [] = 0"
  "rlen (c # s) = utf8_width c + rlen s"
  "rlen (s @ t) = rlen s + rlen t"
  by (simp_all add: rlen_def)

lemma rlen_ge_length: "length s \<le> rlen s"
  by (induction s) (auto simp: Suc_le_eq add_strict_increasing)

lemma rlen_eq_0_iff [simp]: "rlen s = 0 \<longleftrightarrow> s = []"
  by (cases s) auto

lemma rlen_ascii: "\<forall>c \<in> set s. c < 128 \<Longrightarrow> rlen s = length s"
  by (induction s) auto

lemma rlen_lower [simp]: "rlen (to_ascii_lowercase s) = rlen s"
  by (induction s) auto

subsection \<open>Prefixes, suffixes, trimming\<close>

definition starts_with :: "rstr \<Rightarrow> rstr \<Rightarrow> bool" where
  "starts_with s p \<longleftrightarrow> take (length p) s = p"

definition ends_with :: "rstr \<Rightarrow> rstr \<Rightarrow> bool" where
  "ends_with s p \<longleftrightarrow> length p \<le> length s \<and> drop (length s - length p) s = p"

definition strip_prefix :: "rstr \<Rightarrow> rstr \<Rightarrow> rstr option" where
  "strip_prefix s p = (if starts_with s p then Some (drop (length p) s) else None)"

definition strip_suffix :: "rstr \<Rightarrow> rstr \<Rightarrow> rstr option" where
  "strip_suffix s p = (if ends_with s p then Some (take (length s - length p) s) else None)"

definition trim_start :: "rstr \<Rightarrow> rstr" where
  "trim_start s = dropWhile is_whitespace s"

definition trim :: "rstr \<Rightarrow> rstr" where
  "trim s = rev (dropWhile is_whitespace (rev (trim_start s)))"

lemma starts_with_iff: "starts_with s p \<longleftrightarrow> (\<exists>r. s = p @ r)"
  by (metis append_eq_conv_conj starts_with_def)

lemma starts_with_append [simp]: "starts_with (p @ r) p"
  by (simp add: starts_with_def)

lemma ends_with_iff: "ends_with s p \<longleftrightarrow> (\<exists>r. s = r @ p)"
proof
  assume "ends_with s p"
  then have "s = take (length s - length p) s @ p"
    by (metis append_take_drop_id ends_with_def)
  then show "\<exists>r. s = r @ p" by blast
qed (auto simp: ends_with_def)

lemma strip_prefix_Some_iff: "strip_prefix s p = Some r \<longleftrightarrow> s = p @ r"
  by (auto simp: strip_prefix_def starts_with_iff)

lemma strip_prefix_None_iff: "strip_prefix s p = None \<longleftrightarrow> \<not> starts_with s p"
  by (simp add: strip_prefix_def)

lemma strip_suffix_Some_iff: "strip_suffix s p = Some r \<longleftrightarrow> s = r @ p"
  by (auto simp: strip_suffix_def ends_with_iff)

lemma strip_suffix_None_iff: "strip_suffix s p = None \<longleftrightarrow> \<not> ends_with s p"
  by (simp add: strip_suffix_def)

lemma strip_prefix_append [simp]: "strip_prefix (p @ r) p = Some r"
  by (simp add: strip_prefix_Some_iff)

lemma trim_ends:
  assumes "trim s \<noteq> []"
  shows "\<not> is_whitespace (hd (trim s))" and "\<not> is_whitespace (last (trim s))"
proof -
  let ?t = "trim_start s"
  obtain ys where t: "?t = trim s @ ys"
    by (metis rev_append rev_rev_ident takeWhile_dropWhile_id trim_def)
  have "?t \<noteq> []" using t assms by auto
  then have "\<not> is_whitespace (hd ?t)"
    by (simp add: trim_start_def hd_dropWhile)
  with t assms show "\<not> is_whitespace (hd (trim s))" by simp
  have "dropWhile is_whitespace (rev ?t) \<noteq> []" using assms by (simp add: trim_def)
  then have "\<not> is_whitespace (hd (dropWhile is_whitespace (rev ?t)))"
    by (rule hd_dropWhile)
  with \<open>dropWhile is_whitespace (rev ?t) \<noteq> []\<close>
  show "\<not> is_whitespace (last (trim s))" by (simp add: trim_def last_rev)
qed

lemma dropWhile_hd: "s \<noteq> [] \<Longrightarrow> \<not> P (hd s) \<Longrightarrow> dropWhile P s = s"
  by (cases s) auto

lemma trim_id:
  assumes "s \<noteq> [] \<Longrightarrow> \<not> is_whitespace (hd s)" and "s \<noteq> [] \<Longrightarrow> \<not> is_whitespace (last s)"
  shows "trim s = s"
proof (cases "s = []")
  case False
  with assms have "trim_start s = s" by (simp add: trim_start_def dropWhile_hd)
  with False assms show ?thesis by (simp add: trim_def dropWhile_hd hd_rev)
qed (simp add: trim_def trim_start_def)

lemma trim_Nil [simp]: "trim [] = []"
  by (rule trim_id) auto

lemma trim_idem [simp]: "trim (trim s) = trim s"
  by (rule trim_id) (auto simp: trim_ends)

lemma set_trim: "set (trim s) \<subseteq> set s"
  unfolding trim_def trim_start_def set_rev
  by (metis set_dropWhileD set_rev subsetI)

subsection \<open>Splitting and searching\<close>

fun split_on :: "rchar \<Rightarrow> rstr \<Rightarrow> rstr list" where
  "split_on d [] = [[]]"
| "split_on d (c # cs) =
     (if c = d then [] # split_on d cs
      else (case split_on d cs of [] \<Rightarrow> [[c]] | p # ps \<Rightarrow> (c # p) # ps))"

fun join_with :: "rchar \<Rightarrow> rstr list \<Rightarrow> rstr" where
  "join_with d [] = []"
| "join_with d [p] = p"
| "join_with d (p # q # ps) = p @ d # join_with d (q # ps)"

fun split_once :: "rchar \<Rightarrow> rstr \<Rightarrow> (rstr \<times> rstr) option" where
  "split_once d [] = None"
| "split_once d (c # cs) =
     (if c = d then Some ([], cs)
      else map_option (\<lambda>(a, b). (c # a, b)) (split_once d cs))"

fun contains_str :: "rstr \<Rightarrow> rstr \<Rightarrow> bool" where
  "contains_str [] p \<longleftrightarrow> p = []"
| "contains_str (c # cs) p \<longleftrightarrow> starts_with (c # cs) p \<or> contains_str cs p"

lemma split_on_not_Nil [simp]: "split_on d s \<noteq> []"
  by (induction s) (auto split: list.splits)

lemma join_split [simp]: "join_with d (split_on d s) = s"
proof (induction s)
  case (Cons c cs)
  obtain p ps where ps: "split_on d cs = p # ps"
    using split_on_not_Nil by (metis neq_Nil_conv)
  with Cons.IH show ?case by (cases ps) (auto split: list.splits)
qed simp

lemma split_on_no_delim: "p \<in> set (split_on d s) \<Longrightarrow> d \<notin> set p"
proof (induction s arbitrary: p)
  case (Cons c cs)
  then obtain q qs where q: "split_on d cs = q # qs"
    using split_on_not_Nil by (metis neq_Nil_conv)
  then have "d \<notin> set q" and "\<And>p. p \<in> set qs \<Longrightarrow> d \<notin> set p"
    using Cons.IH by simp_all
  with q Cons.prems show ?case by (auto split: if_splits)
qed simp

lemma split_on_chars: "p \<in> set (split_on d s) \<Longrightarrow> set p \<subseteq> set s"
proof (induction s arbitrary: p)
  case (Cons c cs)
  then show ?case
    by (cases "split_on d cs") (fastforce split: if_splits)+
qed simp

lemma chars_split_on: "set s - {d} \<subseteq> (\<Union>p \<in> set (split_on d s). set p)"
proof (induction s)
  case (Cons c cs)
  then show ?case
    by (cases "split_on d cs") auto
qed simp

lemma split_on_singleton: "d \<notin> set s \<Longrightarrow> split_on d s = [s]"
  by (induction s) auto

lemma split_on_append: "split_on d (s @ d # t) = split_on d s @ split_on d t"
proof (induction s)
  case (Cons c cs)
  then show ?case
    by (cases "split_on d cs") auto
qed simp

lemma join_with_append:
  "xs \<noteq> [] \<Longrightarrow> ys \<noteq> [] \<Longrightarrow> join_with d (xs @ ys) = join_with d xs @ d # join_with d ys"
  by (induction d xs rule: join_with.induct) (auto simp: neq_Nil_conv)

lemma split_once_Some_iff:
  "split_once d s = Some (a, b) \<longleftrightarrow> s = a @ d # b \<and> d \<notin> set a"
proof (induction s arbitrary: a)
  case (Cons c cs)
  then show ?case by (cases a) (auto split: if_splits)
qed simp

lemma split_once_None_iff: "split_once d s = None \<longleftrightarrow> d \<notin> set s"
  by (induction s) auto

lemma contains_str_iff: "contains_str s p \<longleftrightarrow> (\<exists>a b. s = a @ p @ b)"
proof (induction s)
  case (Cons c cs)
  show ?case
  proof
    assume "contains_str (c # cs) p"
    then show "\<exists>a b. c # cs = a @ p @ b"
    proof (cases "starts_with (c # cs) p")
      case True
      then show ?thesis by (metis append_Nil starts_with_iff)
    next
      case False
      with \<open>contains_str (c # cs) p\<close> Cons.IH obtain a b where "cs = a @ p @ b" by auto
      then have "c # cs = (c # a) @ p @ b" by simp
      then show ?thesis by blast
    qed
  next
    assume "\<exists>a b. c # cs = a @ p @ b"
    then obtain a b where "c # cs = a @ p @ b" by blast
    then show "contains_str (c # cs) p"
    proof (cases a)
      case Nil
      with \<open>c # cs = a @ p @ b\<close> have "starts_with (c # cs) p" by (simp add: starts_with_def)
      then show ?thesis by simp
    next
      case (Cons a' as)
      with \<open>c # cs = a @ p @ b\<close> have "cs = as @ p @ b" by simp
      then have "contains_str cs p" unfolding Cons.IH by blast
      then show ?thesis by simp
    qed
  qed
qed auto

subsection \<open>Results\<close>

text \<open>
  \<open>try_map f xs\<close> is \<^verbatim>\<open>xs.iter().map(f).collect::<Result<Vec<_>, _>>()\<close>: it stops at the
  first error.
\<close>

fun try_map :: "('a \<Rightarrow> 'e + 'b) \<Rightarrow> 'a list \<Rightarrow> 'e + 'b list" where
  "try_map f [] = Inr []"
| "try_map f (x # xs) =
     (case f x of Inl e \<Rightarrow> Inl e
      | Inr y \<Rightarrow> (case try_map f xs of Inl e \<Rightarrow> Inl e | Inr ys \<Rightarrow> Inr (y # ys)))"

lemma try_map_Inr_iff:
  "try_map f xs = Inr ys \<longleftrightarrow> list_all2 (\<lambda>x y. f x = Inr y) xs ys"
proof (induction xs arbitrary: ys)
  case (Cons x xs)
  show ?case
  proof (cases "f x")
    case (Inr y)
    then show ?thesis
      using Cons.IH by (cases "try_map f xs") (auto simp: list_all2_Cons1)
  qed (auto simp: list_all2_Cons1)
qed auto

lemma try_map_Inr_set:
  assumes "try_map f xs = Inr ys" and "y \<in> set ys"
  shows "\<exists>x \<in> set xs. f x = Inr y"
  using assms by (fastforce simp: try_map_Inr_iff list_all2_conv_all_nth in_set_conv_nth)

lemma try_map_Inl_iff:
  "(\<exists>e. try_map f xs = Inl e) \<longleftrightarrow> (\<exists>x \<in> set xs. \<exists>e. f x = Inl e)"
  by (induction xs) (auto split: sum.splits)

subsection \<open>Bounded integers\<close>

text \<open>
  Unsigned counters are natural numbers with the width written out: \<open>saturating_add\<close> stops
  at the largest value, \<open>wrapping_add\<close> is what \<^verbatim>\<open>+=\<close> computes in a release build.
\<close>

definition saturating_add :: "nat \<Rightarrow> nat \<Rightarrow> nat \<Rightarrow> nat" where
  "saturating_add w a b = min (a + b) (2 ^ w - 1)"

definition wrapping_add :: "nat \<Rightarrow> nat \<Rightarrow> nat \<Rightarrow> nat" where
  "wrapping_add w a b = (a + b) mod 2 ^ w"

lemma saturating_add_le:
  assumes "saturating_add w a b \<le> m" and "m < 2 ^ w - 1"
  shows "a + b \<le> m"
  using assms by (auto simp: saturating_add_def min_def split: if_splits)

lemma wrapping_add_eq: "a + b < 2 ^ w \<Longrightarrow> wrapping_add w a b = a + b"
  by (simp add: wrapping_add_def)

lemma unat_less: "unat w < 2 ^ LENGTH('a)" for w :: "'a::len word"
  by (rule unsigned_less)

subsection \<open>Searching lists\<close>

lemma find_Some_D: "List.find P xs = Some x \<Longrightarrow> x \<in> set xs \<and> P x"
  by (auto simp: find_Some_iff)

lemma find_cases:
  obtains "List.find P xs = None" and "\<forall>x \<in> set xs. \<not> P x"
  | x where "List.find P xs = Some x" and "x \<in> set xs" and "P x"
  by (cases "List.find P xs") (auto simp: find_None_iff dest: find_Some_D)

subsection \<open>Escaping with backslashes\<close>

text \<open>Every character preceded by a backslash: how a text is written for the parsers that honour it.\<close>

definition backslash_escape :: "rstr \<Rightarrow> rstr" where
  "backslash_escape s = concat (map (\<lambda>c. [92, c]) s)"

lemma backslash_escape_simps [simp]:
  "backslash_escape [] = []"
  "backslash_escape (c # s) = 92 # c # backslash_escape s"
  by (simp_all add: backslash_escape_def)

lemma set_backslash_escape: "x \<in> set (backslash_escape s) \<Longrightarrow> x = 92 \<or> x \<in> set s"
  by (induction s) auto

subsection \<open>Replacement\<close>

text \<open>\<^verbatim>\<open>str::replace\<close>: the occurrences of a non-empty needle, left to right.\<close>

function str_replace :: "rstr \<Rightarrow> rstr \<Rightarrow> rstr \<Rightarrow> rstr" where
  "str_replace needle by_str s =
     (if needle = [] then s
      else case s of
          [] \<Rightarrow> []
        | c # cs \<Rightarrow>
            if starts_with s needle then by_str @ str_replace needle by_str (drop (length needle) s)
            else c # str_replace needle by_str cs)"
  by pat_completeness auto
termination
  by (relation "measure (\<lambda>(_, _, s). length s)") auto

declare str_replace.simps [simp del]

lemma str_replace_Nil [simp]: "str_replace needle r [] = []"
  by (simp add: str_replace.simps [of needle r "[]"])

lemma str_replace_hit [simp]:
  assumes "needle \<noteq> []"
  shows "str_replace needle r (needle @ s) = r @ str_replace needle r s"
proof -
  obtain c cs where "needle = c # cs" using assms by (cases needle) auto
  then show ?thesis
    using assms by (subst str_replace.simps) (auto simp: starts_with_iff)
qed

lemma str_replace_skip:
  assumes "needle \<noteq> []" "hd needle \<notin> set xs"
  shows "str_replace needle r (xs @ s) = xs @ str_replace needle r s"
  using assms(2)
proof (induction xs)
  case (Cons x xs)
  then have "\<not> starts_with (x # xs @ s) needle"
    using assms(1) by (cases needle) (auto simp: starts_with_iff)
  with Cons assms(1) show ?case by (subst str_replace.simps) simp
qed simp

subsection \<open>Decimal numerals\<close>

text \<open>\<^verbatim>\<open>Display\<close> for unsigned integers, and the value of a string of digits.\<close>

function show_nat :: "nat \<Rightarrow> rstr" where
  "show_nat n = (if n < 10 then [48 + int n] else show_nat (n div 10) @ [48 + int (n mod 10)])"
  by pat_completeness auto
termination
  by (relation "measure id") auto

declare show_nat.simps [simp del]

definition decimal_value :: "rstr \<Rightarrow> nat" where
  "decimal_value ds = foldl (\<lambda>v c. v * 10 + nat (c - 48)) 0 ds"

lemma show_nat_digits: "c \<in> set (show_nat n) \<Longrightarrow> 48 \<le> c \<and> c \<le> 57"
proof (induction n rule: show_nat.induct)
  case (1 n)
  then show ?case by (subst (asm) show_nat.simps) (auto split: if_splits)
qed

lemma show_nat_not_Nil [simp]: "show_nat n \<noteq> []"
  by (subst show_nat.simps) simp

lemma decimal_value_snoc [simp]: "decimal_value (ds @ [c]) = decimal_value ds * 10 + nat (c - 48)"
  by (simp add: decimal_value_def)

lemma decimal_value_show [simp]: "decimal_value (show_nat n) = n"
proof (induction n rule: show_nat.induct)
  case (1 n)
  show ?case
  proof (cases "n < 10")
    case True
    then show ?thesis by (subst show_nat.simps) (simp add: decimal_value_def)
  next
    case False
    with 1 show ?thesis by (subst show_nat.simps) simp
  qed
qed

lemma show_nat_canonical: "hd (show_nat n) = 48 \<Longrightarrow> show_nat n = [48]"
proof (induction n rule: show_nat.induct)
  case (1 n)
  show ?case
  proof (cases "n < 10")
    case True
    with 1(2) show ?thesis by (simp add: show_nat.simps)
  next
    case False
    then have "show_nat n = show_nat (n div 10) @ [48 + int (n mod 10)]" by (simp add: show_nat.simps)
    with 1 False have "show_nat (n div 10) = [48]" by simp
    then have "decimal_value (show_nat (n div 10)) = 0" by (simp add: decimal_value_def)
    with False show ?thesis by simp
  qed
qed

lemma length_show_nat: "n < 10 ^ k \<Longrightarrow> 0 < k \<Longrightarrow> length (show_nat n) \<le> k"
proof (induction n arbitrary: k rule: show_nat.induct)
  case (1 n)
  show ?case
  proof (cases "n < 10")
    case True
    with 1(3) show ?thesis by (simp add: show_nat.simps)
  next
    case False
    then have "k \<noteq> 1" using 1(2) by auto
    then obtain j where j: "k = Suc j" "0 < j" using 1(3) by (cases k) auto
    with 1(2) have "n div 10 < 10 ^ j" by (simp add: less_mult_imp_div_less mult.commute)
    with 1(1) False j have "length (show_nat (n div 10)) \<le> j" by simp
    with False j show ?thesis by (simp add: show_nat.simps [of n])
  qed
qed

end
