(* ===== verification/Glob.thy ===== *)
theory Glob
  imports Rust_Prelude
begin

section \<open>Glob patterns (crates/sendbox-core/src/glob.rs)\<close>

text \<open>
  \<open>glob_matches\<close> is the two-index loop with one backtracking point that the branch guard and
  the tool policy share.  It is compared with \<open>amatch\<close>, the textbook meaning of a sequence of
  wildcard atoms, which is also the specification of the token matcher of the command policy
  (the atoms are those of \<^verbatim>\<open>PatternAtom\<close> in crates/sendbox-exec/src/policy.rs).
\<close>

subsection \<open>Wildcard atoms and what they match\<close>

datatype PatternAtom = Literal rchar | AnyCharacter | AnySequence

fun atom_accepts :: "PatternAtom \<Rightarrow> rchar \<Rightarrow> bool" where
  "atom_accepts (Literal x) c \<longleftrightarrow> c = x"
| "atom_accepts AnyCharacter c \<longleftrightarrow> True"
| "atom_accepts AnySequence c \<longleftrightarrow> False"

function amatch :: "PatternAtom list \<Rightarrow> rstr \<Rightarrow> bool" where
  "amatch [] v \<longleftrightarrow> v = []"
| "amatch (AnySequence # ps) v \<longleftrightarrow>
     amatch ps v \<or> (case v of [] \<Rightarrow> False | c # cs \<Rightarrow> amatch (AnySequence # ps) cs)"
| "a \<noteq> AnySequence \<Longrightarrow>
     amatch (a # ps) v \<longleftrightarrow> (case v of [] \<Rightarrow> False | c # cs \<Rightarrow> atom_accepts a c \<and> amatch ps cs)"
  by (metis list.exhaust surj_pair) auto
termination
  by (relation "measures [\<lambda>(ps, v). length ps, \<lambda>(ps, v). length v]") auto

lemma amatch_star_iff: "amatch (AnySequence # ps) v \<longleftrightarrow> (\<exists>k \<le> length v. amatch ps (drop k v))"
proof (induction v)
  case (Cons c cs)
  have "(\<exists>k \<le> length (c # cs). amatch ps (drop k (c # cs))) \<longleftrightarrow>
      amatch ps (c # cs) \<or> (\<exists>k \<le> length cs. amatch ps (drop k cs))"
  proof
    assume "\<exists>k \<le> length (c # cs). amatch ps (drop k (c # cs))"
    then obtain k where "k \<le> length (c # cs)" and "amatch ps (drop k (c # cs))" by blast
    then show "amatch ps (c # cs) \<or> (\<exists>k \<le> length cs. amatch ps (drop k cs))"
      by (cases k) auto
  next
    assume "amatch ps (c # cs) \<or> (\<exists>k \<le> length cs. amatch ps (drop k cs))"
    then show "\<exists>k \<le> length (c # cs). amatch ps (drop k (c # cs))"
      by (metis Suc_le_mono drop_0 drop_Suc_Cons le0 length_Cons)
  qed
  with Cons.IH show ?case by simp
qed simp

declare amatch.simps(2) [simp del]
lemmas amatch_star_simp [simp] = amatch_star_iff

lemma amatch_star_drop:
  assumes "amatch (AnySequence # ps) (drop k v)"
  shows "amatch (AnySequence # ps) v"
proof -
  from assms obtain j where j: "j \<le> length (drop k v)" "amatch ps (drop j (drop k v))"
    by auto
  show ?thesis
  proof (cases "k \<le> length v")
    case True
    with j show ?thesis
      unfolding amatch_star_iff by (intro exI [of _ "j + k"]) (auto simp: add.commute)
  next
    case False
    with j have "amatch ps (drop (length v) v)" by simp
    then show ?thesis unfolding amatch_star_iff by blast
  qed
qed

lemma amatch_Nil_iff: "amatch ps [] \<longleftrightarrow> (\<forall>a \<in> set ps. a = AnySequence)"
proof (induction ps)
  case (Cons a ps)
  then show ?case by (cases "a = AnySequence") auto
qed simp

subsection \<open>The loop of \<open>glob_matches\<close>\<close>

abbreviation STAR :: rchar where "STAR \<equiv> 42"
abbreviation QMARK :: rchar where "QMARK \<equiv> 63"

text \<open>
  The state is \<^verbatim>\<open>value_index\<close>, \<^verbatim>\<open>pattern_index\<close> and the pair of star indices, which the
  source always sets together.
\<close>

function glob_loop ::
  "rstr \<Rightarrow> rstr \<Rightarrow> nat \<Rightarrow> nat \<Rightarrow> (nat \<times> nat) option \<Rightarrow> nat option" where
  "glob_loop value pattern value_index pattern_index star =
     (if value_index < length value then
        if pattern_index < length pattern \<and>
             (pattern ! pattern_index = QMARK \<or> pattern ! pattern_index = value ! value_index)
        then glob_loop value pattern (value_index + 1) (pattern_index + 1) star
        else if pattern_index < length pattern \<and> pattern ! pattern_index = STAR
        then glob_loop value pattern value_index (pattern_index + 1)
               (Some (pattern_index, value_index))
        else case star of
            Some (star_pattern, star_value) \<Rightarrow>
              glob_loop value pattern (star_value + 1) (star_pattern + 1)
                (Some (star_pattern, star_value + 1))
          | None \<Rightarrow> None
      else Some pattern_index)"
  by pat_completeness auto
termination
  by (relation "measures
        [\<lambda>(v, p, vi, pi, s). (case s of None \<Rightarrow> 0 | Some (sp, sv) \<Rightarrow> if sv \<le> vi then 0 else 1),
         \<lambda>(v, p, vi, pi, s). (case s of None \<Rightarrow> Suc (length v) | Some (sp, sv) \<Rightarrow> length v - sv),
         \<lambda>(v, p, vi, pi, s). length v - vi,
         \<lambda>(v, p, vi, pi, s). length p - pi]")
     (auto split: option.splits)

declare glob_loop.simps [simp del]

text \<open>The trailing loop skips stars; the answer is whether it reaches the end of the pattern.\<close>

definition glob_matches :: "rstr \<Rightarrow> rstr \<Rightarrow> bool" where
  "glob_matches value pattern =
     (if pattern = str ''*'' then True
      else case glob_loop value pattern 0 0 None of
          None \<Rightarrow> False
        | Some pattern_index \<Rightarrow>
            dropWhile (\<lambda>c. c = STAR) (drop pattern_index pattern) = [])"

definition glob_atom :: "rchar \<Rightarrow> PatternAtom" where
  "glob_atom c = (if c = STAR then AnySequence else if c = QMARK then AnyCharacter else Literal c)"

text \<open>The reference meaning of a glob pattern.\<close>

abbreviation glob_spec :: "rstr \<Rightarrow> rstr \<Rightarrow> bool" where
  "glob_spec value pattern \<equiv> amatch (map glob_atom pattern) value"

lemma glob_atom_simps [simp]:
  "glob_atom STAR = AnySequence"
  "glob_atom c = AnySequence \<longleftrightarrow> c = STAR"
  "c \<noteq> STAR \<Longrightarrow> atom_accepts (glob_atom c) d \<longleftrightarrow> c = QMARK \<or> c = d"
  by (auto simp: glob_atom_def)

lemma glob_spec_Cons:
  "glob_spec v (c # p) \<longleftrightarrow>
     (if c = STAR then \<exists>k \<le> length v. glob_spec (drop k v) p
      else \<exists>d w. v = d # w \<and> (c = QMARK \<or> c = d) \<and> glob_spec w p)"
proof (cases "c = STAR")
  case True
  then show ?thesis by simp
next
  case False
  then show ?thesis by (cases v) auto
qed

lemma glob_spec_star_at:
  assumes "pi < length p" "p ! pi = STAR"
  shows "glob_spec v (drop pi p) \<longleftrightarrow> (\<exists>k \<le> length v. glob_spec (drop k v) (drop (Suc pi) p))"
  using assms glob_spec_Cons [where v = v and c = STAR and p = "drop (Suc pi) p"] by (simp add: Cons_nth_drop_Suc [symmetric])

lemma glob_spec_char_at:
  assumes "pi < length p" "p ! pi \<noteq> STAR" "vi < length v"
  shows "glob_spec (drop vi v) (drop pi p) \<longleftrightarrow>
           (p ! pi = QMARK \<or> p ! pi = v ! vi) \<and> glob_spec (drop (Suc vi) v) (drop (Suc pi) p)"
  using assms glob_spec_Cons [where v = "drop vi v" and c = "p ! pi" and p = "drop (Suc pi) p"]
  by (auto simp: Cons_nth_drop_Suc [symmetric])

subsection \<open>Soundness: whatever the loop accepts, the pattern matches\<close>

lemma stars_dropWhile:
  "dropWhile (\<lambda>c. c = STAR) q = [] \<longleftrightarrow> glob_spec [] q"
  by (auto simp: dropWhile_eq_Nil_conv amatch_Nil_iff)

lemma glob_loop_sound:
  assumes "glob_loop v p vi pi star = Some r" and "vi \<le> length v"
    and "glob_spec (drop vi v) (drop pi p) \<Longrightarrow> G"
    and "\<And>sp sv k. star = Some (sp, sv) \<Longrightarrow> sv \<le> k \<Longrightarrow> k \<le> length v \<Longrightarrow>
           glob_spec (drop k v) (drop (Suc sp) p) \<Longrightarrow> G"
    and "\<And>sp sv. star = Some (sp, sv) \<Longrightarrow> sv \<le> vi"
    and "glob_spec [] (drop r p)"
  shows G
  using assms
proof (induction v p vi pi star rule: glob_loop.induct)
  case (1 v p vi pi star)
  show ?case
  proof (cases "vi < length v")
    case False
    with "1.prems" show ?thesis by (simp add: glob_loop.simps [of v p vi])
  next
    case vi: True
    show ?thesis
    proof (cases "pi < length p \<and> (p ! pi = QMARK \<or> p ! pi = v ! vi)")
      case True
      have step: "glob_spec (drop vi v) (drop pi p)"
        if "glob_spec (drop (Suc vi) v) (drop (Suc pi) p)"
      proof (cases "p ! pi = STAR")
        case star: True
        have "glob_spec (drop 1 (drop vi v)) (drop (Suc pi) p)" using that by simp
        then show ?thesis
          using True star vi by (auto simp: glob_spec_star_at intro!: exI [of _ 1])
      next
        case False
        with True vi that show ?thesis by (simp add: glob_spec_char_at)
      qed
      from True vi "1.prems"(1) have "glob_loop v p (vi + 1) (pi + 1) star = Some r"
        by (simp add: glob_loop.simps [of v p vi])
      with "1.IH"(1) vi True "1.prems" step show ?thesis
        by (metis Suc_eq_plus1 Suc_leI le_SucI)
    next
      case nomatch: False
      show ?thesis
      proof (cases "pi < length p \<and> p ! pi = STAR")
        case True
        from nomatch True vi "1.prems"(1)
        have "glob_loop v p vi (pi + 1) (Some (pi, vi)) = Some r"
          by (simp add: glob_loop.simps [of v p vi])
        moreover have "G" if "glob_spec (drop k v) (drop (Suc pi) p)" "vi \<le> k" "k \<le> length v" for k
        proof -
          have "glob_spec (drop (k - vi) (drop vi v)) (drop (Suc pi) p)" using that by simp
          then have "glob_spec (drop vi v) (drop pi p)"
            using True that by (auto simp: glob_spec_star_at intro!: exI [of _ "k - vi"])
          then show G by (rule "1.prems"(3))
        qed
        ultimately show ?thesis
          using "1.IH"(2) [OF vi nomatch True] "1.prems"(2,6) vi by fastforce
      next
        case nostar: False
        show ?thesis
        proof (cases star)
          case None
          with nomatch nostar vi "1.prems"(1) show ?thesis by (auto simp: glob_loop.simps [of v p vi])
        next
          case (Some s)
          obtain sp sv where s: "s = (sp, sv)" by fastforce
          from nomatch nostar vi "1.prems"(1) Some s
          have run: "glob_loop v p (sv + 1) (sp + 1) (Some (sp, sv + 1)) = Some r"
            by (auto simp: glob_loop.simps [of v p vi] split: if_splits)
          have "sv \<le> vi" using "1.prems"(5) Some s by blast
          with "1.IH"(3) [OF vi nomatch nostar Some s [symmetric] run] "1.prems"(4,6) vi Some s
          show ?thesis by fastforce
        qed
      qed
    qed
  qed
qed

lemma glob_matches_sound: "glob_matches v p \<Longrightarrow> glob_spec v p"
proof -
  assume m: "glob_matches v p"
  show ?thesis
  proof (cases "p = str ''*''")
    case True
    then show ?thesis by auto
  next
    case False
    with m obtain r where r: "glob_loop v p 0 0 None = Some r" "glob_spec [] (drop r p)"
      by (auto simp: glob_matches_def amatch_Nil_iff split: option.splits)
    show ?thesis
      by (rule glob_loop_sound [OF r(1) _ _ _ _ r(2)]) auto
  qed
qed

subsection \<open>Completeness for values without a star\<close>

text \<open>
  A star-free stretch of the pattern consumes exactly its length, so the leftmost position at
  which it fits is as good as any other: this is why one backtracking point is enough.
\<close>

lemma glob_spec_segment:
  assumes "glob_spec w (drop a p)" and "a + k \<le> length p"
    and "\<And>j. j < k \<Longrightarrow> p ! (a + j) \<noteq> STAR"
  shows "k \<le> length w \<and> glob_spec (drop k w) (drop (a + k) p)"
  using assms
proof (induction k)
  case (Suc k)
  then have IH: "k \<le> length w" "glob_spec (drop k w) (drop (a + k) p)" by simp_all
  have "a + k < length p" "p ! (a + k) \<noteq> STAR" using Suc.prems by auto
  with IH show ?case
    by (cases "k < length w")
       (auto simp: glob_spec_char_at, simp add: Cons_nth_drop_Suc [symmetric])
qed simp

definition glob_inv :: "rstr \<Rightarrow> rstr \<Rightarrow> nat \<Rightarrow> nat \<Rightarrow> (nat \<times> nat) option \<Rightarrow> bool" where
  "glob_inv v p vi pi star =
     (case star of
        None \<Rightarrow> glob_spec (drop vi v) (drop pi p)
      | Some (sp, sv) \<Rightarrow>
          sv \<le> vi \<and> pi = Suc sp + (vi - sv) \<and> pi \<le> length p \<and>
          (\<forall>j < vi - sv. p ! (Suc sp + j) \<noteq> STAR) \<and>
          (\<exists>k \<ge> sv. k \<le> length v \<and> glob_spec (drop k v) (drop (Suc sp) p)))"

lemma glob_inv_segment:
  assumes "glob_inv v p vi pi (Some (sp, sv))"
  obtains k where "sv \<le> k" "k + (vi - sv) \<le> length v"
    and "glob_spec (drop (k + (vi - sv)) v) (drop pi p)"
    and "glob_spec (drop k v) (drop (Suc sp) p)"
proof -
  from assms obtain k where k: "sv \<le> k" "k \<le> length v" "glob_spec (drop k v) (drop (Suc sp) p)"
    and seg: "pi = Suc sp + (vi - sv)" "pi \<le> length p" "\<forall>j < vi - sv. p ! (Suc sp + j) \<noteq> STAR"
    by (auto simp: glob_inv_def)
  have "vi - sv \<le> length (drop k v) \<and> glob_spec (drop (vi - sv) (drop k v)) (drop (Suc sp + (vi - sv)) p)"
    by (rule glob_spec_segment) (use k seg in auto)
  with k seg that show thesis by (auto simp: add.commute)
qed

lemma glob_inv_match:
  assumes "glob_inv v p vi pi star" and "vi < length v" and "pi < length p" and "p ! pi \<noteq> STAR"
  shows "glob_inv v p (vi + 1) (pi + 1) star"
proof (cases star)
  case None
  with assms show ?thesis by (simp add: glob_inv_def glob_spec_char_at)
next
  case (Some s)
  obtain sp sv where s: "s = (sp, sv)" by fastforce
  from assms Some s have i: "sv \<le> vi" "pi = Suc sp + (vi - sv)"
    "\<forall>j < vi - sv. p ! (Suc sp + j) \<noteq> STAR"
    "\<exists>k \<ge> sv. k \<le> length v \<and> glob_spec (drop k v) (drop (Suc sp) p)"
    by (auto simp: glob_inv_def)
  then have "p ! (Suc sp + j) \<noteq> STAR" if "j < Suc (vi - sv)" for j
    using assms(4) that by (cases "j = vi - sv") auto
  with i assms(3) show ?thesis by (auto simp: glob_inv_def Some s Suc_diff_le)
qed

lemma glob_inv_star:
  assumes "glob_inv v p vi pi star" and "pi < length p" and "p ! pi = STAR" and "vi \<le> length v"
  shows "glob_inv v p vi (pi + 1) (Some (pi, vi))"
proof -
  have "\<exists>k \<ge> vi. k \<le> length v \<and> glob_spec (drop k v) (drop pi p)"
  proof (cases star)
    case None
    with assms show ?thesis by (auto simp: glob_inv_def)
  next
    case (Some s)
    obtain sp sv where s: "s = (sp, sv)" by fastforce
    obtain k where "sv \<le> k" "k + (vi - sv) \<le> length v"
      and "glob_spec (drop (k + (vi - sv)) v) (drop pi p)"
      using assms(1) Some s by (auto elim: glob_inv_segment)
    then show ?thesis by (intro exI [of _ "k + (vi - sv)"]) auto
  qed
  then obtain k j where "vi \<le> k" "k \<le> length v" "j \<le> length (drop k v)"
    and "glob_spec (drop j (drop k v)) (drop (Suc pi) p)"
    using assms(2,3) by (auto simp: glob_spec_star_at)
  then have "\<exists>k \<ge> vi. k \<le> length v \<and> glob_spec (drop k v) (drop (Suc pi) p)"
    by (intro exI [of _ "k + j"]) (auto simp: add.commute)
  with assms(2) show ?thesis by (auto simp: glob_inv_def)
qed

lemma glob_inv_backtrack:
  assumes "glob_inv v p vi pi star" and vi: "vi < length v"
    and no: "\<not> glob_spec (drop vi v) (drop pi p)"
  obtains sp sv where "star = Some (sp, sv)" and "sv \<le> vi"
    and "glob_inv v p (sv + 1) (sp + 1) (Some (sp, sv + 1))"
proof (cases star)
  case None
  with assms show ?thesis by (simp add: glob_inv_def)
next
  case (Some s)
  obtain sp sv where s: "s = (sp, sv)" by fastforce
  have i: "sv \<le> vi" "pi = Suc sp + (vi - sv)" "pi \<le> length p"
    using assms(1) Some s by (auto simp: glob_inv_def)
  obtain k where k: "sv \<le> k" "k + (vi - sv) \<le> length v"
    "glob_spec (drop (k + (vi - sv)) v) (drop pi p)" "glob_spec (drop k v) (drop (Suc sp) p)"
    using assms(1) Some s by (auto elim: glob_inv_segment)
  with no i have "k \<noteq> sv" by auto
  with k i have "glob_inv v p (sv + 1) (sp + 1) (Some (sp, sv + 1))"
    by (auto simp: glob_inv_def intro!: exI [of _ k])
  with that Some s i show ?thesis by blast
qed

lemma glob_loop_complete:
  assumes "glob_inv v p vi pi star" and "vi \<le> length v" and "STAR \<notin> set v"
  shows "\<exists>r. glob_loop v p vi pi star = Some r \<and> glob_spec [] (drop r p)"
  using assms
proof (induction v p vi pi star rule: glob_loop.induct)
  case (1 v p vi pi star)
  show ?case
  proof (cases "vi < length v")
    case False
    with "1.prems" have vi: "vi = length v" by simp
    have "glob_spec [] (drop pi p)"
    proof (cases star)
      case None
      with "1.prems" vi show ?thesis by (simp add: glob_inv_def)
    next
      case (Some s)
      obtain sp sv where s: "s = (sp, sv)" by fastforce
      with Some "1.prems"(1) have "sv \<le> vi" by (auto simp: glob_inv_def)
      moreover obtain k where "sv \<le> k" "k + (vi - sv) \<le> length v"
        "glob_spec (drop (k + (vi - sv)) v) (drop pi p)"
        using "1.prems"(1) Some s by (auto elim: glob_inv_segment)
      ultimately show ?thesis using vi by auto
    qed
    with False show ?thesis by (simp add: glob_loop.simps [of v p vi])
  next
    case vi: True
    then have vni: "v ! vi \<noteq> STAR" using "1.prems"(3) by (metis nth_mem)
    consider (match) "pi < length p \<and> (p ! pi = QMARK \<or> p ! pi = v ! vi)"
      | (star) "\<not> (pi < length p \<and> (p ! pi = QMARK \<or> p ! pi = v ! vi))"
          "pi < length p \<and> p ! pi = STAR"
      | (backtrack) "\<not> (pi < length p \<and> (p ! pi = QMARK \<or> p ! pi = v ! vi))"
          "\<not> (pi < length p \<and> p ! pi = STAR)"
      by blast
    then show ?thesis
    proof cases
      case match
      with vni have "p ! pi \<noteq> STAR" by auto
      with match vi "1.prems" have "glob_inv v p (vi + 1) (pi + 1) star"
        by (blast intro: glob_inv_match)
      with "1.IH"(1) [OF vi match] vi match "1.prems" show ?thesis
        by (simp add: glob_loop.simps [of v p vi])
    next
      case star
      with vi "1.prems" have "glob_inv v p vi (pi + 1) (Some (pi, vi))"
        by (blast intro: glob_inv_star)
      with "1.IH"(2) [OF vi star] vi star "1.prems" show ?thesis
        by (simp add: glob_loop.simps [of v p vi])
    next
      case backtrack
      have "\<not> glob_spec (drop vi v) (drop pi p)"
        using backtrack vi by (cases "pi < length p") (auto simp: glob_spec_char_at)
      from glob_inv_backtrack [OF "1.prems"(1) vi this]
      obtain sp sv where s: "star = Some (sp, sv)" "sv \<le> vi"
        and i: "glob_inv v p (sv + 1) (sp + 1) (Some (sp, sv + 1))" by blast
      have "\<exists>r. glob_loop v p (sv + 1) (sp + 1) (Some (sp, sv + 1)) = Some r \<and> glob_spec [] (drop r p)"
        by (rule "1.IH"(3) [OF vi backtrack s(1) refl i]) (use vi s "1.prems" in auto)
      moreover have "glob_loop v p vi pi star = glob_loop v p (sv + 1) (sp + 1) (Some (sp, sv + 1))"
        using backtrack vi s by (auto simp: glob_loop.simps [of v p vi])
      ultimately show ?thesis by simp
    qed
  qed
qed

lemma glob_matches_complete:
  assumes "glob_spec v p" and "STAR \<notin> set v"
  shows "glob_matches v p"
proof -
  from assms have "glob_inv v p 0 0 None" by (simp add: glob_inv_def)
  from glob_loop_complete [OF this] assms show ?thesis
    by (auto simp: glob_matches_def stars_dropWhile simp del: dropWhile_eq_Nil_conv)
qed

text \<open>
  C27: The glob loop is exact: on a value that contains no \<^verbatim>\<open>*\<close> it answers as the reference
  semantics of the pattern does, and on any value at all it never accepts what the pattern does
  not match.
\<close>

theorem glob_matches_correct:
  "(glob_matches v p \<longrightarrow> glob_spec v p) \<and> (STAR \<notin> set v \<longrightarrow> glob_matches v p = glob_spec v p)"
  using glob_matches_sound glob_matches_complete by blast

theorem glob_matches_correct_witness:
  "glob_spec (str ''read_file'') (str ''read_*'') \<and>
   glob_matches (str ''ab'') (str ''**a**b**'') = glob_spec (str ''ab'') (str ''**a**b**'')"
proof -
  have "glob_matches (str ''read_file'') (str ''read_*'')" by code_simp
  moreover have "STAR \<notin> set (str ''ab'')" by simp
  ultimately show ?thesis using glob_matches_correct by blast
qed


end
