(* ===== verification/Domain.thy ===== *)
theory Domain
  imports Rust_Prelude
begin

section \<open>Domain names and domain patterns (crates/sendbox-egress/src/domain.rs)\<close>

text \<open>
  Normalisation of names and of policy patterns, and the matching of a normalised candidate
  against a normalised pattern.  The lemmas give the canonical form that normalisation
  establishes and read matching label by label.
\<close>

definition MAX_DOMAIN_OCTETS :: nat where "MAX_DOMAIN_OCTETS = 253"
definition MAX_LABEL_OCTETS :: nat where "MAX_LABEL_OCTETS = 63"

datatype DomainError = Empty | TooLong | InvalidLabel rstr | InvalidCharacter rstr

abbreviation DOT :: rchar where "DOT \<equiv> 46"
abbreviation HYPHEN :: rchar where "HYPHEN \<equiv> 45"

definition label_chars_valid :: "rstr \<Rightarrow> bool" where
  "label_chars_valid label \<longleftrightarrow>
     (\<forall>b \<in> set label. is_ascii_alphanumeric b \<or> b = HYPHEN) \<and>
     hd label \<noteq> HYPHEN \<and> last label \<noteq> HYPHEN"

text \<open>The loop over the labels returns at the first bad one.\<close>

fun check_labels :: "rstr list \<Rightarrow> DomainError option" where
  "check_labels [] = None"
| "check_labels (label # labels) =
     (if label = [] \<or> rlen label > MAX_LABEL_OCTETS then Some (InvalidLabel label)
      else if \<not> label_chars_valid label then Some (InvalidCharacter label)
      else check_labels labels)"

definition normalize_domain :: "rstr \<Rightarrow> DomainError + rstr" where
  "normalize_domain raw =
     (let trimmed = trim raw;
          trimmed = (case strip_suffix trimmed [DOT] of Some t \<Rightarrow> t | None \<Rightarrow> trimmed)
      in if trimmed = [] then Inl Empty
         else let lower = to_ascii_lowercase trimmed
              in if rlen lower > MAX_DOMAIN_OCTETS then Inl TooLong
                 else case check_labels (split_on DOT lower) of
                     Some e \<Rightarrow> Inl e
                   | None \<Rightarrow> Inr lower)"

definition normalize_pattern :: "rstr \<Rightarrow> DomainError + rstr" where
  "normalize_pattern raw =
     (let trimmed = trim raw
      in case strip_prefix trimmed (str ''*.'') of
          Some rest \<Rightarrow>
            (case normalize_domain rest of
               Inl e \<Rightarrow> Inl e
             | Inr normalized_rest \<Rightarrow>
                 let pattern = str ''*.'' @ normalized_rest
                 in if rlen pattern > MAX_DOMAIN_OCTETS then Inl TooLong else Inr pattern)
        | None \<Rightarrow> normalize_domain trimmed)"

definition pattern_matches :: "rstr \<Rightarrow> rstr \<Rightarrow> bool" where
  "pattern_matches pattern candidate =
     (case strip_prefix pattern (str ''*.'') of
        Some suffix \<Rightarrow>
          let dotted_suffix = DOT # suffix
          in rlen candidate > rlen dotted_suffix \<and> ends_with candidate dotted_suffix
      | None \<Rightarrow> pattern = candidate)"

definition leftmost_label :: "rstr \<Rightarrow> rstr" where
  "leftmost_label normalized = (case split_on DOT normalized of [] \<Rightarrow> [] | l # _ \<Rightarrow> l)"

subsection \<open>The canonical form\<close>

definition valid_label :: "rstr \<Rightarrow> bool" where
  "valid_label l \<longleftrightarrow> l \<noteq> [] \<and> length l \<le> 63 \<and> label_chars_valid l"

definition canonical_domain :: "rstr \<Rightarrow> bool" where
  "canonical_domain d \<longleftrightarrow>
     d \<noteq> [] \<and> length d \<le> 253 \<and> to_ascii_lowercase d = d \<and> (\<forall>l \<in> set (split_on DOT d). valid_label l)"

lemma label_chars_ascii: "label_chars_valid l \<Longrightarrow> c \<in> set l \<Longrightarrow> c < 128"
  by (auto simp: label_chars_valid_def is_ascii_alphanumeric_def)

lemma check_labels_None_iff: "check_labels ls = None \<longleftrightarrow> (\<forall>l \<in> set ls. valid_label l)"
proof (induction ls)
  case (Cons l ls)
  have "rlen l = length l" if "label_chars_valid l"
    using that by (simp add: rlen_ascii label_chars_ascii)
  with Cons.IH show ?case by (auto simp: valid_label_def MAX_LABEL_OCTETS_def rlen_ge_length)
qed simp

lemma valid_labels_chars:
  assumes "\<forall>l \<in> set (split_on DOT d). valid_label l" and "c \<in> set d"
  shows "is_ascii_alphanumeric c \<or> c = HYPHEN \<or> c = DOT"
proof (cases "c = DOT")
  case False
  with assms(2) chars_split_on [of d DOT] obtain l where "l \<in> set (split_on DOT d)" "c \<in> set l"
    by blast
  with assms(1) show ?thesis by (auto simp: valid_label_def label_chars_valid_def)
qed simp

lemma valid_labels_not_whitespace:
  assumes "\<forall>l \<in> set (split_on DOT d). valid_label l" and "c \<in> set d"
  shows "\<not> is_whitespace c" and "c < 128"
  using valid_labels_chars [OF assms]
  by (auto simp: is_whitespace_def is_ascii_alphanumeric_def)

lemma split_on_snoc_delim: "split_on d (s @ [d]) = split_on d s @ [[]]"
  using split_on_append [of d s "[]"] by simp

lemma canonical_domain_no_trailing_dot:
  assumes "canonical_domain d"
  shows "\<not> ends_with d [DOT]"
proof
  assume "ends_with d [DOT]"
  then obtain r where "d = r @ [DOT]" by (auto simp: ends_with_iff)
  then have "[] \<in> set (split_on DOT d)" by (simp add: split_on_snoc_delim)
  with assms show False by (auto simp: canonical_domain_def valid_label_def)
qed

lemma canonical_domain_trim: "canonical_domain d \<Longrightarrow> trim d = d"
  by (rule trim_id) (auto simp: canonical_domain_def valid_labels_not_whitespace)

lemma normalize_domain_canonical:
  assumes "normalize_domain raw = Inr d"
  shows "canonical_domain d"
proof -
  from assms have d: "d \<noteq> []" "rlen d \<le> 253" "\<forall>l \<in> set (split_on DOT d). valid_label l"
    "to_ascii_lowercase d = d"
    by (auto simp: normalize_domain_def Let_def MAX_DOMAIN_OCTETS_def check_labels_None_iff
        split: if_splits option.splits)
  with rlen_ge_length [of d] show ?thesis by (simp add: canonical_domain_def)
qed

lemma normalize_domain_id:
  assumes "canonical_domain d"
  shows "normalize_domain d = Inr d"
proof -
  have "rlen d = length d"
    using assms by (auto simp: canonical_domain_def intro!: rlen_ascii valid_labels_not_whitespace)
  moreover have "strip_suffix d [DOT] = None"
    using canonical_domain_no_trailing_dot [OF assms] by (simp add: strip_suffix_None_iff)
  moreover have "check_labels (split_on DOT d) = None"
    using assms by (simp add: check_labels_None_iff canonical_domain_def)
  ultimately show ?thesis
    using assms canonical_domain_trim [OF assms]
    by (simp add: normalize_domain_def canonical_domain_def MAX_DOMAIN_OCTETS_def)
qed

text \<open>
  Normalisation establishes the canonical form (non-empty, at most 253 octets, lower case,
  every label 1 to 63 letters, digits or inner hyphens) and is idempotent: a canonical name
  normalises to itself.
\<close>

theorem normalize_domain_idempotent:
  assumes "normalize_domain raw = Inr d"
  shows "canonical_domain d \<and> normalize_domain d = Inr d"
  using assms normalize_domain_canonical normalize_domain_id by blast

theorem normalize_domain_idempotent_witness:
  "normalize_domain (str ''Example.COM.'') = Inr (str ''example.com'') \<and>
   canonical_domain (str ''example.com'') \<and>
   normalize_domain (str ''example.com'') = Inr (str ''example.com'')"
proof -
  have "normalize_domain (str ''Example.COM.'') = Inr (str ''example.com'')" by code_simp
  with normalize_domain_idempotent [OF this] show ?thesis by simp
qed

subsection \<open>Matching, label by label\<close>

lemma canonical_no_star: "canonical_domain d \<Longrightarrow> 42 \<notin> set d"
  using valid_labels_chars [of d 42] by (auto simp: canonical_domain_def is_ascii_alphanumeric_def)

lemma strip_star_canonical: "canonical_domain d \<Longrightarrow> strip_prefix d (str ''*.'') = None"
  using canonical_no_star [of d]
  by (auto simp: strip_prefix_None_iff starts_with_iff)

lemma normalize_pattern_cases:
  assumes "normalize_pattern raw = Inr p"
  obtains (Exact) "canonical_domain p"
  | (Wildcard) base where "canonical_domain base" and "p = str ''*.'' @ base"
proof (cases "strip_prefix (trim raw) (str ''*.'')")
  case None
  with assms Exact show thesis
    by (simp add: normalize_pattern_def normalize_domain_canonical del: str_simps)
next
  case (Some rest)
  with assms obtain base where "normalize_domain rest = Inr base" "p = str ''*.'' @ base"
    by (auto simp: normalize_pattern_def Let_def simp del: str_simps split: sum.splits if_splits)
  with Wildcard show thesis by (blast dest: normalize_domain_canonical)
qed

lemma ends_with_length:
  assumes "ends_with c s"
  shows "rlen c > rlen s \<longleftrightarrow> (\<exists>r. r \<noteq> [] \<and> c = r @ s)"
proof -
  from assms obtain r where "c = r @ s" by (auto simp: ends_with_iff)
  then show ?thesis by (cases "r = []") (auto simp: neq0_conv [symmetric] simp del: neq0_conv)
qed

lemma pattern_matches_wildcard:
  assumes "canonical_domain base" and "canonical_domain c"
  shows "pattern_matches (str ''*.'' @ base) c \<longleftrightarrow>
           (\<exists>ls. ls \<noteq> [] \<and> split_on DOT c = ls @ split_on DOT base)"
proof
  assume "pattern_matches (str ''*.'' @ base) c"
  then have "ends_with c (DOT # base)" "rlen c > rlen (DOT # base)"
    unfolding pattern_matches_def by (simp_all only: strip_prefix_append option.case Let_def)
  then obtain r where "r \<noteq> []" "c = r @ DOT # base"
    using ends_with_length by blast
  then have "split_on DOT c = split_on DOT r @ split_on DOT base" by (simp add: split_on_append)
  then show "\<exists>ls. ls \<noteq> [] \<and> split_on DOT c = ls @ split_on DOT base"
    using split_on_not_Nil by blast
next
  assume "\<exists>ls. ls \<noteq> [] \<and> split_on DOT c = ls @ split_on DOT base"
  then obtain ls where ls: "ls \<noteq> []" "split_on DOT c = ls @ split_on DOT base" by blast
  have c: "c = join_with DOT ls @ DOT # base"
    using join_with_append [OF ls(1) split_on_not_Nil] ls(2) by (metis join_split)
  have "hd ls \<noteq> []"
    using assms(2) ls by (cases ls) (auto simp: canonical_domain_def valid_label_def)
  with ls(1) have "join_with DOT ls \<noteq> []" by (cases "(DOT, ls)" rule: join_with.cases) auto
  with c have "ends_with c (DOT # base) \<and> rlen c > rlen (DOT # base)"
    using ends_with_length [of c "DOT # base"] ends_with_iff [of c "DOT # base"] by blast
  then show "pattern_matches (str ''*.'' @ base) c"
    unfolding pattern_matches_def by (simp only: strip_prefix_append option.case Let_def simp_thms)
qed

lemma pattern_matches_exact:
  "canonical_domain p \<Longrightarrow> pattern_matches p c \<longleftrightarrow> p = c"
  by (simp add: pattern_matches_def strip_star_canonical del: str_simps)

text \<open>
  Matching is by whole labels: a wildcard pattern matches exactly the names that have one or
  more labels in front of the labels of its base (never the base itself, never a name that only
  shares a suffix of characters), and any other pattern matches the identical name only.
\<close>

theorem pattern_matches_labels:
  assumes "normalize_pattern raw = Inr p" and "normalize_domain name = Inr c"
  shows "pattern_matches p c \<longleftrightarrow>
     (case strip_prefix p (str ''*.'') of
        Some base \<Rightarrow> \<exists>ls. ls \<noteq> [] \<and> split_on DOT c = ls @ split_on DOT base
      | None \<Rightarrow> p = c)"
proof -
  note c = normalize_domain_canonical [OF assms(2)]
  from assms(1) show ?thesis
  proof (cases rule: normalize_pattern_cases)
    case Exact
    then show ?thesis by (simp add: pattern_matches_exact strip_star_canonical del: str_simps)
  next
    case (Wildcard base)
    then show ?thesis using pattern_matches_wildcard [OF _ c] by (simp del: str_simps)
  qed
qed

theorem pattern_matches_labels_witness:
  "pattern_matches (str ''*.github.com'') (str ''api.github.com'') \<longleftrightarrow>
     (\<exists>ls. ls \<noteq> [] \<and> split_on DOT (str ''api.github.com'') = ls @ split_on DOT (str ''github.com''))"
proof -
  have p: "normalize_pattern (str '' *.GitHub.com'') = Inr (str ''*.github.com'')" by code_simp
  have d: "normalize_domain (str ''API.github.com.'') = Inr (str ''api.github.com'')" by code_simp
  have b: "strip_prefix (str ''*.github.com'') (str ''*.'') = Some (str ''github.com'')" by code_simp
  from pattern_matches_labels [OF p d] show ?thesis by (simp only: b option.case)
qed

end
