(* ===== verification/Address.thy ===== *)
theory Address
  imports Rust_Prelude
begin

unbundle bit_operations_syntax

section \<open>IP addresses and their classes (crates/sendbox-egress/src/address.rs)\<close>

text \<open>
  \<^verbatim>\<open>Ipv4Addr\<close> is a 32-bit word and \<^verbatim>\<open>Ipv6Addr\<close> a 128-bit word, most significant octet first;
  the standard library's \<^verbatim>\<open>octets\<close>, \<^verbatim>\<open>segments\<close>, \<^verbatim>\<open>is_*\<close> and \<^verbatim>\<open>to_ipv4_mapped\<close> are defined on
  them.  The classification is compared with a table of address blocks.
\<close>

datatype IpAddr = V4 u32 | V6 "128 word"

text \<open>The derived order of the enumeration: IPv4 before IPv6, then by value.\<close>

instantiation IpAddr :: linorder
begin

fun less_eq_IpAddr :: "IpAddr \<Rightarrow> IpAddr \<Rightarrow> bool" where
  "V4 a \<le> V4 b \<longleftrightarrow> a \<le> b"
| "V4 a \<le> V6 b \<longleftrightarrow> True"
| "V6 a \<le> V4 b \<longleftrightarrow> False"
| "V6 a \<le> V6 b \<longleftrightarrow> a \<le> b"

definition less_IpAddr :: "IpAddr \<Rightarrow> IpAddr \<Rightarrow> bool" where
  "less_IpAddr a b \<longleftrightarrow> a \<le> b \<and> \<not> b \<le> a"

instance
proof
  fix x y z :: IpAddr
  show "x < y \<longleftrightarrow> x \<le> y \<and> \<not> y \<le> x" by (rule less_IpAddr_def)
  show "x \<le> x" by (cases x) auto
  show "x \<le> y \<Longrightarrow> y \<le> z \<Longrightarrow> x \<le> z" by (cases x; cases y; cases z) auto
  show "x \<le> y \<Longrightarrow> y \<le> x \<Longrightarrow> x = y" by (cases x; cases y) auto
  show "x \<le> y \<or> y \<le> x" by (cases x; cases y) auto
qed

end

subsection \<open>The standard library's views of an address\<close>

definition octet :: "u32 \<Rightarrow> nat \<Rightarrow> u8" where
  "octet ip i = ucast (drop_bit (24 - 8 * i) ip)"

definition ipv4_new :: "u8 \<Rightarrow> u8 \<Rightarrow> u8 \<Rightarrow> u8 \<Rightarrow> u32" where
  "ipv4_new a b c d =
     push_bit 24 (ucast a) OR push_bit 16 (ucast b) OR push_bit 8 (ucast c) OR ucast d"

definition segment :: "128 word \<Rightarrow> nat \<Rightarrow> u16" where
  "segment ip i = ucast (drop_bit (112 - 16 * i) ip)"

definition to_ipv4_mapped :: "128 word \<Rightarrow> u32 option" where
  "to_ipv4_mapped ip = (if drop_bit 32 ip = 0xffff then Some (ucast ip) else None)"

definition to_ipv6_mapped :: "u32 \<Rightarrow> 128 word" where
  "to_ipv6_mapped ip = push_bit 32 0xffff OR ucast ip"

definition v4_is_unspecified :: "u32 \<Rightarrow> bool" where "v4_is_unspecified ip \<longleftrightarrow> ip = 0"
definition v4_is_loopback :: "u32 \<Rightarrow> bool" where "v4_is_loopback ip \<longleftrightarrow> octet ip 0 = 127"
definition v4_is_link_local :: "u32 \<Rightarrow> bool" where
  "v4_is_link_local ip \<longleftrightarrow> octet ip 0 = 169 \<and> octet ip 1 = 254"
definition v4_is_multicast :: "u32 \<Rightarrow> bool" where
  "v4_is_multicast ip \<longleftrightarrow> 224 \<le> octet ip 0 \<and> octet ip 0 \<le> 239"
definition v6_is_unspecified :: "128 word \<Rightarrow> bool" where "v6_is_unspecified ip \<longleftrightarrow> ip = 0"
definition v6_is_loopback :: "128 word \<Rightarrow> bool" where "v6_is_loopback ip \<longleftrightarrow> ip = 1"
definition v6_is_multicast :: "128 word \<Rightarrow> bool" where
  "v6_is_multicast ip \<longleftrightarrow> segment ip 0 AND 0xff00 = 0xff00"

subsection \<open>Classification\<close>

datatype AddressClass =
  Unspecified | CloudMetadata | Loopback | LinkLocal | Multicast | PrivateRfc1918
  | UniqueLocalIpv6 | Global

definition is_restricted :: "AddressClass \<Rightarrow> bool" where
  "is_restricted c \<longleftrightarrow> \<not> (case c of Global \<Rightarrow> True | _ \<Rightarrow> False)"

definition METADATA_V4_ADDRESSES :: "u32 list" where
  "METADATA_V4_ADDRESSES = [ipv4_new 169 254 169 254, ipv4_new 100 100 100 200]"

definition METADATA_V6_ADDRESSES :: "(128 word) list" where
  "METADATA_V6_ADDRESSES = [0xfd000ec2000000000000000000000254]"

definition is_rfc1918 :: "u32 \<Rightarrow> bool" where
  "is_rfc1918 ip \<longleftrightarrow>
     octet ip 0 = 10 \<or> (octet ip 0 = 172 \<and> 16 \<le> octet ip 1 \<and> octet ip 1 \<le> 31)
     \<or> (octet ip 0 = 192 \<and> octet ip 1 = 168)"

definition is_link_local_v6 :: "128 word \<Rightarrow> bool" where
  "is_link_local_v6 ip \<longleftrightarrow> segment ip 0 AND 0xffc0 = 0xfe80"

definition is_unique_local_v6 :: "128 word \<Rightarrow> bool" where
  "is_unique_local_v6 ip \<longleftrightarrow> segment ip 0 AND 0xfe00 = 0xfc00"

definition is_metadata_v6 :: "128 word \<Rightarrow> bool" where
  "is_metadata_v6 ip \<longleftrightarrow> ip \<in> set METADATA_V6_ADDRESSES"

definition classify_v4 :: "u32 \<Rightarrow> AddressClass" where
  "classify_v4 ip =
     (if v4_is_unspecified ip then Unspecified
      else if ip \<in> set METADATA_V4_ADDRESSES then CloudMetadata
      else if v4_is_loopback ip then Loopback
      else if v4_is_link_local ip then LinkLocal
      else if v4_is_multicast ip then Multicast
      else if is_rfc1918 ip then PrivateRfc1918
      else Global)"

definition classify_v6 :: "128 word \<Rightarrow> AddressClass" where
  "classify_v6 ip =
     (if v6_is_unspecified ip then Unspecified
      else case to_ipv4_mapped ip of
          Some v4 \<Rightarrow> classify_v4 v4
        | None \<Rightarrow>
            if is_metadata_v6 ip then CloudMetadata
            else if v6_is_loopback ip then Loopback
            else if is_link_local_v6 ip then LinkLocal
            else if v6_is_multicast ip then Multicast
            else if is_unique_local_v6 ip then UniqueLocalIpv6
            else Global)"

fun classify :: "IpAddr \<Rightarrow> AddressClass" where
  "classify (V4 v4) = classify_v4 v4"
| "classify (V6 v6) = classify_v6 v6"

fun canonicalize :: "IpAddr \<Rightarrow> IpAddr" where
  "canonicalize (V6 v6) = (case to_ipv4_mapped v6 of Some v4 \<Rightarrow> V4 v4 | None \<Rightarrow> V6 v6)"
| "canonicalize (V4 v4) = V4 v4"

subsection \<open>Address blocks\<close>

text \<open>An address is in the block \<open>base/len\<close> when its \<open>len\<close> leading bits are those of \<open>base\<close>.\<close>

definition in_block :: "'a::len word \<Rightarrow> nat \<Rightarrow> 'a word \<Rightarrow> bool" where
  "in_block base len ip \<longleftrightarrow>
     drop_bit (LENGTH('a) - len) ip = drop_bit (LENGTH('a) - len) base"

lemma is_restricted_iff [simp]: "is_restricted c \<longleftrightarrow> c \<noteq> Global"
  by (cases c) (auto simp: is_restricted_def)

lemma drop_push_ucast:
  "drop_bit 32 (push_bit 32 m OR ucast a :: 128 word) = m" if "m < 2 ^ 96" for m :: "128 word" and a :: u32
proof (rule bit_word_eqI)
  fix n assume "n < LENGTH(128)"
  have "\<not> bit m n" if "96 \<le> n"
    using \<open>m < 2 ^ 96\<close> that less_mask_eq [of m 96]
    by (metis bit_take_bit_iff not_le take_bit_eq_mask)
  then show "bit (drop_bit 32 (push_bit 32 m OR ucast a :: 128 word)) n \<longleftrightarrow> bit m n"
    by (cases "96 \<le> n")
       (auto simp: bit_drop_bit_eq bit_or_iff bit_push_bit_iff bit_ucast_iff
         dest: bit_imp_le_length)
qed

lemma ucast_push_ucast: "ucast (push_bit 32 m OR ucast a :: 128 word) = a" for a :: u32
  by (rule bit_word_eqI) (auto simp: bit_or_iff bit_push_bit_iff bit_ucast_iff)

lemma to_ipv4_mapped_to_ipv6_mapped: "to_ipv4_mapped (to_ipv6_mapped a) = Some a"
  unfolding to_ipv4_mapped_def to_ipv6_mapped_def
  by (subst drop_push_ucast) (simp_all only: ucast_push_ucast, simp_all)

lemma mapped_not_unspecified: "to_ipv4_mapped ip = Some a \<Longrightarrow> ip \<noteq> 0"
  by (auto simp: to_ipv4_mapped_def split: if_splits)

lemma canonicalize_idem [simp]: "canonicalize (canonicalize ip) = canonicalize ip"
  by (cases ip) (auto split: option.splits)

lemma classify_canonicalize [simp]: "classify (canonicalize ip) = classify ip"
proof (cases ip)
  case (V6 v6)
  then show ?thesis
    by (auto simp: classify_v6_def v6_is_unspecified_def split: option.splits dest: mapped_not_unspecified)
qed simp


lemma unat_octet: "unat (octet ip i) = unat ip div 2 ^ (24 - 8 * i) mod 256"
  by (simp add: octet_def unsigned_ucast_eq unat_drop_bit_eq drop_bit_eq_div [where 'a = nat]
      take_bit_eq_mod)

lemma in_block_unat:
  "in_block base len ip \<longleftrightarrow>
     unat ip div 2 ^ (LENGTH('a) - len) = unat base div 2 ^ (LENGTH('a) - len)"
  for base ip :: "'a::len word"
  by (simp add: in_block_def word_unat_eq_iff unat_drop_bit_eq drop_bit_eq_div [where 'a = nat])

text \<open>The two leading octets of an IPv4 address, as numbers.\<close>

lemma octets_unat:
  obtains y :: nat where "unat (octet ip 0) = y div 256" and "unat (octet ip 1) = y mod 256"
    and "unat ip div 2 ^ 16 = y" and "unat ip div 2 ^ 24 = y div 256"
    and "unat ip div 2 ^ 20 = y div 16" and "unat ip div 2 ^ 28 = y div 4096" and "y < 65536"
proof
  let ?y = "unat ip div 2 ^ 16"
  have x: "unat ip < 2 ^ 32" using unat_less [of ip] by simp
  then show y: "?y < 65536" by simp
  show "unat ip div 2 ^ 24 = ?y div 256" "unat ip div 2 ^ 20 = ?y div 16"
    "unat ip div 2 ^ 28 = ?y div 4096"
    by (simp_all add: div_mult2_eq [symmetric])
  then show "unat (octet ip 0) = ?y div 256" "unat (octet ip 1) = ?y mod 256"
    using y by (simp_all add: unat_octet less_mult_imp_div_less)
qed simp

lemma two_octets: "y div 256 = a \<and> y mod 256 = b \<longleftrightarrow> y = 256 * a + b" if "b < 256" for y :: nat
  using that by auto

lemma nibble_split:
  fixes y :: nat
  shows "y div 256 = a \<and> 16 \<le> y mod 256 \<and> y mod 256 \<le> 31 \<longleftrightarrow> y div 16 = 16 * a + 1"
proof -
  define z where "z = y div 16"
  have y: "y mod 256 = 16 * (z mod 16) + y mod 16"
    using mod_mult2_eq [of y 16 16] by (simp add: z_def)
  have q: "y div 256 = z div 16" by (simp add: z_def div_mult2_eq [symmetric])
  have z: "z = 16 * (z div 16) + z mod 16" "z mod 16 < 16" "y mod 16 < 16" by simp_all
  show ?thesis unfolding z_def [symmetric]
  proof (intro iffI)
    assume "y div 256 = a \<and> 16 \<le> y mod 256 \<and> y mod 256 \<le> 31"
    then have "z div 16 = a" "16 \<le> 16 * (z mod 16) + y mod 16" "16 * (z mod 16) + y mod 16 \<le> 31"
      using y q by simp_all
    then have "z mod 16 = 1" using z(2,3) by linarith
    with \<open>z div 16 = a\<close> z(1) show "z = 16 * a + 1" by simp
  next
    assume "z = 16 * a + 1"
    then have "z div 16 = a" "z mod 16 = 1" by simp_all
    with y q z(3) show "y div 256 = a \<and> 16 \<le> y mod 256 \<and> y mod 256 \<le> 31" by simp
  qed
qed

lemmas block_unfold = word_unat_eq_iff word_le_nat_alt in_block_unat

lemma loopback_block: "v4_is_loopback ip \<longleftrightarrow> in_block 0x7f000000 8 ip"
  by (rule octets_unat [of ip]) (simp add: v4_is_loopback_def block_unfold)

lemma link_local_block: "v4_is_link_local ip \<longleftrightarrow> in_block 0xa9fe0000 16 ip"
proof (rule octets_unat [of ip])
  fix y assume y: "unat (octet ip 0) = y div 256" "unat (octet ip 1) = y mod 256"
    "unat ip div 2 ^ 16 = y"
  have "y div 256 = 169 \<and> y mod 256 = 254 \<longleftrightarrow> y = 43518" by (simp add: two_octets)
  with y show ?thesis by (simp add: v4_is_link_local_def block_unfold)
qed

lemma multicast_block: "v4_is_multicast ip \<longleftrightarrow> in_block 0xe0000000 4 ip"
proof (rule octets_unat [of ip])
  fix y assume y: "unat (octet ip 0) = y div 256" "unat ip div 2 ^ 28 = y div 4096"
  have "y div 4096 = y div 256 div 16" by (simp add: div_mult2_eq [symmetric])
  moreover have "224 \<le> q \<and> q \<le> 239 \<longleftrightarrow> q div 16 = 14" for q :: nat by linarith
  ultimately show ?thesis using y by (simp add: v4_is_multicast_def block_unfold)
qed

lemma rfc1918_blocks:
  "is_rfc1918 ip \<longleftrightarrow>
     in_block 0x0a000000 8 ip \<or> in_block 0xac100000 12 ip \<or> in_block 0xc0a80000 16 ip"
proof (rule octets_unat [of ip])
  fix y assume y: "unat (octet ip 0) = y div 256" "unat (octet ip 1) = y mod 256"
    "unat ip div 2 ^ 16 = y" "unat ip div 2 ^ 24 = y div 256" "unat ip div 2 ^ 20 = y div 16"
  have "y div 256 = 192 \<and> y mod 256 = 168 \<longleftrightarrow> y = 49320" by (simp add: two_octets)
  moreover have "y div 256 = 172 \<and> 16 \<le> y mod 256 \<and> y mod 256 \<le> 31 \<longleftrightarrow> y div 16 = 2753"
    using nibble_split [of y 172] by simp
  ultimately show ?thesis using y by (simp add: is_rfc1918_def block_unfold)
qed

lemma and_not_mask_eq_iff:
  "w AND NOT (mask n) = b AND NOT (mask n) \<longleftrightarrow> drop_bit n w = drop_bit n b"
  for w b :: "'a::len word"
proof
  assume eq: "w AND NOT (mask n) = b AND NOT (mask n)"
  have "drop_bit n v = drop_bit n (v AND NOT (mask n))" for v :: "'a word"
    by (rule bit_word_eqI) (auto simp: bit_simps dest: bit_imp_le_length)
  then show "drop_bit n w = drop_bit n b" by (metis eq)
next
  assume "drop_bit n w = drop_bit n b"
  then have "bit w (n + (i - n)) = bit b (n + (i - n))" for i
    by (metis bit_drop_bit_eq comp_apply)
  then have "bit w i = bit b i" if "n \<le> i" for i
    using that by (metis le_add_diff_inverse)
  then show "w AND NOT (mask n) = b AND NOT (mask n)"
    by (intro bit_word_eqI) (auto simp: bit_simps)
qed

lemma len128: "LENGTH(128) = 128"
  by simp

lemma segment_block:
  assumes "n \<le> 16"
  shows "segment ip 0 AND NOT (mask n) = b AND NOT (mask n) \<longleftrightarrow>
    in_block (push_bit 112 (ucast b)) (16 - n) ip"
proof -
  have "unat ip < 2 ^ 128" using unat_less [of ip] by simp
  then have seg: "unat (segment ip 0) = unat ip div 2 ^ 112"
    by (simp add: segment_def unsigned_ucast_eq unat_drop_bit_eq drop_bit_eq_div [where 'a = nat]
        take_bit_eq_mod less_mult_imp_div_less)
  have "drop_bit 112 (push_bit 112 (ucast b) :: 128 word) = ucast b"
    by (rule bit_word_eqI) (auto simp: bit_simps dest: bit_imp_le_length)
  then have "unat (push_bit 112 (ucast b) :: 128 word) div 2 ^ 112 = unat (ucast b :: 128 word)"
    by (metis drop_bit_eq_div unat_drop_bit_eq)
  also have "\<dots> = unat b"
    using unat_less [of b] by (simp add: unsigned_ucast_eq take_bit_eq_mod)
  finally have "unat (push_bit 112 (ucast b) :: 128 word) div 2 ^ 112 = unat b" .
  moreover have "2 ^ (128 - (16 - n)) = (2 ^ 112 * 2 ^ n :: nat)"
  proof -
    have "128 - (16 - n) = 112 + n" using assms by simp
    then show ?thesis by (simp only: power_add)
  qed
  ultimately show ?thesis
    unfolding and_not_mask_eq_iff in_block_unat
    unfolding word_unat_eq_iff unat_drop_bit_eq drop_bit_eq_div [where 'a = nat] seg
    by (simp only: div_mult2_eq len128)
qed

lemma u16_masks: "(- 64 :: u16) = 0xffc0" "(- 512 :: u16) = 0xfe00" "(- 256 :: u16) = 0xff00"
  by simp_all

lemma link_local_v6_block: "is_link_local_v6 ip \<longleftrightarrow> in_block 0xfe800000000000000000000000000000 10 ip"
  using segment_block [where n = 6 and ip = ip and b = "0xfe80"] by (simp add: is_link_local_v6_def mask_eq_exp_minus_1 u16_masks)

lemma unique_local_v6_block: "is_unique_local_v6 ip \<longleftrightarrow> in_block 0xfc000000000000000000000000000000 7 ip"
  using segment_block [where n = 9 and ip = ip and b = "0xfc00"] by (simp add: is_unique_local_v6_def mask_eq_exp_minus_1 u16_masks)

lemma multicast_v6_block: "v6_is_multicast ip \<longleftrightarrow> in_block 0xff000000000000000000000000000000 8 ip"
  using segment_block [where n = 8 and ip = ip and b = "0xff00"] by (simp add: v6_is_multicast_def mask_eq_exp_minus_1 u16_masks)

subsection \<open>The table of address blocks\<close>

text \<open>The blocks of each class as the documentation names them, in order of precedence.\<close>

definition v4_table :: "(AddressClass \<times> (u32 \<times> nat) list) list" where
  "v4_table =
    [(Unspecified, [(0, 32)]),
     (CloudMetadata, [(0xa9fea9fe, 32), (0x646464c8, 32)]),
     (Loopback, [(0x7f000000, 8)]),
     (LinkLocal, [(0xa9fe0000, 16)]),
     (Multicast, [(0xe0000000, 4)]),
     (PrivateRfc1918, [(0x0a000000, 8), (0xac100000, 12), (0xc0a80000, 16)])]"

definition v6_table :: "(AddressClass \<times> (128 word \<times> nat) list) list" where
  "v6_table =
    [(Unspecified, [(0, 128)]),
     (CloudMetadata, [(0xfd000ec2000000000000000000000254, 128)]),
     (Loopback, [(1, 128)]),
     (LinkLocal, [(0xfe800000000000000000000000000000, 10)]),
     (Multicast, [(0xff000000000000000000000000000000, 8)]),
     (UniqueLocalIpv6, [(0xfc000000000000000000000000000000, 7)])]"

fun lookup_class :: "(AddressClass \<times> ('a::len word \<times> nat) list) list \<Rightarrow> 'a word \<Rightarrow> AddressClass" where
  "lookup_class [] ip = Global"
| "lookup_class ((c, blocks) # table) ip =
     (if list_ex (\<lambda>(base, len). in_block base len ip) blocks then c else lookup_class table ip)"

definition block_class :: "IpAddr \<Rightarrow> AddressClass" where
  "block_class ip =
     (case canonicalize ip of V4 a \<Rightarrow> lookup_class v4_table a | V6 a \<Rightarrow> lookup_class v6_table a)"

lemma in_block_host [simp]:
  "in_block b 32 (ip :: u32) \<longleftrightarrow> ip = b" "in_block c 128 (jp :: 128 word) \<longleftrightarrow> jp = c"
  by (auto simp: in_block_def)

lemma metadata_v4: "METADATA_V4_ADDRESSES = [0xa9fea9fe, 0x646464c8]"
  by (simp add: METADATA_V4_ADDRESSES_def ipv4_new_def)

lemma classify_v4_table: "classify_v4 a = lookup_class v4_table a"
  by (simp add: classify_v4_def v4_table_def metadata_v4 v4_is_unspecified_def loopback_block
      link_local_block multicast_block rfc1918_blocks)

lemma classify_v6_table: "to_ipv4_mapped a = None \<Longrightarrow> classify_v6 a = lookup_class v6_table a"
  by (simp add: classify_v6_def v6_table_def is_metadata_v6_def METADATA_V6_ADDRESSES_def
      v6_is_unspecified_def v6_is_loopback_def link_local_v6_block multicast_v6_block
      unique_local_v6_block)


end
