(* ===== verification/Policy_Types.thy ===== *)
theory Policy_Types
  imports Rust_Prelude
begin

section \<open>Policy documents (crates/sendbox-policy/src/lib.rs)\<close>

text \<open>
  The configuration records that the policy engines compile.  Unsigned fields are natural
  numbers; \<open>i64\<close> fields are integers.
\<close>

datatype Action = Allow | Deny

record CommandPolicy =
  cp_default_action :: Action
  cp_allowlist :: "rstr list"
  cp_denylist :: "rstr list"
  cp_log_blocked :: bool

datatype Protocol = Tcp | Udp

record PortRule =
  pr_protocol :: Protocol
  pr_port :: u16

datatype DnsRecordType = RecA | RecAaaa

record DnsQueryBudget =
  window_secs :: nat
  max_queries :: nat
  max_query_octets :: nat
  max_unique_names :: nat
  max_dynamic_labels :: nat

record DnsPolicy =
  max_ttl_secs :: nat
  max_qname_octets :: nat
  max_labels :: nat
  max_label_octets :: nat
  allowed_record_types :: "DnsRecordType list"
  max_response_records :: nat
  budget :: DnsQueryBudget

definition default_DnsQueryBudget :: DnsQueryBudget where
  "default_DnsQueryBudget =
     \<lparr>window_secs = 60, max_queries = 600, max_query_octets = 32768,
      max_unique_names = 256, max_dynamic_labels = 256\<rparr>"

definition default_DnsPolicy :: DnsPolicy where
  "default_DnsPolicy =
     \<lparr>max_ttl_secs = 300, max_qname_octets = 253, max_labels = 40, max_label_octets = 63,
      allowed_record_types = [RecA, RecAaaa], max_response_records = 32,
      budget = default_DnsQueryBudget\<rparr>"

record NetworkPolicy =
  np_default_action :: Action
  np_allowed_domains :: "rstr list"
  np_blocked_domains :: "rstr list"
  np_allow_dns :: bool
  np_max_connections :: "int option"
  np_allowed_networks :: "rstr list"
  np_blocked_networks :: "rstr list"
  np_allowed_ports :: "PortRule list"
  np_dns :: DnsPolicy

text \<open>The widths of the unsigned fields of the source.\<close>

definition dns_budget_typed :: "DnsQueryBudget \<Rightarrow> bool" where
  "dns_budget_typed b \<longleftrightarrow>
     window_secs b < 2 ^ 32 \<and> max_queries b < 2 ^ 32 \<and> max_query_octets b < 2 ^ 64 \<and>
     max_unique_names b < 2 ^ 32 \<and> max_dynamic_labels b < 2 ^ 32"

subsection \<open>Validation of the DNS section\<close>

text \<open>
  \<^verbatim>\<open>DnsPolicy::validate\<close> pushes one diagnostic per violated requirement; a diagnostic is
  modelled by the field it names, in the order of the source.
\<close>

definition require :: "bool \<Rightarrow> string \<Rightarrow> string list" where
  "require ok field = (if ok then [] else [field])"

definition DnsPolicy_validate :: "DnsPolicy \<Rightarrow> string list" where
  "DnsPolicy_validate d =
     require (max_ttl_secs d > 0) ''max_ttl_secs''
     @ require (max_qname_octets d \<ge> 1 \<and> max_qname_octets d \<le> 253) ''max_qname_octets''
     @ require (max_labels d \<ge> 1) ''max_labels''
     @ require (max_label_octets d \<ge> 1 \<and> max_label_octets d \<le> 63) ''max_label_octets''
     @ require (max_response_records d \<ge> 1) ''max_response_records''
     @ require (allowed_record_types d \<noteq> []) ''allowed_record_types''
     @ require (window_secs (budget d) > 0) ''budget.window_secs''
     @ require (max_queries (budget d) \<ge> 1) ''budget.max_queries''
     @ require (max_query_octets (budget d) \<ge> 1) ''budget.max_query_octets''
     @ require (max_unique_names (budget d) \<ge> 1) ''budget.max_unique_names''
     @ require (max_dynamic_labels (budget d) \<ge> 1) ''budget.max_dynamic_labels''"

end
