(* ===== verification/Ip_Parse.thy ===== *)
theory Ip_Parse
  imports Address
begin

unbundle bit_operations_syntax

section \<open>Parsing of IP literals\<close>

text \<open>
  \<^verbatim>\<open>str::parse::<IpAddr>\<close> of the standard library, which the policy compiler uses for network
  literals: four decimal octets without leading zeros, or the groups of an IPv6 address with at
  most one \<^verbatim>\<open>::\<close> and an optional trailing dotted quad.  A parser returns the value and the rest
  of the input.
\<close>

type_synonym 'a ip_parser = "rstr \<Rightarrow> ('a \<times> rstr) option"

definition to_digit :: "int \<Rightarrow> rchar \<Rightarrow> int option" where
  "to_digit radix c =
     (let d = (if 48 \<le> c \<and> c \<le> 57 then Some (c - 48)
               else if 97 \<le> c \<and> c \<le> 122 then Some (c - 87)
               else if 65 \<le> c \<and> c \<le> 90 then Some (c - 55) else None)
      in case d of Some n \<Rightarrow> if n < radix then Some n else None | None \<Rightarrow> None)"

fun read_digits :: "int \<Rightarrow> rstr \<Rightarrow> int list \<times> rstr" where
  "read_digits radix [] = ([], [])"
| "read_digits radix (c # cs) =
     (case to_digit radix c of
        Some d \<Rightarrow> (let (ds, rest) = read_digits radix cs in (d # ds, rest))
      | None \<Rightarrow> ([], c # cs))"

definition digits_value :: "int \<Rightarrow> int list \<Rightarrow> int" where
  "digits_value radix ds = foldl (\<lambda>v d. v * radix + d) 0 ds"

definition read_number :: "int \<Rightarrow> nat \<Rightarrow> bool \<Rightarrow> int \<Rightarrow> int ip_parser" where
  "read_number radix max_digits allow_zero_prefix limit s =
     (let (ds, rest) = read_digits radix s
      in if length ds > max_digits \<or> ds = [] then None
         else if \<not> allow_zero_prefix \<and> hd ds = 0 \<and> length ds > 1 then None
         else if digits_value radix ds \<le> limit then Some (digits_value radix ds, rest)
         else None)"

definition read_given_char :: "rchar \<Rightarrow> unit ip_parser" where
  "read_given_char c s = (case s of x # xs \<Rightarrow> if x = c then Some ((), xs) else None | [] \<Rightarrow> None)"

definition read_separator :: "rchar \<Rightarrow> nat \<Rightarrow> 'a ip_parser \<Rightarrow> 'a ip_parser" where
  "read_separator sep index inner s =
     (if index > 0 then (case read_given_char sep s of None \<Rightarrow> None | Some (_, r) \<Rightarrow> inner r)
      else inner s)"

abbreviation read_octet :: "int ip_parser" where
  "read_octet \<equiv> read_number 10 3 False 255"

abbreviation read_group :: "int ip_parser" where
  "read_group \<equiv> read_number 16 4 True 65535"

definition read_ipv4_octets :: "(int list) ip_parser" where
  "read_ipv4_octets s =
     (case read_separator 46 0 read_octet s of None \<Rightarrow> None | Some (a, s1) \<Rightarrow>
      (case read_separator 46 1 read_octet s1 of None \<Rightarrow> None | Some (b, s2) \<Rightarrow>
       (case read_separator 46 2 read_octet s2 of None \<Rightarrow> None | Some (c, s3) \<Rightarrow>
        (case read_separator 46 3 read_octet s3 of None \<Rightarrow> None | Some (d, s4) \<Rightarrow>
           Some ([a, b, c, d], s4)))))"

text \<open>\<open>read_groups limit i s\<close>: the groups from index \<open>i\<close> on, whether a dotted quad ended them.\<close>

function read_groups :: "nat \<Rightarrow> nat \<Rightarrow> rstr \<Rightarrow> int list \<times> bool \<times> rstr" where
  "read_groups limit i s =
     (if limit \<le> i then ([], False, s)
      else case (if i < limit - 1 then read_separator 58 i read_ipv4_octets s else None) of
          Some (os, rest) \<Rightarrow> ([os ! 0 * 256 + os ! 1, os ! 2 * 256 + os ! 3], True, rest)
        | None \<Rightarrow>
            (case read_separator 58 i read_group s of
               None \<Rightarrow> ([], False, s)
             | Some (g, rest) \<Rightarrow>
                 let (gs, v4, r) = read_groups limit (Suc i) rest in (g # gs, v4, r)))"
  by pat_completeness auto
termination
  by (relation "measure (\<lambda>(limit, i, s). limit - i)") auto

declare read_groups.simps [simp del]

definition read_ipv6_groups :: "(int list) ip_parser" where
  "read_ipv6_groups s =
     (let (head, head_ipv4, s1) = read_groups 8 0 s
      in if length head = 8 then Some (head, s1)
         else if head_ipv4 then None
         else case read_given_char 58 s1 of
             None \<Rightarrow> None
           | Some (_, s2) \<Rightarrow>
               (case read_given_char 58 s2 of
                  None \<Rightarrow> None
                | Some (_, s3) \<Rightarrow>
                    let (tail, _, s4) = read_groups (8 - (length head + 1)) 0 s3
                    in Some (head @ replicate (8 - length head - length tail) 0 @ tail, s4)))"

definition join_groups :: "int \<Rightarrow> int list \<Rightarrow> int" where
  "join_groups base gs = foldl (\<lambda>v g. v * base + g) 0 gs"

definition parse_IpAddr :: "rstr \<Rightarrow> IpAddr option" where
  "parse_IpAddr s =
     (case read_ipv4_octets s of
        Some (os, rest) \<Rightarrow>
          if rest = [] then Some (V4 (word_of_int (join_groups 256 os))) else None
      | None \<Rightarrow>
          (case read_ipv6_groups s of
             Some (gs, rest) \<Rightarrow>
               if rest = [] then Some (V6 (word_of_int (join_groups 65536 gs))) else None
           | None \<Rightarrow> None))"

end
