(* ===== verification/Ipnet.thy ===== *)
theory Ipnet
  imports Ip_Parse
begin

unbundle bit_operations_syntax

section \<open>IP networks\<close>

text \<open>
  The \<^verbatim>\<open>ipnet\<close> crate is not part of the repository.  The record \<open>ipnet_ops\<close> holds the functions the
  sources call on its type \<^verbatim>\<open>IpNet\<close>, which is a type variable ordered as its \<^verbatim>\<open>Ord\<close> orders it.
  The locale \<open>ipnet_laws\<close> states what the crate documents of them: a network is an address and a
  prefix length of one family, it contains the addresses of that family which agree with it on the
  prefix, \<^verbatim>\<open>IpNet::from\<close> is the full-length network and \<^verbatim>\<open>trunc\<close> only clears host bits.
  \<open>cidr_ops\<close> is a concrete instance of the interface.
\<close>

record 'net ipnet_ops =
  ipnet_parse :: "rstr \<Rightarrow> 'net option"
  ipnet_from :: "IpAddr \<Rightarrow> 'net"
  ipnet_contains :: "'net \<Rightarrow> IpAddr \<Rightarrow> bool"
  ipnet_prefix_len :: "'net \<Rightarrow> nat"
  ipnet_trunc :: "'net \<Rightarrow> 'net"
  ipnet_to_string :: "'net \<Rightarrow> rstr"

text \<open>\<^verbatim>\<open>parse_ip_or_cidr\<close> of policy.rs, which \<^verbatim>\<open>GitHubMetaScope::parse\<close> repeats inline.\<close>

definition parse_ip_or_cidr :: "'net ipnet_ops \<Rightarrow> rstr \<Rightarrow> 'net option" where
  "parse_ip_or_cidr ops literal =
     (case ipnet_parse ops literal of
        Some net \<Rightarrow> Some net
      | None \<Rightarrow> map_option (ipnet_from ops) (parse_IpAddr literal))"

subsection \<open>Blocks of one family\<close>

fun block_contains :: "IpAddr \<Rightarrow> nat \<Rightarrow> IpAddr \<Rightarrow> bool" where
  "block_contains (V4 a) len (V4 b) = in_block a len b"
| "block_contains (V6 a) len (V6 b) = in_block a len b"
| "block_contains _ _ _ = False"

fun addr_bits :: "IpAddr \<Rightarrow> nat" where
  "addr_bits (V4 _) = 32"
| "addr_bits (V6 _) = 128"

fun addr_trunc :: "IpAddr \<Rightarrow> nat \<Rightarrow> IpAddr" where
  "addr_trunc (V4 a) len = V4 (push_bit (32 - len) (drop_bit (32 - len) a))"
| "addr_trunc (V6 a) len = V6 (push_bit (128 - len) (drop_bit (128 - len) a))"

text \<open>The flip of the leading bit: an address outside every proper block around its argument.\<close>

fun addr_flip :: "IpAddr \<Rightarrow> IpAddr" where
  "addr_flip (V4 a) = V4 (a XOR push_bit 31 1)"
| "addr_flip (V6 a) = V6 (a XOR push_bit 127 1)"

subsection \<open>A concrete instance\<close>

definition read_prefix_len :: "nat \<Rightarrow> rstr \<Rightarrow> nat option" where
  "read_prefix_len bits s =
     (case read_number 10 3 False (int bits) s of
        Some (n, []) \<Rightarrow> Some (nat n)
      | _ \<Rightarrow> None)"

definition cidr_parse :: "rstr \<Rightarrow> (IpAddr \<times> nat) option" where
  "cidr_parse s =
     (case split_once 47 s of
        None \<Rightarrow> None
      | Some (address, len) \<Rightarrow>
          (case parse_IpAddr address of
             None \<Rightarrow> None
           | Some a \<Rightarrow> map_option (Pair a) (read_prefix_len (addr_bits a) len)))"

definition cidr_ops :: "(IpAddr \<times> nat) ipnet_ops" where
  "cidr_ops =
     \<lparr>ipnet_parse = cidr_parse,
      ipnet_from = (\<lambda>a. (a, addr_bits a)),
      ipnet_contains = (\<lambda>(a, len). block_contains a len),
      ipnet_prefix_len = snd,
      ipnet_trunc = (\<lambda>(a, len). (addr_trunc a len, len)),
      ipnet_to_string = (\<lambda>_. [])\<rparr>"

subsection \<open>The interface\<close>

locale ipnet_laws =
  fixes ops :: "'net ipnet_ops" and addr :: "'net \<Rightarrow> IpAddr"
  assumes contains_block: "ipnet_contains ops n a = block_contains (addr n) (ipnet_prefix_len ops n) a"
    and from_addr: "addr (ipnet_from ops a) = a"
    and from_len: "ipnet_prefix_len ops (ipnet_from ops a) = addr_bits a"
    and trunc_addr: "addr (ipnet_trunc ops n) = addr_trunc (addr n) (ipnet_prefix_len ops n)"
    and trunc_len: "ipnet_prefix_len ops (ipnet_trunc ops n) = ipnet_prefix_len ops n"

lemma block_contains_full: "block_contains a (addr_bits a) b \<longleftrightarrow> b = a"
  by (cases a; cases b) (auto simp: in_block_def)

lemma in_block_trunc:
  "in_block (push_bit (LENGTH('a) - len) (drop_bit (LENGTH('a) - len) a)) len b \<longleftrightarrow> in_block a len b"
  for a :: "'a::len word"
proof -
  have "drop_bit k (push_bit k (drop_bit k a)) = drop_bit k a" for k
    by (rule bit_word_eqI) (auto simp: bit_drop_bit_eq bit_push_bit_iff dest: bit_imp_le_length)
  then show ?thesis by (simp add: in_block_def)
qed

lemma block_contains_trunc: "block_contains (addr_trunc a len) len b \<longleftrightarrow> block_contains a len b"
  using in_block_trunc [where 'a = 32] in_block_trunc [where 'a = 128] by (cases a; cases b) simp_all

lemma in_block_flip: "len > 0 \<Longrightarrow> \<not> in_block a len (a XOR push_bit (LENGTH('a) - 1) 1)" for a :: "'a::len word"
proof
  assume "len > 0" and eq: "in_block a len (a XOR push_bit (LENGTH('a) - 1) 1)"
  then have "bit (drop_bit (LENGTH('a) - len) (a XOR push_bit (LENGTH('a) - 1) 1)) (min len LENGTH('a) - 1)
             = bit (drop_bit (LENGTH('a) - len) a) (min len LENGTH('a) - 1)"
    by (simp add: in_block_def)
  moreover have "LENGTH('a) - len + (min len LENGTH('a) - 1) = LENGTH('a) - 1"
    using \<open>len > 0\<close> by auto
  ultimately have "bit (a XOR push_bit (LENGTH('a) - 1) 1) (LENGTH('a) - 1) = bit a (LENGTH('a) - 1)"
    by (simp only: bit_drop_bit_eq o_apply)
  then show False
    by (simp add: bit_xor_iff bit_exp_iff)
qed

lemma block_flip: "len > 0 \<Longrightarrow> \<not> block_contains a len (addr_flip a)"
  using in_block_flip [where 'a = 32] in_block_flip [where 'a = 128] by (cases a) simp_all

lemma addr_bits_flip [simp]: "addr_bits (addr_flip a) = addr_bits a"
  by (cases a) simp_all

lemma addr_bits_trunc [simp]: "addr_bits (addr_trunc a len) = addr_bits a"
  by (cases a) simp_all

context ipnet_laws
begin

lemma contains_from [simp]: "ipnet_contains ops (ipnet_from ops a) b \<longleftrightarrow> b = a"
  by (simp add: contains_block from_addr from_len block_contains_full)

lemma contains_trunc [simp]: "ipnet_contains ops (ipnet_trunc ops n) b \<longleftrightarrow> ipnet_contains ops n b"
  by (simp add: contains_block trunc_addr trunc_len block_contains_trunc)

lemma proper_block: "ipnet_prefix_len ops n > 0 \<Longrightarrow> \<not> ipnet_contains ops n (addr_flip (addr n))"
  by (simp add: contains_block block_flip)

end

interpretation cidr: ipnet_laws cidr_ops fst
  by unfold_locales (auto simp: cidr_ops_def)

end
