(* ===== verification/Github_Meta.thy ===== *)
theory Github_Meta
  imports Domain Ipnet
begin

section \<open>Published destination grants (crates/sendbox-egress/src/github_meta.rs)\<close>

text \<open>
  An exact \<^verbatim>\<open>github.com\<close> grant adds the destinations that GitHub publishes.  The scope is
  parsed from a JSON document and lives in a state that refreshes replace and that expires.

  Code outside the repository: networks are the parameter of theory \<open>Ipnet\<close>;
  \<^verbatim>\<open>serde_json::from_slice\<close> and the SHA-256 digest are function arguments.  \<open>Json\<close> is the
  documented result type of the former, an object being the list of its entries in key order.
  Instants are natural numbers of nanoseconds and are passed in.
\<close>

datatype Json =
  JNull | JBool bool | JNumber int | JString rstr | JArray "Json list" | JObject "(rstr \<times> Json) list"

definition MAX_META_BYTES :: nat where "MAX_META_BYTES = 2 * 1024 * 1024"
definition MAX_NETWORK_ENTRIES :: nat where "MAX_NETWORK_ENTRIES = 16384"
definition MAX_DOMAIN_ENTRIES :: nat where "MAX_DOMAIN_ENTRIES = 4096"

abbreviation nanos :: "nat \<Rightarrow> nat" where "nanos secs \<equiv> secs * 1000000000"

definition META_REFRESH_INTERVAL :: nat where "META_REFRESH_INTERVAL = nanos (60 * 60)"
definition META_MAX_STALENESS :: nat where "META_MAX_STALENESS = nanos (24 * 60 * 60)"

definition NETWORK_FIELDS :: "rstr list" where
  "NETWORK_FIELDS = map str
     [''hooks'', ''web'', ''shared_ingress'', ''api'', ''git'', ''github_enterprise_importer'',
      ''packages'', ''pages'', ''importer'', ''actions'', ''actions_macos'', ''codespaces'',
      ''dependabot'', ''copilot'']"

definition DOMAIN_FIELDS :: "rstr list" where
  "DOMAIN_FIELDS = map str
     [''website'', ''codespaces'', ''copilot'', ''packages'', ''storage'', ''actions'']"

definition IGNORED_FIELDS :: "rstr list" where
  "IGNORED_FIELDS = map str
     [''domains'', ''verifiable_password_authentication'', ''ssh_keys'', ''ssh_key_fingerprints'',
      ''commit_signing_keys'']"

datatype GitHubMetaError =
  LimitExceeded | InvalidDocument string | InvalidNetwork | InvalidDomain | UnexpectedNotModified
  | Clock | HttpStatus nat | Timeout | PolicyDenied | Resolution | Transport string | TlsRoots
  | InvalidResponse | Publication | RefreshInProgress

record 'net GitHubMetaScope =
  scope_domains :: "rstr list"
  scope_networks :: "'net list"
  scope_sha256 :: rstr

subsection \<open>Parsing a scope\<close>

fun as_string :: "Json \<Rightarrow> rstr option" where
  "as_string (JString s) = Some s"
| "as_string _ = None"

definition meta_strings :: "Json \<Rightarrow> GitHubMetaError + rstr list" where
  "meta_strings value =
     (case value of
        JArray values \<Rightarrow>
          if length values > MAX_NETWORK_ENTRIES then Inl LimitExceeded
          else try_map (\<lambda>v. case as_string v of
                   Some s \<Rightarrow> Inr s
                 | None \<Rightarrow> Inl (InvalidDocument ''destination entries must be strings'')) values
      | _ \<Rightarrow> Inl (InvalidDocument ''expected a destination array''))"

text \<open>The body of the loop over the literals of one network field.\<close>

fun add_networks ::
  "('net::linorder) ipnet_ops \<Rightarrow> rstr list \<Rightarrow> 'net list \<times> nat \<Rightarrow> GitHubMetaError + 'net list \<times> nat" where
  "add_networks ops [] (networks, n) = Inr (networks, n)"
| "add_networks ops (literal # ls) (networks, n) =
     (if n + 1 > MAX_NETWORK_ENTRIES then Inl LimitExceeded
      else case parse_ip_or_cidr ops literal of
          None \<Rightarrow> Inl InvalidNetwork
        | Some network \<Rightarrow>
            if ipnet_prefix_len ops network = 0 then Inl InvalidNetwork
            else add_networks ops ls (insort_insert (ipnet_trunc ops network) networks, n + 1))"

fun scan_network_fields ::
  "('net::linorder) ipnet_ops \<Rightarrow> (rstr \<times> Json) list \<Rightarrow> 'net list \<times> nat
   \<Rightarrow> GitHubMetaError + 'net list \<times> nat" where
  "scan_network_fields ops [] acc = Inr acc"
| "scan_network_fields ops ((field, value) # entries) acc =
     (if field \<in> set NETWORK_FIELDS then
        case meta_strings value of
          Inl e \<Rightarrow> Inl e
        | Inr literals \<Rightarrow>
            (case add_networks ops literals acc of
               Inl e \<Rightarrow> Inl e
             | Inr acc' \<Rightarrow> scan_network_fields ops entries acc')
      else if field \<in> set IGNORED_FIELDS then scan_network_fields ops entries acc
      else Inl (InvalidDocument ''unrecognized top-level field''))"

fun add_domains :: "rstr list \<Rightarrow> rstr list \<times> nat \<Rightarrow> GitHubMetaError + rstr list \<times> nat" where
  "add_domains [] (domains, n) = Inr (domains, n)"
| "add_domains (name # names) (domains, n) =
     (if n + 1 > MAX_DOMAIN_ENTRIES then Inl LimitExceeded
      else case normalize_pattern name of
          Inl _ \<Rightarrow> Inl InvalidDomain
        | Inr pattern \<Rightarrow>
            if parse_IpAddr pattern \<noteq> None then Inl InvalidDomain
            else add_domains names (insort_insert pattern domains, n + 1))"

definition add_domains_value :: "Json \<Rightarrow> rstr list \<times> nat \<Rightarrow> GitHubMetaError + rstr list \<times> nat" where
  "add_domains_value value acc =
     (case meta_strings value of Inl e \<Rightarrow> Inl e | Inr names \<Rightarrow> add_domains names acc)"

fun scan_nested ::
  "rstr \<Rightarrow> (rstr \<times> Json) list \<Rightarrow> rstr list \<times> nat \<Rightarrow> GitHubMetaError + rstr list \<times> nat" where
  "scan_nested field [] acc = Inr acc"
| "scan_nested field ((key, value) # rest) acc =
     (if field = str ''actions_inbound'' \<and> (key = str ''full_domains'' \<or> key = str ''wildcard_domains'')
         \<or> field = str ''artifact_attestations'' \<and> key = str ''services'' then
        case add_domains_value value acc of Inl e \<Rightarrow> Inl e | Inr acc' \<Rightarrow> scan_nested field rest acc'
      else if field = str ''artifact_attestations'' \<and> key = str ''trust_domain'' \<and> as_string value \<noteq> None
      then scan_nested field rest acc
      else Inl (InvalidDocument ''unrecognized domain field''))"

fun scan_domain_fields ::
  "(rstr \<times> Json) list \<Rightarrow> rstr list \<times> nat \<Rightarrow> GitHubMetaError + rstr list \<times> nat" where
  "scan_domain_fields [] acc = Inr acc"
| "scan_domain_fields ((field, value) # entries) acc =
     (if field \<in> set DOMAIN_FIELDS then
        case add_domains_value value acc of Inl e \<Rightarrow> Inl e | Inr acc' \<Rightarrow> scan_domain_fields entries acc'
      else if \<not> (field = str ''actions_inbound'' \<or> field = str ''artifact_attestations'')
      then Inl (InvalidDocument ''unrecognized domain field'')
      else case value of
          JObject nested \<Rightarrow>
            (case scan_nested field nested acc of Inl e \<Rightarrow> Inl e | Inr acc' \<Rightarrow> scan_domain_fields entries acc')
        | _ \<Rightarrow> Inl (InvalidDocument ''expected a nested domain object''))"

definition core_field_missing :: "(rstr \<times> Json) list \<Rightarrow> rstr \<Rightarrow> bool" where
  "core_field_missing entries required =
     (case map_of entries required of
        Some (JArray values) \<Rightarrow> values = []
      | _ \<Rightarrow> True)"

definition GitHubMetaScope_parse ::
  "('net::linorder) ipnet_ops \<Rightarrow> (bytes \<Rightarrow> Json option) \<Rightarrow> (bytes \<Rightarrow> rstr) \<Rightarrow> bytes
   \<Rightarrow> GitHubMetaError + 'net GitHubMetaScope" where
  "GitHubMetaScope_parse ops from_slice sha256_hex bytes =
     (if length bytes > MAX_META_BYTES then Inl LimitExceeded
      else case from_slice bytes of
          None \<Rightarrow> Inl (InvalidDocument ''expected JSON'')
        | Some (JObject entries) \<Rightarrow>
            (if (case map_of entries (str ''verifiable_password_authentication'') of
                   Some (JBool _) \<Rightarrow> False | _ \<Rightarrow> True)
             then Inl (InvalidDocument ''missing authentication metadata'')
             else case scan_network_fields ops entries ([], 0) of
                 Inl e \<Rightarrow> Inl e
               | Inr (networks, _) \<Rightarrow>
                   if list_ex (core_field_missing entries) [str ''web'', str ''api'', str ''git'']
                   then Inl (InvalidDocument ''missing core network field'')
                   else case map_of entries (str ''domains'') of
                       Some (JObject published) \<Rightarrow>
                         (case scan_domain_fields published ([], 0) of
                            Inl e \<Rightarrow> Inl e
                          | Inr (domains, _) \<Rightarrow>
                              if networks = [] \<or> domains = []
                              then Inl (InvalidDocument ''empty destination scope'')
                              else Inr \<lparr>scope_domains = domains, scope_networks = networks,
                                        scope_sha256 = sha256_hex bytes\<rparr>)
                     | _ \<Rightarrow> Inl (InvalidDocument ''missing domains object''))
        | Some _ \<Rightarrow> Inl (InvalidDocument ''expected an object''))"

subsection \<open>The refresh state\<close>

datatype GitHubMetaResponse = Modified bytes "rstr option" | NotModified

datatype GitHubMetaState = Pending | Fresh | Degraded | Unavailable | Expired

record GitHubMetaPublishedScope =
  pub_sha256 :: rstr
  pub_domains :: "rstr list"
  pub_networks :: "rstr list"

record GitHubMetaStatus =
  status_state :: GitHubMetaState
  grants_active :: bool
  status_revision :: nat
  refresh_interval_seconds :: nat
  max_staleness_seconds :: nat
  last_attempt_unix_seconds :: "nat option"
  last_success_unix_seconds :: "nat option"
  expires_unix_seconds :: "nat option"
  status_etag :: "rstr option"
  status_last_error :: "GitHubMetaError option"
  published_scope :: "GitHubMetaPublishedScope option"

record 'net Snapshot =
  snap_scope :: "'net GitHubMetaScope"
  validated_at :: nat
  validated_unix_seconds :: nat
  snap_etag :: "rstr option"

record 'net State =
  st_snapshot :: "'net Snapshot option"
  st_revision :: nat
  st_last_attempt :: "nat option"
  st_last_error :: "GitHubMetaError option"

definition State_default :: "'net State" where
  "State_default = \<lparr>st_snapshot = None, st_revision = 0, st_last_attempt = None, st_last_error = None\<rparr>"

definition meta_clear :: "'net State \<Rightarrow> 'net State" where
  "meta_clear st = st\<lparr>st_snapshot := None, st_last_attempt := None, st_last_error := None\<rparr>"

definition valid_etag :: "rstr \<Rightarrow> bool" where
  "valid_etag etag =
     (let opaque = (case strip_prefix etag (str ''W/'') of Some v \<Rightarrow> v | None \<Rightarrow> etag)
      in rlen etag \<le> 512 \<and>
         (case Option.bind (strip_prefix opaque [34]) (\<lambda>v. strip_suffix v [34]) of
            Some value \<Rightarrow> list_all (\<lambda>b. b = 0x21 \<or> 0x23 \<le> b \<and> b \<le> 0x7e) value
          | None \<Rightarrow> False))"

definition snapshot_active :: "nat \<Rightarrow> 'net Snapshot \<Rightarrow> bool" where
  "snapshot_active now s \<longleftrightarrow> now - validated_at s < META_MAX_STALENESS"

definition view :: "nat \<Rightarrow> 'net State \<Rightarrow> nat \<times> 'net GitHubMetaScope option" where
  "view now st =
     (case st_snapshot st of
        Some snapshot \<Rightarrow>
          if snapshot_active now snapshot then (st_revision st, Some (snap_scope snapshot)) else (0, None)
      | None \<Rightarrow> (0, None))"

text \<open>
  \<^verbatim>\<open>prepare_response\<close>: the two clocks it reads are arguments, \<open>None\<close> being a system clock before
  the Unix epoch; the revision is an unsigned 64-bit counter with a checked increment.
\<close>

definition prepare_response ::
  "(bytes \<Rightarrow> GitHubMetaError + 'net GitHubMetaScope) \<Rightarrow> nat option \<Rightarrow> nat \<Rightarrow> GitHubMetaResponse
   \<Rightarrow> 'net State \<Rightarrow> GitHubMetaError + 'net State" where
  "prepare_response parse unix_now now response st =
     (case (case response of
              Modified body etag \<Rightarrow>
                if (case etag of Some e \<Rightarrow> \<not> valid_etag e | None \<Rightarrow> False) then Inl InvalidResponse
                else (case parse body of Inl e \<Rightarrow> Inl e | Inr scope \<Rightarrow> Inr (Some (scope, etag)))
            | NotModified \<Rightarrow> Inr None) of
        Inl e \<Rightarrow> Inl e
      | Inr parsed \<Rightarrow>
          (case unix_now of
             None \<Rightarrow> Inl Clock
           | Some secs \<Rightarrow>
               if st_revision st + 1 \<ge> 2 ^ 64 then Inl LimitExceeded
               else case (case parsed of
                            Some p \<Rightarrow> Inr p
                          | None \<Rightarrow>
                              (case st_snapshot st of
                                 Some previous \<Rightarrow>
                                   if snap_etag previous \<noteq> None
                                   then Inr (snap_scope previous, snap_etag previous)
                                   else Inl UnexpectedNotModified
                               | None \<Rightarrow> Inl UnexpectedNotModified)) of
                   Inl e \<Rightarrow> Inl e
                 | Inr (scope, etag) \<Rightarrow>
                     Inr \<lparr>st_snapshot = Some \<lparr>snap_scope = scope, validated_at = now,
                                              validated_unix_seconds = secs, snap_etag = etag\<rparr>,
                          st_revision = st_revision st + 1, st_last_attempt = Some secs,
                          st_last_error = None\<rparr>))"

definition describe :: "'net ipnet_ops \<Rightarrow> nat \<Rightarrow> 'net State \<Rightarrow> GitHubMetaStatus" where
  "describe ops now st =
     (let active = (case st_snapshot st of Some s \<Rightarrow> snapshot_active now s | None \<Rightarrow> False)
      in \<lparr>status_state =
            (case (st_snapshot st, active, st_last_error st \<noteq> None) of
               (None, _, False) \<Rightarrow> Pending
             | (None, _, True) \<Rightarrow> Unavailable
             | (Some _, False, _) \<Rightarrow> Expired
             | (Some _, True, False) \<Rightarrow> Fresh
             | (Some _, True, True) \<Rightarrow> Degraded),
          grants_active = active,
          status_revision = st_revision st,
          refresh_interval_seconds = META_REFRESH_INTERVAL div nanos 1,
          max_staleness_seconds = META_MAX_STALENESS div nanos 1,
          last_attempt_unix_seconds = st_last_attempt st,
          last_success_unix_seconds = map_option validated_unix_seconds (st_snapshot st),
          expires_unix_seconds =
            map_option (\<lambda>s. validated_unix_seconds s + META_MAX_STALENESS div nanos 1) (st_snapshot st),
          status_etag = Option.bind (st_snapshot st) snap_etag,
          status_last_error = st_last_error st,
          published_scope =
            map_option (\<lambda>s. \<lparr>pub_sha256 = scope_sha256 (snap_scope s),
                              pub_domains = scope_domains (snap_scope s),
                              pub_networks = map (ipnet_to_string ops) (scope_networks (snap_scope s))\<rparr>)
              (st_snapshot st)\<rparr>)"

text \<open>
  \<^verbatim>\<open>refresh_once\<close>.  \<open>fetch\<close> is the client under the request timeout (\<open>None\<close> when it expires),
  \<open>publish\<close> whether the audit sink records the status.  The result is the new state, the outcome
  and the statuses handed to the sink, in order.  \<open>lock_free\<close> tells whether the refresh mutex could be
  taken; holding it, a call is one step of the state.
\<close>

record meta_clock =
  unix_prepare :: "nat option"
  unix_error :: "nat option"
  clock_now :: nat

definition refresh_once ::
  "'net ipnet_ops \<Rightarrow> (bytes \<Rightarrow> GitHubMetaError + 'net GitHubMetaScope) \<Rightarrow> meta_clock \<Rightarrow> bool
   \<Rightarrow> (rstr option \<Rightarrow> (GitHubMetaError + GitHubMetaResponse) option) \<Rightarrow> (GitHubMetaStatus \<Rightarrow> bool)
   \<Rightarrow> 'net State \<Rightarrow> 'net State \<times> (GitHubMetaError + unit) \<times> GitHubMetaStatus list" where
  "refresh_once ops parse clock lock_free fetch publish st =
     (if \<not> lock_free then (st, Inl RefreshInProgress, [])
      else
        let response =
              (case fetch (Option.bind (st_snapshot st) snap_etag) of
                 None \<Rightarrow> Inl Timeout
               | Some (Inl e) \<Rightarrow> Inl e
               | Some (Inr r) \<Rightarrow> prepare_response parse (unix_prepare clock) (clock_now clock) r st);
            st1 =
              (case response of
                 Inl e \<Rightarrow>
                   (case unix_error clock of
                      Some secs \<Rightarrow> st\<lparr>st_last_attempt := Some secs, st_last_error := Some e\<rparr>
                    | None \<Rightarrow> st\<lparr>st_last_attempt := None, st_last_error := Some Clock\<rparr>)
               | Inr _ \<Rightarrow> st);
            status =
              (case response of
                 Inr candidate \<Rightarrow> describe ops (clock_now clock) candidate
               | Inl _ \<Rightarrow> describe ops (clock_now clock) st1)
        in if \<not> publish status then
             let st2 = (meta_clear st1)\<lparr>st_last_error := Some Publication\<rparr>
             in (st2, Inl Publication, [status, describe ops (clock_now clock) st2])
           else case response of
               Inl e \<Rightarrow> (st1, Inl e, [status])
             | Inr candidate \<Rightarrow> (candidate, Inr (), [status]))"

text \<open>The life of the state: refreshes in any environment, and the gateway's \<^verbatim>\<open>clear\<close>.\<close>

inductive meta_step :: "'net ipnet_ops \<Rightarrow> (bytes \<Rightarrow> GitHubMetaError + 'net GitHubMetaScope) \<Rightarrow> 'net State \<Rightarrow> 'net State \<Rightarrow> bool"
  for ops parse where
  refresh: "refresh_once ops parse clock lock_free fetch publish st = (st', result, log) \<Longrightarrow>
            meta_step ops parse st st'"
| clear: "meta_step ops parse st (meta_clear st)"

inductive_cases meta_stepE: "meta_step ops parse st st'"

subsection \<open>Every accepted scope is well-formed\<close>

text \<open>A pattern that \<^const>\<open>normalize_pattern\<close> can return and that is not an address literal.\<close>

definition published_pattern :: "rstr \<Rightarrow> bool" where
  "published_pattern p \<longleftrightarrow> (\<exists>raw. normalize_pattern raw = Inr p) \<and> parse_IpAddr p = None"

definition published_network :: "'net ipnet_ops \<Rightarrow> 'net \<Rightarrow> bool" where
  "published_network ops n \<longleftrightarrow> (\<exists>m. n = ipnet_trunc ops m \<and> ipnet_prefix_len ops m > 0)"

definition sorted_set :: "'a::linorder list \<Rightarrow> bool" where
  "sorted_set xs \<longleftrightarrow> sorted xs \<and> distinct xs"

lemma sorted_set_insert: "sorted_set xs \<Longrightarrow> sorted_set (insort_insert x xs)"
  by (simp add: sorted_set_def sorted_insort_insert distinct_insort_insert)

lemma length_insort_insert_le: "length (insort_insert x xs) \<le> Suc (length xs)"
  by (simp add: insort_insert_key_def)

definition networks_ok :: "('net::linorder) ipnet_ops \<Rightarrow> 'net list \<times> nat \<Rightarrow> bool" where
  "networks_ok ops acc \<longleftrightarrow>
     sorted_set (fst acc) \<and> length (fst acc) \<le> snd acc \<and> snd acc \<le> MAX_NETWORK_ENTRIES \<and>
     list_all (published_network ops) (fst acc)"

definition domains_ok :: "rstr list \<times> nat \<Rightarrow> bool" where
  "domains_ok acc \<longleftrightarrow>
     sorted_set (fst acc) \<and> length (fst acc) \<le> snd acc \<and> snd acc \<le> MAX_DOMAIN_ENTRIES \<and>
     list_all published_pattern (fst acc)"

lemma networks_ok_insert:
  assumes "networks_ok ops (ns, k)" "Suc k \<le> MAX_NETWORK_ENTRIES" "published_network ops n"
  shows "networks_ok ops (insort_insert n ns, Suc k)"
  using assms le_trans [OF length_insort_insert_le [of n ns]]
  by (auto simp: networks_ok_def sorted_set_insert list_all_iff set_insort_insert)

lemma domains_ok_insert:
  assumes "domains_ok (ds, k)" "Suc k \<le> MAX_DOMAIN_ENTRIES" "published_pattern d"
  shows "domains_ok (insort_insert d ds, Suc k)"
  using assms le_trans [OF length_insort_insert_le [of d ds]]
  by (auto simp: domains_ok_def sorted_set_insert list_all_iff set_insort_insert)

lemma published_network_trunc: "ipnet_prefix_len ops m > 0 \<Longrightarrow> published_network ops (ipnet_trunc ops m)"
  by (auto simp: published_network_def)

lemma published_pattern_normalized:
  "normalize_pattern raw = Inr p \<Longrightarrow> parse_IpAddr p = None \<Longrightarrow> published_pattern p"
  by (auto simp: published_pattern_def)

lemma add_networks_ok:
  "add_networks ops ls acc = Inr acc' \<Longrightarrow> networks_ok ops acc \<Longrightarrow> networks_ok ops acc'"
  by (induction ops ls acc rule: add_networks.induct)
     (auto split: if_splits option.splits simp: not_less networks_ok_insert published_network_trunc)

lemma add_domains_ok: "add_domains ls acc = Inr acc' \<Longrightarrow> domains_ok acc \<Longrightarrow> domains_ok acc'"
  by (induction ls acc rule: add_domains.induct)
     (auto split: if_splits sum.splits simp: not_less domains_ok_insert published_pattern_normalized)

lemma scan_network_fields_ok:
  "scan_network_fields ops fs acc = Inr acc' \<Longrightarrow> networks_ok ops acc \<Longrightarrow> networks_ok ops acc'"
  by (induction ops fs acc rule: scan_network_fields.induct)
     (auto split: if_splits sum.splits dest: add_networks_ok)

lemma add_domains_value_ok:
  "add_domains_value v acc = Inr acc' \<Longrightarrow> domains_ok acc \<Longrightarrow> domains_ok acc'"
  by (auto simp: add_domains_value_def split: sum.splits dest: add_domains_ok)

lemma scan_nested_ok: "scan_nested f fs acc = Inr acc' \<Longrightarrow> domains_ok acc \<Longrightarrow> domains_ok acc'"
  by (induction f fs acc rule: scan_nested.induct)
     (auto split: if_splits sum.splits dest: add_domains_value_ok simp del: str_simps)

lemma scan_domain_fields_ok:
  "scan_domain_fields fs acc = Inr acc' \<Longrightarrow> domains_ok acc \<Longrightarrow> domains_ok acc'"
  by (induction fs acc rule: scan_domain_fields.induct)
     (auto split: if_splits sum.splits Json.splits dest: add_domains_value_ok scan_nested_ok simp del: str_simps)

lemma GitHubMetaScope_parse_ok:
  assumes "GitHubMetaScope_parse ops from_slice sha256_hex bs = Inr scope"
  shows "\<exists>m n. networks_ok ops (scope_networks scope, m) \<and> domains_ok (scope_domains scope, n)
               \<and> scope_networks scope \<noteq> [] \<and> scope_domains scope \<noteq> [] \<and> length bs \<le> MAX_META_BYTES"
proof -
  have init: "networks_ok ops ([], 0)" "domains_ok ([], 0)"
    by (simp_all add: networks_ok_def domains_ok_def sorted_set_def)
  from assms show ?thesis
    by (auto simp: GitHubMetaScope_parse_def split: if_splits option.splits Json.splits sum.splits
             dest!: scan_network_fields_ok [OF _ init(1)] scan_domain_fields_ok [OF _ init(2)]
             simp del: str_simps) (blast+)
qed

subsection \<open>Properties of the scope and of its state\<close>

context ipnet_laws
begin

lemma published_network_proper:
  "published_network ops n \<Longrightarrow> ipnet_prefix_len ops n > 0 \<and> \<not> ipnet_contains ops n (addr_flip (addr n))"
  using proper_block trunc_len unfolding published_network_def by metis

end

text \<open>
  C30: a scope is only ever built from a document within the byte limit, and grants no more than
  well-formed destinations: both lists are non-empty, sorted without duplicates and within their
  entry limits, every name is a normalized domain pattern and no address literal, and every network
  has a non-zero prefix and leaves out an address of its own family, so none is unrestricted.
\<close>

theorem GitHubMetaScope_parse_wellformed:
  assumes "ipnet_laws ops addr" and "GitHubMetaScope_parse ops from_slice sha256_hex bs = Inr scope"
  shows "length bs \<le> MAX_META_BYTES \<and>
         scope_networks scope \<noteq> [] \<and> length (scope_networks scope) \<le> MAX_NETWORK_ENTRIES \<and>
         sorted_set (scope_networks scope) \<and>
         list_all (\<lambda>n. ipnet_prefix_len ops n > 0 \<and> \<not> ipnet_contains ops n (addr_flip (addr n)))
           (scope_networks scope) \<and>
         scope_domains scope \<noteq> [] \<and> length (scope_domains scope) \<le> MAX_DOMAIN_ENTRIES \<and>
         sorted_set (scope_domains scope) \<and> list_all published_pattern (scope_domains scope)"
  using GitHubMetaScope_parse_ok [OF assms(2)] ipnet_laws.published_network_proper [OF assms(1)]
  by (fastforce simp: networks_ok_def domains_ok_def list_all_iff)

definition example_meta_document :: Json where
  "example_meta_document = JObject
     [(str ''api'', JArray [JString (str ''192.30.252.0/22'')]),
      (str ''domains'', JObject [(str ''website'', JArray [JString (str ''*.github.com''), JString (str ''github.com'')])]),
      (str ''git'', JArray [JString (str ''192.30.252.0/22'')]),
      (str ''verifiable_password_authentication'', JBool False),
      (str ''web'', JArray [JString (str ''185.199.108.153''), JString (str ''2a0a:a440::/29'')])]"

definition example_scope :: "(IpAddr \<times> nat) GitHubMetaScope" where
  "example_scope =
     \<lparr>scope_domains = [str ''*.github.com'', str ''github.com''],
      scope_networks = [(V4 0xb9c76c99, 32), (V4 0xc01efc00, 22), (V6 0x2a0aa440000000000000000000000000, 29)],
      scope_sha256 = []\<rparr>"

lemma example_literals:
  "parse_ip_or_cidr cidr_ops (str ''192.30.252.0/22'') = Some (V4 0xc01efc00, 22)"
  "parse_ip_or_cidr cidr_ops (str ''185.199.108.153'') = Some (V4 0xb9c76c99, 32)"
  "parse_ip_or_cidr cidr_ops (str ''2a0a:a440::/29'') = Some (V6 0x2a0aa440000000000000000000000000, 29)"
  by code_simp+

lemma example_patterns:
  "normalize_pattern (str ''*.github.com'') = Inr (str ''*.github.com'')"
  "normalize_pattern (str ''github.com'') = Inr (str ''github.com'')"
  "parse_IpAddr (str ''*.github.com'') = None"
  "parse_IpAddr (str ''github.com'') = None"
  by code_simp+

lemma example_entries:
  "str ''api'' \<in> set NETWORK_FIELDS" "str ''git'' \<in> set NETWORK_FIELDS" "str ''web'' \<in> set NETWORK_FIELDS"
  "str ''domains'' \<notin> set NETWORK_FIELDS" "str ''domains'' \<in> set IGNORED_FIELDS"
  "str ''verifiable_password_authentication'' \<notin> set NETWORK_FIELDS"
  "str ''verifiable_password_authentication'' \<in> set IGNORED_FIELDS"
  "str ''website'' \<in> set DOMAIN_FIELDS"
  by code_simp+

lemma cidr_prefix_len [simp]: "ipnet_prefix_len cidr_ops = snd"
  by (simp add: cidr_ops_def)

lemma example_trunc:
  "ipnet_trunc cidr_ops (V4 0xc01efc00, 22) = (V4 0xc01efc00, 22)"
  "ipnet_trunc cidr_ops (V4 0xb9c76c99, 32) = (V4 0xb9c76c99, 32)"
  "ipnet_trunc cidr_ops (V6 0x2a0aa440000000000000000000000000, 29) = (V6 0x2a0aa440000000000000000000000000, 29)"
  by (simp_all add: cidr_ops_def)

lemma example_networks:
  "scan_network_fields cidr_ops
     [(str ''api'', JArray [JString (str ''192.30.252.0/22'')]),
      (str ''domains'', d),
      (str ''git'', JArray [JString (str ''192.30.252.0/22'')]),
      (str ''verifiable_password_authentication'', JBool False),
      (str ''web'', JArray [JString (str ''185.199.108.153''), JString (str ''2a0a:a440::/29'')])] ([], 0)
   = Inr (scope_networks example_scope, 4)"
  by (simp add: example_entries example_literals example_trunc meta_strings_def MAX_NETWORK_ENTRIES_def
        insort_insert_key_def less_IpAddr_def example_scope_def del: str_simps)

lemma example_domains:
  "scan_domain_fields
     [(str ''website'', JArray [JString (str ''*.github.com''), JString (str ''github.com'')])] ([], 0)
   = Inr (scope_domains example_scope, 2)"
proof -
  have "insort_insert (str ''github.com'') [str ''*.github.com''] = [str ''*.github.com'', str ''github.com'']"
    by code_simp
  moreover have "insort_insert x [] = [x]" for x :: rstr
    by (simp add: insort_insert_key_def)
  ultimately show ?thesis
    by (simp add: example_entries example_patterns meta_strings_def add_domains_value_def
          MAX_NETWORK_ENTRIES_def MAX_DOMAIN_ENTRIES_def example_scope_def del: str_simps)
qed

lemma example_lookup:
  "str ''api'' \<noteq> str ''verifiable_password_authentication''"
  "str ''domains'' \<noteq> str ''verifiable_password_authentication''"
  "str ''api'' \<noteq> str ''web''" "str ''domains'' \<noteq> str ''web''" "str ''git'' \<noteq> str ''web''"
  "str ''verifiable_password_authentication'' \<noteq> str ''web''"
  "str ''api'' \<noteq> str ''git''" "str ''domains'' \<noteq> str ''git''" "str ''api'' \<noteq> str ''domains''"
  "str ''verifiable_password_authentication'' \<noteq> str ''git''"
  by code_simp+

lemma example_scope_parsed:
  "GitHubMetaScope_parse cidr_ops (\<lambda>_. Some example_meta_document) (\<lambda>_. []) [] = Inr example_scope"
  unfolding GitHubMetaScope_parse_def example_meta_document_def
  by (simp add: example_networks example_domains example_lookup example_lookup [symmetric] core_field_missing_def
        del: str_simps scan_network_fields.simps scan_domain_fields.simps)
     (simp add: example_scope_def del: str_simps)

theorem GitHubMetaScope_parse_wellformed_witness:
  "GitHubMetaScope_parse cidr_ops (\<lambda>_. Some example_meta_document) (\<lambda>_. []) [] = Inr example_scope \<and>
   list_all published_pattern (scope_domains example_scope)"
  using GitHubMetaScope_parse_wellformed [OF cidr.ipnet_laws_axioms example_scope_parsed] example_scope_parsed
  by blast

text \<open>
  The order between states along a life: the revision grows whenever a scope is installed, and while
  it stays the same the snapshot is kept or dropped.
\<close>

definition meta_later :: "'net State \<Rightarrow> 'net State \<Rightarrow> bool" where
  "meta_later st st' \<longleftrightarrow>
     st_revision st < st_revision st' \<or>
     st_revision st' = st_revision st \<and> (st_snapshot st' = st_snapshot st \<or> st_snapshot st' = None)"

lemma prepare_response_Inr:
  assumes "prepare_response parse unix_now now r st = Inr st'"
  shows "st_revision st' = st_revision st + 1 \<and> st_revision st' < 2 ^ 64 \<and> st_last_error st' = None \<and>
         (\<exists>s. st_snapshot st' = Some s \<and> validated_at s = now \<and>
           (case r of Modified body etag \<Rightarrow> parse body = Inr (snap_scope s)
                    | NotModified \<Rightarrow> (\<exists>p. st_snapshot st = Some p \<and> snap_etag p \<noteq> None \<and> snap_scope s = snap_scope p)))"
  using assms
  by (auto simp: prepare_response_def split: GitHubMetaResponse.splits sum.splits option.splits if_splits)

lemma refresh_once_later:
  "refresh_once ops parse clock lock_free fetch publish st = (st', result, log) \<Longrightarrow> meta_later st st'"
  by (auto simp: refresh_once_def meta_later_def meta_clear_def Let_def
           split: if_splits option.splits sum.splits dest!: prepare_response_Inr)

lemma meta_step_later: "meta_step ops parse st st' \<Longrightarrow> meta_later st st'"
  by (erule meta_stepE) (auto dest: refresh_once_later simp: meta_later_def meta_clear_def)

lemma meta_later_trans: "meta_later a b \<Longrightarrow> meta_later b c \<Longrightarrow> meta_later a c"
  by (auto simp: meta_later_def)

lemma meta_life_later: "(meta_step ops parse)\<^sup>*\<^sup>* st st' \<Longrightarrow> meta_later st st'"
  by (induction rule: rtranclp_induct) (auto simp: meta_later_def dest!: meta_step_later)

lemma view_later:
  assumes "meta_later st st'" "fst (view now st) = fst (view now' st')" "fst (view now st) \<noteq> 0"
  shows "snd (view now st) = snd (view now' st')"
  using assms by (auto simp: meta_later_def view_def split: option.splits if_splits)

lemma State_default_view: "meta_later State_default st \<Longrightarrow> fst (view now st) = 0 \<Longrightarrow> view now st = (0, None)"
  by (auto simp: meta_later_def State_default_def view_def split: option.splits if_splits)

lemma view_identified:
  assumes "(meta_step ops parse)\<^sup>*\<^sup>* State_default st" and "(meta_step ops parse)\<^sup>*\<^sup>* st st'"
    and "fst (view now st) = fst (view now' st')"
  shows "view now st = view now' st'"
proof (cases "fst (view now st) = 0")
  case True
  moreover have "meta_later State_default st'"
    using assms(1,2) by (auto intro: meta_life_later rtranclp_trans)
  ultimately show ?thesis
    using assms State_default_view [OF meta_life_later [OF assms(1)]] State_default_view by metis
next
  case False
  then show ?thesis
    using view_later [OF meta_life_later [OF assms(2)] assms(3)] assms(3) by (simp add: prod_eq_iff)
qed

lemma example_install:
  "prepare_response (\<lambda>_. Inr example_scope) (Some 7) 5 (Modified [] None) State_default
   = Inr \<lparr>st_snapshot = Some \<lparr>snap_scope = example_scope, validated_at = 5, validated_unix_seconds = 7,
                             snap_etag = None\<rparr>,
          st_revision = 1, st_last_attempt = Some 7, st_last_error = None\<rparr>"
  by (simp add: prepare_response_def State_default_def)

text \<open>A life of one refresh.\<close>

definition example_state :: "(IpAddr \<times> nat) State" where
  "example_state = fst (refresh_once cidr_ops (\<lambda>_. Inr example_scope)
     \<lparr>unix_prepare = Some 7, unix_error = Some 7, clock_now = 5\<rparr> True
     (\<lambda>_. Some (Inr (Modified [] None))) (\<lambda>_. True) State_default)"

lemma example_state_eq:
  "refresh_once cidr_ops (\<lambda>_. Inr example_scope)
     \<lparr>unix_prepare = Some 7, unix_error = Some 7, clock_now = 5\<rparr> True
     (\<lambda>_. Some (Inr (Modified [] None))) (\<lambda>_. True) State_default
   = (example_state, Inr (), [describe cidr_ops 5 example_state])"
  "st_snapshot example_state = Some \<lparr>snap_scope = example_scope, validated_at = 5,
                                      validated_unix_seconds = 7, snap_etag = None\<rparr>"
  "st_revision example_state = 1"
  by (simp_all add: example_state_def refresh_once_def example_install Let_def)

lemma example_state_reached: "(meta_step cidr_ops (\<lambda>_. Inr example_scope))\<^sup>*\<^sup>* State_default example_state"
  by (rule r_into_rtranclp) (rule meta_step.refresh [OF example_state_eq(1)])

lemma example_views: "view 5 example_state = (1, Some example_scope)" "view 6 example_state = (1, Some example_scope)"
  by (simp_all add: view_def example_state_eq snapshot_active_def META_MAX_STALENESS_def)

text \<open>
  a refresh that reports success has installed, under the next revision, the scope it parsed or
  revalidated, after the audit sink recorded the status of exactly that state; a refresh whose status
  the sink rejects leaves no scope in force at any time; any other failure keeps snapshot and
  revision as they were.
\<close>

theorem refresh_once_outcome:
  assumes "refresh_once ops parse clock lock_free fetch publish st = (st', result, log)"
  shows "(result = Inr () \<longrightarrow>
            lock_free \<and> st_revision st' = st_revision st + 1 \<and>
            log = [describe ops (clock_now clock) st'] \<and> publish (hd log) \<and>
            (\<exists>s. st_snapshot st' = Some s \<and> validated_at s = clock_now clock \<and>
              ((\<exists>body. parse body = Inr (snap_scope s)) \<or>
               (\<exists>p. st_snapshot st = Some p \<and> snap_scope s = snap_scope p)))) \<and>
         (log \<noteq> [] \<and> \<not> publish (hd log) \<longrightarrow>
            result = Inl Publication \<and> (\<forall>now. view now st' = (0, None))) \<and>
         (result \<noteq> Inr () \<and> (log = [] \<or> publish (hd log)) \<longrightarrow>
            st_snapshot st' = st_snapshot st \<and> st_revision st' = st_revision st)"
  using assms
  by (auto simp: refresh_once_def Let_def meta_clear_def view_def
           split: if_splits option.splits sum.splits GitHubMetaResponse.splits
           dest!: prepare_response_Inr)

theorem refresh_once_outcome_witness:
  "st_revision example_state = st_revision (State_default :: (IpAddr \<times> nat) State) + 1 \<and>
   (\<exists>s. st_snapshot example_state = Some s \<and> validated_at s = 5)"
  using refresh_once_outcome [OF example_state_eq(1)] by auto

end
