(* ===== verification/Egress_Policy.thy ===== *)
theory Egress_Policy
  imports Policy_Types Github_Meta
begin

section \<open>Egress decisions (crates/sendbox-egress/src/policy.rs)\<close>

text \<open>
  The compiler from a network policy to an engine, and the evaluation of hostname and direct-IP
  connections against a snapshot of the engine.  The engine's interior GitHub Meta state is passed
  beside it, with the time at which it is viewed.  The text of a decision's reason is a constructor of
  \<open>Reason\<close> carrying the values that the source formats into it.
\<close>

definition DEFAULT_MAX_CONNECTIONS :: int where "DEFAULT_MAX_CONNECTIONS = 100"
definition MAX_CONNECTIONS_CEILING :: int where "MAX_CONNECTIONS_CEILING = 65535"

datatype PolicyError =
  InvalidDomainPattern string DomainError
| InvalidNetworkLiteral string rstr
| NonPositiveMaxConnections
| MaxConnectionsTooLarge int int
| InvalidDnsControl string string

definition resolve_max_connections :: "int option \<Rightarrow> PolicyError + int" where
  "resolve_max_connections max_connections =
     (case max_connections of
        None \<Rightarrow> Inr DEFAULT_MAX_CONNECTIONS
      | Some value \<Rightarrow>
          if value \<le> 0 then Inl NonPositiveMaxConnections
          else if value < 2 ^ 32 \<and> value \<le> MAX_CONNECTIONS_CEILING then Inr value
          else Inl (MaxConnectionsTooLarge value MAX_CONNECTIONS_CEILING))"

definition validate_dns_controls :: "DnsPolicy \<Rightarrow> PolicyError + unit" where
  "validate_dns_controls dns =
     (if max_ttl_secs dns = 0 then
        Inl (InvalidDnsControl ''max_ttl_secs'' ''must be greater than zero'')
      else if max_qname_octets dns < 1 \<or> max_qname_octets dns > 253 then
        Inl (InvalidDnsControl ''max_qname_octets'' ''must be between 1 and 253'')
      else if max_labels dns < 1 then
        Inl (InvalidDnsControl ''max_labels'' ''must be greater than zero'')
      else if max_label_octets dns < 1 \<or> max_label_octets dns > 63 then
        Inl (InvalidDnsControl ''max_label_octets'' ''must be between 1 and 63'')
      else if max_response_records dns < 1 then
        Inl (InvalidDnsControl ''max_response_records'' ''must be greater than zero'')
      else if allowed_record_types dns = [] then
        Inl (InvalidDnsControl ''allowed_record_types'' ''must list at least one record type'')
      else if window_secs (budget dns) = 0 then
        Inl (InvalidDnsControl ''budget.window_secs'' ''must be greater than zero'')
      else if max_queries (budget dns) < 1 then
        Inl (InvalidDnsControl ''budget.max_queries'' ''must be greater than zero'')
      else if max_query_octets (budget dns) < 1 then
        Inl (InvalidDnsControl ''budget.max_query_octets'' ''must be greater than zero'')
      else if max_unique_names (budget dns) < 1 then
        Inl (InvalidDnsControl ''budget.max_unique_names'' ''must be greater than zero'')
      else if max_dynamic_labels (budget dns) < 1 then
        Inl (InvalidDnsControl ''budget.max_dynamic_labels'' ''must be greater than zero'')
      else Inr ())"

datatype Reason =
  BlockedPattern rstr rstr
| AllowedPattern rstr rstr
| MetaPattern rstr rstr
| DomainDefaultAllow rstr
| DomainDefaultDeny rstr
| NotRestricted IpAddr
| UnspecifiedAddress IpAddr
| BlockedNetwork IpAddr
| RestrictedClass IpAddr AddressClass
| PortDenied u16 Protocol
| DomainInvalid DomainError
| AllowedNetwork IpAddr
| MetaNetwork IpAddr
| IpDefaultAllow IpAddr
| IpDefaultDeny IpAddr

record Decision =
  allowed :: bool
  reason :: Reason
  address_class :: AddressClass

abbreviation Decision_allow :: "Reason \<Rightarrow> AddressClass \<Rightarrow> Decision" where
  "Decision_allow r c \<equiv> \<lparr>allowed = True, reason = r, address_class = c\<rparr>"

abbreviation Decision_deny :: "Reason \<Rightarrow> AddressClass \<Rightarrow> Decision" where
  "Decision_deny r c \<equiv> \<lparr>allowed = False, reason = r, address_class = c\<rparr>"

record DomainDecision =
  dd_allowed :: bool
  dd_reason :: Reason

text \<open>\<open>pe_github_meta\<close> tells whether the engine owns a GitHub Meta state.\<close>

record 'net PolicyEngine =
  pe_default_action :: Action
  pe_allow_dns :: bool
  pe_allowed_domains :: "rstr list"
  pe_blocked_domains :: "rstr list"
  pe_allowed_networks :: "'net list"
  pe_blocked_networks :: "'net list"
  pe_allowed_ports :: "PortRule list"
  pe_max_concurrent_connections :: int
  pe_dns :: DnsPolicy
  pe_github_meta :: bool

record 'net PolicySnapshot =
  ps_engine :: "'net PolicyEngine"
  ps_github_scope :: "'net GitHubMetaScope option"
  ps_revision :: nat

subsection \<open>Compilation\<close>

definition normalize_patterns :: "rstr list \<Rightarrow> string \<Rightarrow> PolicyError + rstr list" where
  "normalize_patterns raw field =
     try_map (\<lambda>p. case normalize_pattern p of
                     Inl source \<Rightarrow> Inl (InvalidDomainPattern field source)
                   | Inr n \<Rightarrow> Inr n) raw"

definition parse_networks :: "'net ipnet_ops \<Rightarrow> rstr list \<Rightarrow> string \<Rightarrow> PolicyError + 'net list" where
  "parse_networks ops raw field =
     try_map (\<lambda>literal. case parse_ip_or_cidr ops literal of
                           None \<Rightarrow> Inl (InvalidNetworkLiteral field literal)
                         | Some net \<Rightarrow> Inr net) raw"

definition PolicyEngine_compile :: "'net ipnet_ops \<Rightarrow> NetworkPolicy \<Rightarrow> PolicyError + 'net PolicyEngine" where
  "PolicyEngine_compile ops policy =
     (case normalize_patterns (np_allowed_domains policy) ''allowed_domains'' of
        Inl e \<Rightarrow> Inl e
      | Inr allowed_domains \<Rightarrow>
     (case normalize_patterns (np_blocked_domains policy) ''blocked_domains'' of
        Inl e \<Rightarrow> Inl e
      | Inr blocked_domains \<Rightarrow>
     (case parse_networks ops (np_allowed_networks policy) ''allowed_networks'' of
        Inl e \<Rightarrow> Inl e
      | Inr allowed_networks \<Rightarrow>
     (case parse_networks ops (np_blocked_networks policy) ''blocked_networks'' of
        Inl e \<Rightarrow> Inl e
      | Inr blocked_networks \<Rightarrow>
     (case validate_dns_controls (np_dns policy) of
        Inl e \<Rightarrow> Inl e
      | Inr _ \<Rightarrow>
     (case resolve_max_connections (np_max_connections policy) of
        Inl e \<Rightarrow> Inl e
      | Inr max_concurrent_connections \<Rightarrow>
          Inr \<lparr>pe_default_action = np_default_action policy,
               pe_allow_dns = np_allow_dns policy,
               pe_allowed_domains = allowed_domains,
               pe_blocked_domains = blocked_domains,
               pe_allowed_networks = allowed_networks,
               pe_blocked_networks = blocked_networks,
               pe_allowed_ports = np_allowed_ports policy,
               pe_max_concurrent_connections = max_concurrent_connections,
               pe_dns = np_dns policy,
               pe_github_meta =
                 (list_ex (\<lambda>name. name = str ''github.com'') allowed_domains \<and>
                  \<not> list_ex (\<lambda>p. pattern_matches p (str ''github.com'')) blocked_domains)\<rparr>))))))"

definition cap_ttl :: "'net PolicyEngine \<Rightarrow> nat \<Rightarrow> nat" where
  "cap_ttl e ttl_secs = min ttl_secs (max_ttl_secs (pe_dns e))"

definition github_meta_name_permitted :: "'net PolicyEngine \<Rightarrow> rstr \<Rightarrow> bool" where
  "github_meta_name_permitted e name \<longleftrightarrow>
     pe_github_meta e \<and> pe_allow_dns e \<and>
     \<not> list_ex (\<lambda>p. pattern_matches p name) (pe_blocked_domains e) \<and>
     (pe_allowed_ports e = [] \<or>
      list_ex (\<lambda>rule. pr_protocol rule = Tcp \<and> pr_port rule = 443) (pe_allowed_ports e))"

definition snapshot :: "'net PolicyEngine \<Rightarrow> 'net State \<Rightarrow> nat \<Rightarrow> 'net PolicySnapshot" where
  "snapshot e meta now =
     (let (revision, scope) = (if pe_github_meta e then view now meta else (0, None))
      in \<lparr>ps_engine = e, ps_github_scope = scope, ps_revision = revision\<rparr>)"

definition is_current :: "'net PolicySnapshot \<Rightarrow> 'net State \<Rightarrow> nat \<Rightarrow> bool" where
  "is_current s meta now \<longleftrightarrow> ps_revision (snapshot (ps_engine s) meta now) = ps_revision s"

subsection \<open>Evaluation\<close>

definition evaluate_domain :: "'net PolicySnapshot \<Rightarrow> rstr \<Rightarrow> DomainDecision" where
  "evaluate_domain s normalized =
     (case find (\<lambda>p. pattern_matches p normalized) (pe_blocked_domains (ps_engine s)) of
        Some pattern \<Rightarrow> \<lparr>dd_allowed = False, dd_reason = BlockedPattern normalized pattern\<rparr>
      | None \<Rightarrow>
     (case find (\<lambda>p. pattern_matches p normalized) (pe_allowed_domains (ps_engine s)) of
        Some pattern \<Rightarrow> \<lparr>dd_allowed = True, dd_reason = AllowedPattern normalized pattern\<rparr>
      | None \<Rightarrow>
     (case Option.bind (ps_github_scope s)
             (\<lambda>scope. find (\<lambda>p. pattern_matches p normalized) (scope_domains scope)) of
        Some pattern \<Rightarrow> \<lparr>dd_allowed = True, dd_reason = MetaPattern normalized pattern\<rparr>
      | None \<Rightarrow>
     (case pe_default_action (ps_engine s) of
        Allow \<Rightarrow> \<lparr>dd_allowed = True, dd_reason = DomainDefaultAllow normalized\<rparr>
      | Deny \<Rightarrow> \<lparr>dd_allowed = False, dd_reason = DomainDefaultDeny normalized\<rparr>))))"

definition evaluate_domain_name :: "'net PolicySnapshot \<Rightarrow> rstr \<Rightarrow> DomainError + bool" where
  "evaluate_domain_name s name =
     (case normalize_domain name of
        Inl e \<Rightarrow> Inl e
      | Inr normalized \<Rightarrow> Inr (dd_allowed (evaluate_domain s normalized)))"

definition network_blocked :: "'net ipnet_ops \<Rightarrow> 'net PolicySnapshot \<Rightarrow> IpAddr \<Rightarrow> bool" where
  "network_blocked ops s ip = list_ex (\<lambda>n. ipnet_contains ops n ip) (pe_blocked_networks (ps_engine s))"

definition network_allowed :: "'net ipnet_ops \<Rightarrow> 'net PolicySnapshot \<Rightarrow> IpAddr \<Rightarrow> bool" where
  "network_allowed ops s ip = list_ex (\<lambda>n. ipnet_contains ops n ip) (pe_allowed_networks (ps_engine s))"

definition port_allowed :: "'net PolicySnapshot \<Rightarrow> Protocol \<Rightarrow> u16 \<Rightarrow> bool" where
  "port_allowed s protocol port \<longleftrightarrow>
     pe_allowed_ports (ps_engine s) = [] \<or>
     list_ex (\<lambda>rule. pr_protocol rule = protocol \<and> pr_port rule = port) (pe_allowed_ports (ps_engine s))"

definition check_address ::
  "'net ipnet_ops \<Rightarrow> 'net PolicySnapshot \<Rightarrow> IpAddr \<Rightarrow> Decision + IpAddr \<times> AddressClass" where
  "check_address ops s ip0 =
     (let ip = canonicalize ip0; class = classify ip
      in if class = Unspecified then Inl (Decision_deny (UnspecifiedAddress ip) class)
         else if network_blocked ops s ip then Inl (Decision_deny (BlockedNetwork ip) class)
         else if is_restricted class \<and> \<not> network_allowed ops s ip
         then Inl (Decision_deny (RestrictedClass ip class) class)
         else Inr (ip, class))"

definition address_permitted :: "'net ipnet_ops \<Rightarrow> 'net PolicySnapshot \<Rightarrow> IpAddr \<Rightarrow> Decision" where
  "address_permitted ops s ip =
     (case check_address ops s ip of
        Inr (canonical, class) \<Rightarrow> Decision_allow (NotRestricted canonical) class
      | Inl decision \<Rightarrow> decision)"

definition decide_hostname ::
  "'net ipnet_ops \<Rightarrow> 'net PolicySnapshot \<Rightarrow> rstr \<Rightarrow> IpAddr \<Rightarrow> u16 \<Rightarrow> Protocol \<Rightarrow> Decision" where
  "decide_hostname ops s name ip port protocol =
     (case check_address ops s ip of
        Inl decision \<Rightarrow> decision
      | Inr (_, class) \<Rightarrow>
          if \<not> port_allowed s protocol port then Decision_deny (PortDenied port protocol) class
          else (case normalize_domain name of
                  Inl err \<Rightarrow> Decision_deny (DomainInvalid err) class
                | Inr normalized \<Rightarrow>
                    (let d = evaluate_domain s normalized
                     in if dd_allowed d then Decision_allow (dd_reason d) class
                        else Decision_deny (dd_reason d) class)))"

definition decide_direct_ip ::
  "'net ipnet_ops \<Rightarrow> 'net PolicySnapshot \<Rightarrow> IpAddr \<Rightarrow> u16 \<Rightarrow> Protocol \<Rightarrow> Decision" where
  "decide_direct_ip ops s ip0 port protocol =
     (case check_address ops s ip0 of
        Inl decision \<Rightarrow> decision
      | Inr (ip, class) \<Rightarrow>
          if \<not> port_allowed s protocol port then Decision_deny (PortDenied port protocol) class
          else if network_allowed ops s ip then Decision_allow (AllowedNetwork ip) class
          else if (case ps_github_scope s of
                     Some scope \<Rightarrow> list_ex (\<lambda>n. ipnet_contains ops n ip) (scope_networks scope)
                   | None \<Rightarrow> False)
          then Decision_allow (MetaNetwork ip) class
          else (case pe_default_action (ps_engine s) of
                  Allow \<Rightarrow> Decision_allow (IpDefaultAllow ip) class
                | Deny \<Rightarrow> Decision_deny (IpDefaultDeny ip) class))"

subsection \<open>What a decision depends on\<close>

text \<open>
  The specification: an address is clear when it is a possible destination, is not in a blocked
  network, and is either of the global class or explicitly granted; a name is granted when no
  blocked pattern matches and a configured pattern, a published pattern or the default allows it.
\<close>

definition address_clear :: "'net ipnet_ops \<Rightarrow> 'net PolicySnapshot \<Rightarrow> IpAddr \<Rightarrow> bool" where
  "address_clear ops s ip \<longleftrightarrow>
     classify ip \<noteq> Unspecified \<and>
     \<not> (\<exists>n \<in> set (pe_blocked_networks (ps_engine s)). ipnet_contains ops n (canonicalize ip)) \<and>
     (classify ip = Global \<or>
      (\<exists>n \<in> set (pe_allowed_networks (ps_engine s)). ipnet_contains ops n (canonicalize ip)))"

definition name_granted :: "'net PolicySnapshot \<Rightarrow> rstr \<Rightarrow> bool" where
  "name_granted s n \<longleftrightarrow>
     \<not> (\<exists>p \<in> set (pe_blocked_domains (ps_engine s)). pattern_matches p n) \<and>
     ((\<exists>p \<in> set (pe_allowed_domains (ps_engine s)). pattern_matches p n) \<or>
      (\<exists>scope. ps_github_scope s = Some scope \<and> (\<exists>p \<in> set (scope_domains scope). pattern_matches p n)) \<or>
      pe_default_action (ps_engine s) = Allow)"

definition network_granted :: "'net ipnet_ops \<Rightarrow> 'net PolicySnapshot \<Rightarrow> IpAddr \<Rightarrow> bool" where
  "network_granted ops s ip \<longleftrightarrow>
     (\<exists>n \<in> set (pe_allowed_networks (ps_engine s)). ipnet_contains ops n (canonicalize ip)) \<or>
     (\<exists>scope. ps_github_scope s = Some scope \<and>
        (\<exists>n \<in> set (scope_networks scope). ipnet_contains ops n (canonicalize ip))) \<or>
     pe_default_action (ps_engine s) = Allow"

lemma network_lists:
  "network_blocked ops s ip \<longleftrightarrow> (\<exists>n \<in> set (pe_blocked_networks (ps_engine s)). ipnet_contains ops n ip)"
  "network_allowed ops s ip \<longleftrightarrow> (\<exists>n \<in> set (pe_allowed_networks (ps_engine s)). ipnet_contains ops n ip)"
  by (simp_all add: network_blocked_def network_allowed_def list_ex_iff)

lemma check_address_Inr:
  "check_address ops s ip = Inr r \<longleftrightarrow> address_clear ops s ip \<and> r = (canonicalize ip, classify ip)"
  by (auto simp: check_address_def address_clear_def network_lists Let_def)

lemma check_address_Inl: "check_address ops s ip = Inl d \<Longrightarrow> \<not> allowed d \<and> \<not> address_clear ops s ip"
  by (auto simp: check_address_def address_clear_def network_lists Let_def split: if_splits)

lemma check_address_cases:
  obtains d where "check_address ops s ip = Inl d" "\<not> allowed d" "\<not> address_clear ops s ip"
  | "check_address ops s ip = Inr (canonicalize ip, classify ip)" "address_clear ops s ip"
  by (cases "check_address ops s ip") (auto dest: check_address_Inl simp: check_address_Inr)

lemma evaluate_domain_allowed: "dd_allowed (evaluate_domain s n) \<longleftrightarrow> name_granted s n"
  unfolding evaluate_domain_def name_granted_def
  by (cases "ps_github_scope s"; cases "pe_default_action (ps_engine s)")
     (auto simp: find_None_iff split: option.splits dest!: find_Some_D)

lemma domain_rules_unused:
  fixes s :: "'net PolicySnapshot" and ad bd :: "rstr list"
  defines "s' \<equiv> s\<lparr>ps_engine := (ps_engine s)\<lparr>pe_allowed_domains := ad, pe_blocked_domains := bd\<rparr>\<rparr>"
  shows "network_blocked ops s' = network_blocked ops s" "network_allowed ops s' = network_allowed ops s"
    "port_allowed s' = port_allowed s" "ps_github_scope s' = ps_github_scope s"
    "pe_default_action (ps_engine s') = pe_default_action (ps_engine s)"
  by (simp_all add: s'_def fun_eq_iff network_blocked_def network_allowed_def port_allowed_def)

lemma check_address_mapped: "check_address ops s (V6 (to_ipv6_mapped a)) = check_address ops s (V4 a)"
  by (simp add: check_address_def to_ipv4_mapped_to_ipv6_mapped)

lemma decide_hostname_allowed:
  "allowed (decide_hostname ops s name ip port protocol) \<longleftrightarrow>
     address_clear ops s ip \<and> port_allowed s protocol port \<and>
     (\<exists>n. normalize_domain name = Inr n \<and> name_granted s n)"
  by (cases ops s ip rule: check_address_cases)
     (auto simp: decide_hostname_def Let_def evaluate_domain_allowed split: sum.splits)

lemma decide_direct_ip_allowed:
  "allowed (decide_direct_ip ops s ip port protocol) \<longleftrightarrow>
     address_clear ops s ip \<and> port_allowed s protocol port \<and> network_granted ops s ip"
  by (cases ops s ip rule: check_address_cases; cases "ps_github_scope s";
      cases "pe_default_action (ps_engine s)")
     (auto simp: decide_direct_ip_def network_granted_def network_lists list_ex_iff)

text \<open>
  C2: a hostname connection is allowed exactly when its resolved address is clear, its port is
  permitted and its name, once normalized, is granted.  A domain grant therefore never opens a
  restricted address class or a blocked network, and an invalid name is never allowed.
\<close>

theorem decide_hostname_allowed_iff:
  "allowed (decide_hostname ops s name ip port protocol) \<longleftrightarrow>
     address_clear ops s ip \<and> port_allowed s protocol port \<and>
     (\<exists>n. normalize_domain name = Inr n \<and> name_granted s n)"
  by (rule decide_hostname_allowed)

text \<open>
  a direct-IP connection is allowed exactly when the address is clear, the port is permitted and
  a configured network, a published network or the default action grants it.  The decision is the
  same for every set of domain rules.
\<close>

theorem decide_direct_ip_allowed_iff:
  "(allowed (decide_direct_ip ops s ip port protocol) \<longleftrightarrow>
      address_clear ops s ip \<and> port_allowed s protocol port \<and> network_granted ops s ip) \<and>
   decide_direct_ip ops (s\<lparr>ps_engine := (ps_engine s)\<lparr>pe_allowed_domains := ad, pe_blocked_domains := bd\<rparr>\<rparr>)
     ip port protocol = decide_direct_ip ops s ip port protocol"
  by (rule conjI [OF decide_direct_ip_allowed])
     (unfold decide_direct_ip_def check_address_def domain_rules_unused, rule refl)

text \<open>
  writing an IPv4 destination as an IPv4-mapped IPv6 address changes no decision: neither the
  verdict nor its reason nor the reported class.
\<close>

theorem decisions_mapped_invariant:
  "decide_hostname ops s name (V6 (to_ipv6_mapped a)) port protocol = decide_hostname ops s name (V4 a) port protocol \<and>
   decide_direct_ip ops s (V6 (to_ipv6_mapped a)) port protocol = decide_direct_ip ops s (V4 a) port protocol \<and>
   address_permitted ops s (V6 (to_ipv6_mapped a)) = address_permitted ops s (V4 a)"
  by (simp add: decide_hostname_def decide_direct_ip_def address_permitted_def check_address_mapped)

subsection \<open>Compilation\<close>

lemma validate_dns_controls_first:
  "validate_dns_controls d =
     (case DnsPolicy_validate d of
        [] \<Rightarrow> Inr ()
      | f # _ \<Rightarrow> Inl (InvalidDnsControl f
          (if f = ''max_qname_octets'' then ''must be between 1 and 253''
           else if f = ''max_label_octets'' then ''must be between 1 and 63''
           else if f = ''allowed_record_types'' then ''must list at least one record type''
           else ''must be greater than zero'')))"
  unfolding validate_dns_controls_def DnsPolicy_validate_def require_def by simp

lemma normalize_patterns_Inr:
  "normalize_patterns raw f = Inr ps \<longleftrightarrow> list_all2 (\<lambda>r p. normalize_pattern r = Inr p) raw ps"
  unfolding normalize_patterns_def try_map_Inr_iff
  by (rule list.rel_cong_simp [OF refl refl]) (auto simp: simp_implies_def split: sum.splits)

lemma parse_networks_Inr:
  "parse_networks ops raw f = Inr ns \<longleftrightarrow> list_all2 (\<lambda>r n. parse_ip_or_cidr ops r = Some n) raw ns"
  unfolding parse_networks_def try_map_Inr_iff
  by (rule list.rel_cong_simp [OF refl refl]) (auto simp: simp_implies_def split: option.splits)

definition connections_configured :: "int option \<Rightarrow> bool" where
  "connections_configured m \<longleftrightarrow> (case m of None \<Rightarrow> True | Some v \<Rightarrow> 0 < v \<and> v \<le> MAX_CONNECTIONS_CEILING)"

lemma resolve_max_connections_Inr:
  "resolve_max_connections m = Inr v \<longleftrightarrow>
     connections_configured m \<and> v = (case m of None \<Rightarrow> DEFAULT_MAX_CONNECTIONS | Some c \<Rightarrow> c)"
  by (auto simp: resolve_max_connections_def connections_configured_def MAX_CONNECTIONS_CEILING_def
           split: option.splits)

lemma validate_dns_controls_Inr: "validate_dns_controls d = Inr u \<longleftrightarrow> DnsPolicy_validate d = []"
  by (simp add: validate_dns_controls_first split: list.split)

lemma PolicyEngine_compile_Inr:
  "PolicyEngine_compile ops p = Inr e \<longleftrightarrow>
     (normalize_patterns (np_allowed_domains p) ''allowed_domains'' = Inr (pe_allowed_domains e) \<and>
      normalize_patterns (np_blocked_domains p) ''blocked_domains'' = Inr (pe_blocked_domains e) \<and>
      parse_networks ops (np_allowed_networks p) ''allowed_networks'' = Inr (pe_allowed_networks e) \<and>
      parse_networks ops (np_blocked_networks p) ''blocked_networks'' = Inr (pe_blocked_networks e) \<and>
      DnsPolicy_validate (np_dns p) = [] \<and>
      resolve_max_connections (np_max_connections p) = Inr (pe_max_concurrent_connections e)) \<and>
     pe_default_action e = np_default_action p \<and> pe_allow_dns e = np_allow_dns p \<and>
     pe_allowed_ports e = np_allowed_ports p \<and> pe_dns e = np_dns p \<and>
     pe_github_meta e =
       (str ''github.com'' \<in> set (pe_allowed_domains e) \<and>
        \<not> (\<exists>q \<in> set (pe_blocked_domains e). pattern_matches q (str ''github.com'')))"
  unfolding validate_dns_controls_Inr [symmetric, where u = "()"]
  by (cases e)
     (auto simp: PolicyEngine_compile_def list_ex_iff simp del: str_simps split: sum.splits)

text \<open>A small policy and its engine.\<close>

definition example_policy :: NetworkPolicy where
  "example_policy =
     \<lparr>np_default_action = Allow, np_allowed_domains = [str ''github.com''],
      np_blocked_domains = [str ''*.Evil.com''], np_allow_dns = True, np_max_connections = Some 8,
      np_allowed_networks = [], np_blocked_networks = [str ''192.30.252.0/22''],
      np_allowed_ports = [], np_dns = default_DnsPolicy\<rparr>"

definition example_engine :: "(IpAddr \<times> nat) PolicyEngine" where
  "example_engine =
     \<lparr>pe_default_action = Allow, pe_allow_dns = True, pe_allowed_domains = [str ''github.com''],
      pe_blocked_domains = [str ''*.evil.com''], pe_allowed_networks = [],
      pe_blocked_networks = [(V4 0xc01efc00, 22)], pe_allowed_ports = [],
      pe_max_concurrent_connections = 8, pe_dns = default_DnsPolicy, pe_github_meta = True\<rparr>"

lemma example_names:
  "normalize_pattern (str ''*.Evil.com'') = Inr (str ''*.evil.com'')"
  "normalize_domain (str ''a.evil.com.'') = Inr (str ''a.evil.com'')"
  "pattern_matches (str ''*.evil.com'') (str ''a.evil.com'')"
  "\<not> pattern_matches (str ''*.evil.com'') (str ''github.com'')"
  by code_simp+

lemma example_dns: "DnsPolicy_validate default_DnsPolicy = []"
  by (simp add: DnsPolicy_validate_def require_def default_DnsPolicy_def default_DnsQueryBudget_def)

lemma example_compiled: "PolicyEngine_compile cidr_ops example_policy = Inr example_engine"
  unfolding PolicyEngine_compile_Inr normalize_patterns_Inr parse_networks_Inr resolve_max_connections_Inr
  by (simp add: example_policy_def example_engine_def example_patterns example_names example_literals example_dns
        connections_configured_def MAX_CONNECTIONS_CEILING_def del: str_simps)

text \<open>
  compilation succeeds exactly on the policies all of whose domain patterns normalize, all of whose
  network literals parse, whose DNS section passes the schema's own validation and whose connection
  cap is unset or between 1 and 65535; it never accepts a policy with a part left out.
\<close>

theorem PolicyEngine_compile_succeeds_iff:
  "(\<exists>e. PolicyEngine_compile ops p = Inr e) \<longleftrightarrow>
     (\<forall>r \<in> set (np_allowed_domains p @ np_blocked_domains p). \<exists>q. normalize_pattern r = Inr q) \<and>
     (\<forall>r \<in> set (np_allowed_networks p @ np_blocked_networks p). \<exists>n. parse_ip_or_cidr ops r = Some n) \<and>
     DnsPolicy_validate (np_dns p) = [] \<and> connections_configured (np_max_connections p)"
proof -
  have pats: "(\<exists>qs. normalize_patterns rs f = Inr qs) \<longleftrightarrow> (\<forall>r \<in> set rs. \<exists>q. normalize_pattern r = Inr q)" for rs f
    unfolding normalize_patterns_Inr by (induction rs) (auto simp: list_all2_Cons1)
  have nets: "(\<exists>ns. parse_networks ops rs f = Inr ns) \<longleftrightarrow> (\<forall>r \<in> set rs. \<exists>n. parse_ip_or_cidr ops r = Some n)" for rs f
    unfolding parse_networks_Inr by (induction rs) (auto simp: list_all2_Cons1)
  have "(\<exists>e. PolicyEngine_compile ops p = Inr e) \<longleftrightarrow>
     (\<exists>qs. normalize_patterns (np_allowed_domains p) ''allowed_domains'' = Inr qs) \<and>
     (\<exists>qs. normalize_patterns (np_blocked_domains p) ''blocked_domains'' = Inr qs) \<and>
     (\<exists>ns. parse_networks ops (np_allowed_networks p) ''allowed_networks'' = Inr ns) \<and>
     (\<exists>ns. parse_networks ops (np_blocked_networks p) ''blocked_networks'' = Inr ns) \<and>
     DnsPolicy_validate (np_dns p) = [] \<and> (\<exists>v. resolve_max_connections (np_max_connections p) = Inr v)"
    unfolding validate_dns_controls_Inr [symmetric, where u = "()"]
    by (auto simp: PolicyEngine_compile_def simp del: str_simps split: sum.splits)
  then show ?thesis
    unfolding pats nets resolve_max_connections_Inr by auto
qed

theorem PolicyEngine_compile_succeeds_iff_witness: "\<exists>e. PolicyEngine_compile cidr_ops example_policy = Inr e"
  unfolding PolicyEngine_compile_succeeds_iff
  by (simp add: example_policy_def example_patterns example_names example_literals example_dns
        connections_configured_def MAX_CONNECTIONS_CEILING_def del: str_simps)

text \<open>
  C9: what a compiled policy blocks stays blocked in every snapshot of its engine, whatever else is
  granted: an address inside a network written in the block list is refused on both paths, and
  a name that a block-list pattern matches is refused.
\<close>

theorem compiled_blocks_enforced:
  assumes "PolicyEngine_compile ops p = Inr e" and "ps_engine s = e"
  shows "(\<forall>raw \<in> set (np_blocked_networks p). \<forall>n. parse_ip_or_cidr ops raw = Some n \<and> ipnet_contains ops n (canonicalize ip) \<longrightarrow>
            \<not> allowed (decide_hostname ops s name ip port protocol) \<and>
            \<not> allowed (decide_direct_ip ops s ip port protocol)) \<and>
         (\<forall>raw \<in> set (np_blocked_domains p). \<forall>q n. normalize_pattern raw = Inr q \<and> normalize_domain name = Inr n \<and>
            pattern_matches q n \<longrightarrow> \<not> allowed (decide_hostname ops s name ip port protocol))"
proof -
  have nets: "n \<in> set (pe_blocked_networks e)"
    if "raw \<in> set (np_blocked_networks p)" "parse_ip_or_cidr ops raw = Some n" for raw n
    using assms(1) that unfolding PolicyEngine_compile_Inr parse_networks_Inr
    by (fastforce simp: list_all2_conv_all_nth in_set_conv_nth)
  have pats: "q \<in> set (pe_blocked_domains e)"
    if "raw \<in> set (np_blocked_domains p)" "normalize_pattern raw = Inr q" for raw q
    using assms(1) that unfolding PolicyEngine_compile_Inr normalize_patterns_Inr
    by (fastforce simp: list_all2_conv_all_nth in_set_conv_nth)
  show ?thesis
    using assms(2) nets pats
    by (auto simp: decide_hostname_allowed decide_direct_ip_allowed address_clear_def name_granted_def)
qed

theorem compiled_blocks_enforced_witness:
  "\<not> allowed (decide_hostname cidr_ops (snapshot example_engine example_state 5)
       (str ''a.evil.com.'') (V4 0x01010101) 443 Tcp) \<and>
   \<not> allowed (decide_direct_ip cidr_ops (snapshot example_engine example_state 5) (V4 0xc01efc01) 443 Tcp)"
proof -
  have engine: "ps_engine (snapshot example_engine example_state 5) = example_engine"
    by (simp add: snapshot_def split_beta)
  have "ipnet_contains cidr_ops (V4 0xc01efc00, 22) (canonicalize (V4 0xc01efc01))"
    by (simp add: cidr_ops_def in_block_def)
  moreover have "str ''192.30.252.0/22'' \<in> set (np_blocked_networks example_policy)"
    and "str ''*.Evil.com'' \<in> set (np_blocked_domains example_policy)"
    by (simp_all add: example_policy_def del: str_simps)
  ultimately show ?thesis
    using compiled_blocks_enforced [OF example_compiled engine] example_literals(1) example_names(1-3) by blast
qed

subsection \<open>Snapshots\<close>

text \<open>
  C21: a snapshot that is still current decides exactly as a new one.  Over any life of the
  published scope since the engine was built, if the revision a broker kept equals the one it
  finds later, the whole snapshot is the same, expiry and withdrawal of the scope included.
\<close>

theorem is_current_same_snapshot:
  assumes "(meta_step ops parse)\<^sup>*\<^sup>* State_default st" and "(meta_step ops parse)\<^sup>*\<^sup>* st st'"
    and "is_current (snapshot e st now) st' now'"
  shows "snapshot e st' now' = snapshot e st now"
proof (cases "pe_github_meta e")
  case True
  with assms(3) have "fst (view now st) = fst (view now' st')"
    by (simp add: is_current_def snapshot_def split_beta)
  from view_identified [OF assms(1,2) this] True show ?thesis
    by (simp add: snapshot_def)
qed (simp add: snapshot_def)

theorem is_current_same_snapshot_witness:
  "is_current (snapshot example_engine example_state 5) example_state 6 \<and>
   snapshot example_engine example_state 6 = snapshot example_engine example_state 5"
proof -
  have "is_current (snapshot example_engine example_state 5) example_state 6"
    by (simp add: is_current_def snapshot_def example_engine_def example_views)
  then show ?thesis
    using is_current_same_snapshot [OF example_state_reached rtranclp.rtrancl_refl] by blast
qed

end
