(* ===== verification/Auth_Cache.thy ===== *)
theory Auth_Cache
  imports Address "HOL-Library.AList"
begin

section \<open>The authorization cache (crates/sendbox-egress/src/authorization.rs)\<close>

text \<open>
  Expiring \<^verbatim>\<open>(name, address)\<close> authorizations under a hard capacity.  The hash map is an
  association list with distinct keys; nothing depends on the order of its entries.  Each method reads
  the clock once, so the instant is an argument, and holds the mutex throughout, so it is one step.
  The locale \<open>authorization_store\<close> is what the brokers rely on: an address is only ever returned
  because of an unexpired authorization of the same name, address and policy revision.
\<close>

type_synonym auth_key = "rstr \<times> IpAddr"

record Authorization =
  expires_at :: nat
  auth_revision :: nat

record AuthorizationCache =
  entries :: "(auth_key \<times> Authorization) list"
  capacity :: nat

definition DEFAULT_CAPACITY :: nat where "DEFAULT_CAPACITY = 4096"

definition with_capacity :: "nat \<Rightarrow> AuthorizationCache" where
  "with_capacity c = \<lparr>entries = [], capacity = max c 1\<rparr>"

definition capacity_for :: "nat \<Rightarrow> nat \<Rightarrow> nat" where
  "capacity_for max_unique_names max_response_records =
     max (min (max_unique_names * max_response_records) (2 ^ 64 - 1)) 64"

definition retain_live :: "nat \<Rightarrow> (auth_key \<times> Authorization) list \<Rightarrow> (auth_key \<times> Authorization) list" where
  "retain_live now es = filter (\<lambda>(_, entry). expires_at entry > now) es"

text \<open>The order of \<^verbatim>\<open>min_by\<close>: earliest expiry first, ties by key.\<close>

definition evict_rank :: "auth_key \<times> Authorization \<Rightarrow> nat \<times> auth_key" where
  "evict_rank e = (expires_at (snd e), fst e)"

definition eviction :: "nat \<Rightarrow> auth_key \<Rightarrow> (auth_key \<times> Authorization) list \<Rightarrow> (auth_key \<times> Authorization) list" where
  "eviction cap key es =
     (if map_of es key = None \<and> length es \<ge> cap \<and> es \<noteq> []
      then AList.delete (fst (arg_min_list evict_rank es)) es else es)"

definition authorize_for_revision ::
  "nat \<Rightarrow> rstr \<Rightarrow> IpAddr \<Rightarrow> nat \<Rightarrow> nat \<Rightarrow> AuthorizationCache \<Rightarrow> AuthorizationCache" where
  "authorize_for_revision now name ip ttl revision c =
     (let es = retain_live now (entries c); key = (name, ip);
          es' = eviction (capacity c) key es
      in c\<lparr>entries := AList.update key \<lparr>expires_at = now + ttl, auth_revision = revision\<rparr> es'\<rparr>)"

definition authorize :: "nat \<Rightarrow> rstr \<Rightarrow> IpAddr \<Rightarrow> nat \<Rightarrow> AuthorizationCache \<Rightarrow> AuthorizationCache" where
  "authorize now name ip ttl c = authorize_for_revision now name ip ttl 0 c"

definition is_authorized :: "nat \<Rightarrow> rstr \<Rightarrow> IpAddr \<Rightarrow> AuthorizationCache \<Rightarrow> bool \<times> AuthorizationCache" where
  "is_authorized now name ip c =
     (case map_of (entries c) (name, ip) of
        Some entry \<Rightarrow>
          if expires_at entry > now then (auth_revision entry = 0, c)
          else (False, c\<lparr>entries := AList.delete (name, ip) (entries c)\<rparr>)
      | None \<Rightarrow> (False, c))"

definition authorized_addresses_for_revision ::
  "nat \<Rightarrow> rstr \<Rightarrow> nat \<Rightarrow> AuthorizationCache \<Rightarrow> IpAddr list \<times> AuthorizationCache" where
  "authorized_addresses_for_revision now name revision c =
     (let es = retain_live now (entries c)
      in (sort (map (\<lambda>((_, ip), _). ip)
                 (filter (\<lambda>((n, _), entry). n = name \<and> auth_revision entry = revision) es)),
          c\<lparr>entries := es\<rparr>))"

definition authorized_addresses :: "nat \<Rightarrow> rstr \<Rightarrow> AuthorizationCache \<Rightarrow> IpAddr list \<times> AuthorizationCache" where
  "authorized_addresses now name c = authorized_addresses_for_revision now name 0 c"

definition cache_clear :: "AuthorizationCache \<Rightarrow> AuthorizationCache" where
  "cache_clear c = c\<lparr>entries := []\<rparr>"

definition cache_len :: "AuthorizationCache \<Rightarrow> nat" where
  "cache_len c = length (entries c)"

text \<open>Sequences of calls.\<close>

datatype cache_op =
  Authorize nat rstr IpAddr nat nat
| Addresses nat rstr nat
| IsAuthorized nat rstr IpAddr
| ClearCache

fun cache_step :: "AuthorizationCache \<Rightarrow> cache_op \<Rightarrow> AuthorizationCache" where
  "cache_step c (Authorize now name ip ttl revision) = authorize_for_revision now name ip ttl revision c"
| "cache_step c (Addresses now name revision) = snd (authorized_addresses_for_revision now name revision c)"
| "cache_step c (IsAuthorized now name ip) = snd (is_authorized now name ip c)"
| "cache_step c ClearCache = cache_clear c"

subsection \<open>Invariant and capacity\<close>

definition cache_wf :: "AuthorizationCache \<Rightarrow> bool" where
  "cache_wf c \<longleftrightarrow> distinct (map fst (entries c)) \<and> length (entries c) \<le> capacity c \<and> capacity c > 0"

text \<open>The authorization in force for a name and an address at an instant.\<close>

definition in_force :: "AuthorizationCache \<Rightarrow> nat \<Rightarrow> rstr \<Rightarrow> IpAddr \<Rightarrow> nat option" where
  "in_force c now name ip =
     (case map_of (entries c) (name, ip) of
        Some a \<Rightarrow> if expires_at a > now then Some (auth_revision a) else None
      | None \<Rightarrow> None)"

lemma distinct_retain [simp]: "distinct (map fst es) \<Longrightarrow> distinct (map fst (retain_live now es))"
  by (simp add: retain_live_def distinct_map_filter)

lemma length_retain: "length (retain_live now es) \<le> length es"
  by (simp add: retain_live_def)

lemma map_of_retain:
  "distinct (map fst es) \<Longrightarrow>
   map_of (retain_live now es) k =
     (case map_of es k of Some a \<Rightarrow> if expires_at a > now then Some a else None | None \<Rightarrow> None)"
  by (induction es) (auto simp: retain_live_def map_of_eq_None_iff image_iff split: option.splits)

lemma length_delete_present:
  "distinct (map fst es) \<Longrightarrow> k \<in> fst ` set es \<Longrightarrow> Suc (length (AList.delete k es)) = length es"
proof (induction es)
  case (Cons e es)
  have "k \<notin> fst ` set es \<Longrightarrow> AList.delete k es = es"
    by (force simp: AList.delete_eq filter_id_conv)
  with Cons show ?case by (auto simp: AList.delete_eq)
qed simp

lemma length_update:
  "length (AList.update k v es) = (if k \<in> fst ` set es then length es else Suc (length es))"
  by (induction es) auto

lemma arg_min_in: "es \<noteq> [] \<Longrightarrow> fst (arg_min_list f es) \<in> fst ` set es"
  using arg_min_list_in by fastforce

lemma distinct_eviction [simp]: "distinct (map fst es) \<Longrightarrow> distinct (map fst (eviction cap key es))"
  by (simp add: eviction_def distinct_delete)

lemma eviction_makes_room:
  assumes "distinct (map fst es)" "length es \<le> cap" "0 < cap" "map_of es key = None"
  shows "length (eviction cap key es) < cap"
  using assms length_delete_present [OF assms(1) arg_min_in [of es evict_rank]]
  by (auto simp: eviction_def)

lemma eviction_absent [simp]: "map_of es key = None \<Longrightarrow> map_of (eviction cap key es) key = None"
  by (simp add: eviction_def delete_conv')

lemma eviction_present [simp]: "map_of es key = Some a \<Longrightarrow> eviction cap key es = es"
  by (simp add: eviction_def)

lemma authorize_wf: "cache_wf c \<Longrightarrow> cache_wf (authorize_for_revision now name ip ttl r c)"
proof -
  assume wf: "cache_wf c"
  define es where "es = retain_live now (entries c)"
  have es: "distinct (map fst es)" "length es \<le> capacity c" "0 < capacity c"
    using wf length_retain [of now "entries c"] by (auto simp: es_def cache_wf_def)
  show ?thesis
  proof (cases "map_of es (name, ip)")
    case None
    with eviction_makes_room [OF es None] show ?thesis
      using es by (auto simp: cache_wf_def authorize_for_revision_def Let_def es_def [symmetric]
                        length_update distinct_update)
  next
    case (Some a)
    then have "(name, ip) \<in> fst ` set es" by (force dest: map_of_SomeD)
    with Some es show ?thesis
      by (auto simp: cache_wf_def authorize_for_revision_def Let_def es_def [symmetric]
               length_update distinct_update)
  qed
qed

lemma cache_step_wf: "cache_wf c \<Longrightarrow> cache_wf (cache_step c op)"
proof (cases op)
  case (IsAuthorized now name ip)
  assume "cache_wf c"
  moreover have "length (AList.delete (name, ip) (entries c)) \<le> length (entries c)"
    by (rule length_delete_le)
  ultimately show ?thesis
    using IsAuthorized by (auto simp: is_authorized_def cache_wf_def distinct_delete split: option.splits)
next
  case (Authorize now name ip ttl r)
  then show "cache_wf c \<Longrightarrow> ?thesis" by (simp add: authorize_wf)
qed (auto simp: authorized_addresses_for_revision_def Let_def cache_clear_def cache_wf_def
          intro: le_trans [OF length_retain])

lemma cache_step_capacity [simp]: "capacity (cache_step c op) = capacity c"
  by (cases op) (auto simp: authorize_for_revision_def authorized_addresses_for_revision_def Let_def
                       is_authorized_def cache_clear_def split: option.splits)

lemma cache_run_wf: "cache_wf c \<Longrightarrow> cache_wf (foldl cache_step c ops)"
  by (induction ops arbitrary: c) (auto simp: cache_step_wf)

lemma cache_run_capacity [simp]: "capacity (foldl cache_step c ops) = capacity c"
  by (induction ops arbitrary: c) auto

lemma with_capacity_wf [simp]: "cache_wf (with_capacity k)"
  by (simp add: cache_wf_def with_capacity_def)

subsection \<open>The interface the brokers rely on\<close>

fun authorizes :: "rstr \<Rightarrow> IpAddr \<Rightarrow> cache_op \<Rightarrow> bool" where
  "authorizes name ip (Authorize _ n i _ _) \<longleftrightarrow> n = name \<and> i = ip"
| "authorizes name ip _ \<longleftrightarrow> False"

locale authorization_store =
  fixes fresh :: 'c and step :: "'c \<Rightarrow> cache_op \<Rightarrow> 'c" and good :: "'c \<Rightarrow> bool"
    and forced :: "'c \<Rightarrow> nat \<Rightarrow> rstr \<Rightarrow> IpAddr \<Rightarrow> nat option"
  assumes fresh_good: "good fresh"
    and fresh_none: "forced fresh t name ip = None"
    and step_good: "good c \<Longrightarrow> good (step c op)"
    and step_authorize:
      "good c \<Longrightarrow> forced (step c (Authorize now name ip ttl r)) t name ip = (if t < now + ttl then Some r else None)"
    and step_other:
      "good c \<Longrightarrow> \<not> authorizes name ip op \<Longrightarrow> forced (step c op) t name ip = Some r \<Longrightarrow>
       op \<noteq> ClearCache \<and> forced c t name ip = Some r"
begin

lemma run_good: "good (foldl step fresh ops)"
  by (induction ops rule: rev_induct) (simp_all add: fresh_good step_good)

text \<open>Whatever is in force goes back to the last authorization of its key, since the last clear.\<close>

lemma forced_origin:
  assumes "forced (foldl step fresh ops) t name ip = Some r"
  shows "\<exists>pre now ttl post. ops = pre @ Authorize now name ip ttl r # post \<and> t < now + ttl \<and>
           list_all (\<lambda>op. op \<noteq> ClearCache \<and> \<not> authorizes name ip op) post"
  using assms
proof (induction ops rule: rev_induct)
  case (snoc op ops)
  show ?case
  proof (cases "authorizes name ip op")
    case True
    then obtain now ttl r' where "op = Authorize now name ip ttl r'" by (cases op) auto
    with snoc.prems have "ops @ [op] = ops @ Authorize now name ip ttl r # []" "t < now + ttl"
      by (auto simp: step_authorize [OF run_good] split: if_splits)
    then show ?thesis by (intro exI [of _ ops] exI [of _ now] exI [of _ ttl] exI [of _ "[]"]) simp
  next
    case False
    with snoc.prems step_other [OF run_good False] have "op \<noteq> ClearCache"
      and "forced (foldl step fresh ops) t name ip = Some r" by auto
    with snoc.IH False show ?thesis by fastforce
  qed
qed (simp add: fresh_none)

end

lemma in_force_Some:
  "in_force c t n i = Some r \<longleftrightarrow>
     (\<exists>a. map_of (entries c) (n, i) = Some a \<and> expires_at a > t \<and> auth_revision a = r)"
  by (auto simp: in_force_def split: option.splits)

lemma map_of_retain_Some:
  "cache_wf c \<Longrightarrow>
   map_of (retain_live now (entries c)) k = Some a \<longleftrightarrow> map_of (entries c) k = Some a \<and> expires_at a > now"
  unfolding cache_wf_def by (auto simp only: map_of_retain split: option.splits if_splits)

lemma map_of_eviction: "map_of (eviction cap key es) k = Some a \<Longrightarrow> map_of es k = Some a"
  by (auto simp: eviction_def delete_conv' split: if_splits)

lemma in_force_authorize_self:
  "in_force (authorize_for_revision now name ip ttl r c) t name ip = (if t < now + ttl then Some r else None)"
  by (simp add: in_force_def authorize_for_revision_def Let_def update_conv')

lemma in_force_authorize_other:
  assumes "cache_wf c" "(n, i) \<noteq> (name, ip)"
    and "in_force (authorize_for_revision now name ip ttl r c) t n i = Some r'"
  shows "in_force c t n i = Some r'"
  using assms
  by (auto simp: in_force_Some authorize_for_revision_def Let_def update_conv'
           dest!: map_of_eviction simp: map_of_retain_Some)

lemma in_force_step_other:
  assumes "cache_wf c" "\<not> authorizes n i op" "in_force (cache_step c op) t n i = Some r"
  shows "op \<noteq> ClearCache \<and> in_force c t n i = Some r"
proof (cases op)
  case (Authorize now name ip ttl r')
  with assms in_force_authorize_other [OF assms(1), of n i name ip now ttl r' t r] show ?thesis by auto
next
  case (IsAuthorized now name ip)
  with assms(3) show ?thesis
    by (auto simp: is_authorized_def in_force_Some delete_conv' split: option.splits if_splits)
qed (use assms in \<open>auto simp: in_force_Some authorized_addresses_for_revision_def Let_def cache_clear_def map_of_retain_Some\<close>)

lemma in_force_fresh: "in_force (with_capacity k) t name ip = None"
  by (simp add: in_force_def with_capacity_def)

interpretation auth: authorization_store "with_capacity k" cache_step cache_wf in_force for k
proof (unfold_locales, goal_cases)
  case (5 c name ip op t r)
  then show ?case by (rule in_force_step_other)
qed (simp_all add: in_force_fresh cache_step_wf in_force_authorize_self)

lemma addresses_exact:
  assumes wf: "cache_wf c"
  shows "set (fst (authorized_addresses_for_revision now name r c)) = {ip. in_force c now name ip = Some r}"
    and "sorted (fst (authorized_addresses_for_revision now name r c))"
    and "distinct (fst (authorized_addresses_for_revision now name r c))"
proof -
  define es where "es = retain_live now (entries c)"
  have d: "distinct (map fst es)" using wf by (simp add: es_def cache_wf_def)
  have "in_force c now name ip = Some r \<longleftrightarrow> (\<exists>a. map_of es (name, ip) = Some a \<and> auth_revision a = r)" for ip
    unfolding es_def map_of_retain_Some [OF wf] in_force_Some by blast
  moreover have "set (fst (authorized_addresses_for_revision now name r c))
                 = {ip. \<exists>a. ((name, ip), a) \<in> set es \<and> auth_revision a = r}"
    by (auto simp: authorized_addresses_for_revision_def Let_def es_def [symmetric] image_iff split_beta)
  ultimately show "set (fst (authorized_addresses_for_revision now name r c)) = {ip. in_force c now name ip = Some r}"
    by (simp add: map_of_eq_Some_iff [OF d])
  show "sorted (fst (authorized_addresses_for_revision now name r c))"
    by (simp add: authorized_addresses_for_revision_def Let_def)
  have "inj_on (\<lambda>((_, ip), _). ip) (set (filter (\<lambda>((n, _), entry). n = name \<and> auth_revision entry = r) es))"
    by (auto simp: inj_on_def dest: eq_key_imp_eq_value [OF d])
  with d show "distinct (fst (authorized_addresses_for_revision now name r c))"
    by (simp add: authorized_addresses_for_revision_def Let_def es_def [symmetric] distinct_map)
qed

text \<open>
  at every point of every sequence of calls, the addresses returned for a name and a revision are
  exactly those with an authorization in force, each once and in ascending order, and the cache
  holds at most as many entries as its capacity, which is never zero.
\<close>

theorem cache_lookup_exact:
  "let c = foldl cache_step (with_capacity k) ops
   in set (fst (authorized_addresses_for_revision now name r c)) = {ip. in_force c now name ip = Some r} \<and>
      sorted (fst (authorized_addresses_for_revision now name r c)) \<and>
      distinct (fst (authorized_addresses_for_revision now name r c)) \<and>
      cache_len c \<le> max k 1"
  using addresses_exact [OF auth.run_good [of k ops]] auth.run_good [of k ops]
  by (simp add: Let_def cache_len_def cache_wf_def with_capacity_def)

text \<open>
  C10: an address that a broker obtains for a name and a policy revision was authorized
  earlier for exactly that name, address and revision, with a lifetime that has not run out; since
  then that pair was not authorized again, and the cache was not cleared.  The same
  holds, at revision zero, for a positive answer of the membership test.
\<close>

theorem cache_lookup_sound:
  assumes "ip \<in> set (fst (authorized_addresses_for_revision t name r (foldl cache_step (with_capacity k) ops)))
           \<or> r = 0 \<and> fst (is_authorized t name ip (foldl cache_step (with_capacity k) ops))"
  shows "\<exists>pre now ttl post. ops = pre @ Authorize now name ip ttl r # post \<and> t < now + ttl \<and>
           list_all (\<lambda>op. op \<noteq> ClearCache \<and> \<not> authorizes name ip op) post"
proof (rule auth.forced_origin)
  show "in_force (foldl cache_step (with_capacity k) ops) t name ip = Some r"
    using assms addresses_exact(1) [OF auth.run_good [of k ops], of t name r]
    by (auto simp: is_authorized_def in_force_Some split: option.splits if_splits)
qed

theorem cache_lookup_sound_witness:
  "\<exists>pre now ttl post.
     [Authorize 5 (str ''a.io'') (V4 7) 10 1, Addresses 9 (str ''a.io'') 1]
       = pre @ Authorize now (str ''a.io'') (V4 7) ttl 1 # post \<and> 12 < now + ttl \<and>
     list_all (\<lambda>op. op \<noteq> ClearCache \<and> \<not> authorizes (str ''a.io'') (V4 7) op) post"
  by (rule cache_lookup_sound [where k = 4], rule disjI1) code_simp

text \<open>
  authorizing takes effect at once and costs at most one other entry: the new pair is in
  force until its lifetime ends, and if some other live pair is lost then the cache was full of live
  entries, the new pair was not among them, and no surviving pair ranks before the lost one in
  the order of expiry and key.
\<close>

theorem authorize_evicts_earliest:
  assumes "cache_wf c" and c'_def: "c' = authorize_for_revision now name ip ttl r c"
  shows "(\<forall>t. in_force c' t name ip = (if t < now + ttl then Some r else None)) \<and>
         (\<forall>k a. map_of (entries c) k = Some a \<and> expires_at a > now \<and> map_of (entries c') k = None \<longrightarrow>
            in_force c now name ip = None \<and> length (retain_live now (entries c)) = capacity c \<and>
            (\<forall>k' a'. map_of (entries c') k' = Some a' \<and> k' \<noteq> (name, ip) \<longrightarrow> evict_rank (k, a) \<le> evict_rank (k', a')))"
proof -
  define es where "es = retain_live now (entries c)"
  have wf: "distinct (map fst es)" "length es \<le> capacity c"
    using assms(1) length_retain [of now "entries c"] by (auto simp: es_def cache_wf_def)
  have c': "entries c' = AList.update (name, ip) \<lparr>expires_at = now + ttl, auth_revision = r\<rparr> (eviction (capacity c) (name, ip) es)"
    by (simp add: c'_def es_def authorize_for_revision_def Let_def)
  { fix k a assume "map_of (entries c) k = Some a" "expires_at a > now" and lost: "map_of (entries c') k = None"
    then have k: "map_of es k = Some a" by (simp add: es_def map_of_retain_Some [OF assms(1)])
    from lost have "k \<noteq> (name, ip)" and ev: "map_of (eviction (capacity c) (name, ip) es) k = None"
      by (auto simp: c' update_conv' split: if_splits)
    with k have full: "map_of es (name, ip) = None" "length es \<ge> capacity c" "es \<noteq> []"
      and kmin: "k = fst (arg_min_list evict_rank es)"
      by (auto simp: eviction_def delete_conv' split: if_splits)
    have "arg_min_list evict_rank es \<in> set es" by (rule arg_min_list_in [OF full(3)])
    with kmin have "(k, snd (arg_min_list evict_rank es)) \<in> set es" by simp
    from eq_key_imp_eq_value [OF wf(1) this map_of_SomeD [OF k]]
    have "snd (arg_min_list evict_rank es) = a" .
    with kmin have "arg_min_list evict_rank es = (k, a)" by (simp add: prod_eq_iff)
    with f_arg_min_list_f [OF full(3), of evict_rank]
    have min: "evict_rank (k, a) \<le> evict_rank e" if "e \<in> set es" for e
      using that by simp
    have "evict_rank (k, a) \<le> evict_rank (k', a')"
      if "map_of (entries c') k' = Some a'" "k' \<noteq> (name, ip)" for k' a'
    proof -
      have "map_of es k' = Some a'" using that by (auto simp: c' update_conv' dest: map_of_eviction)
      then show ?thesis by (intro min map_of_SomeD)
    qed
    moreover have "in_force c now name ip = None"
      using full(1) map_of_retain_Some [OF assms(1), of now "(name, ip)"]
      by (auto simp: es_def in_force_def split: option.splits)
    ultimately have "in_force c now name ip = None \<and> length es = capacity c \<and>
      (\<forall>k' a'. map_of (entries c') k' = Some a' \<and> k' \<noteq> (name, ip) \<longrightarrow> evict_rank (k, a) \<le> evict_rank (k', a'))"
      using full(2) wf(2) by auto }
  then show ?thesis
    unfolding es_def c'_def by (auto simp: in_force_authorize_self)
qed

theorem authorize_evicts_earliest_witness:
  "let c = foldl cache_step (with_capacity 1) [Authorize 5 (str ''a.io'') (V4 7) 10 1];
       c' = authorize_for_revision 6 (str ''b.io'') (V4 8) 10 1 c
   in map_of (entries c') (str ''a.io'', V4 7) = None \<and> length (retain_live 6 (entries c)) = capacity c"
proof -
  define c where "c = foldl cache_step (with_capacity 1) [Authorize 5 (str ''a.io'') (V4 7) 10 1]"
  have "cache_wf c" unfolding c_def by (rule cache_run_wf) simp
  note evict = authorize_evicts_earliest [OF this refl, of 6 "str ''b.io''" "V4 8" 10 1]
  have old: "map_of (entries c) (str ''a.io'', V4 7) = Some \<lparr>expires_at = 15, auth_revision = 1\<rparr>"
    and lost: "map_of (entries (authorize_for_revision 6 (str ''b.io'') (V4 8) 10 1 c)) (str ''a.io'', V4 7) = None"
    unfolding c_def by code_simp+
  have "6 < expires_at \<lparr>expires_at = 15, auth_revision = 1\<rparr>" by simp
  with evict old lost have "length (retain_live 6 (entries c)) = capacity c" by blast
  with lost show ?thesis unfolding Let_def c_def [symmetric] by blast
qed

end
