(* ===== verification/Dns_Budget.thy ===== *)
theory Dns_Budget
  imports Policy_Types Domain
begin

section \<open>The DNS query budget (crates/sendbox-egress/src/dns_budget.rs)\<close>

text \<open>
  Structural limits on a query name and four budgets per time window.  The hash sets are lists
  without duplicates.  The counters keep their widths: the checks saturate and the updates, as the
  source's \<^verbatim>\<open>+=\<close> in an optimized build, wrap at 32 and 64 bits.  The caller passes the instant, in
  nanoseconds, and the mutex makes \<open>admit\<close> one step.
\<close>

datatype DnsLimit =
  QnameOctets | LabelCount | LabelOctets | QueryCount | QueryOctets | UniqueNames | DynamicLabels

definition is_rate_budget :: "DnsLimit \<Rightarrow> bool" where
  "is_rate_budget l \<longleftrightarrow> l \<in> {QueryCount, QueryOctets, UniqueNames, DynamicLabels}"

fun DnsLimit_as_str :: "DnsLimit \<Rightarrow> string" where
  "DnsLimit_as_str QnameOctets = ''qname_octets''"
| "DnsLimit_as_str LabelCount = ''label_count''"
| "DnsLimit_as_str LabelOctets = ''label_octets''"
| "DnsLimit_as_str QueryCount = ''query_count''"
| "DnsLimit_as_str QueryOctets = ''query_octets''"
| "DnsLimit_as_str UniqueNames = ''unique_names''"
| "DnsLimit_as_str DynamicLabels = ''dynamic_labels''"

record WindowState =
  window_start :: "nat option"
  queries :: nat
  query_octets :: nat
  unique_names :: "rstr list"
  dynamic_labels :: "rstr list"

definition WindowState_empty :: WindowState where
  "WindowState_empty =
     \<lparr>window_start = None, queries = 0, query_octets = 0, unique_names = [], dynamic_labels = []\<rparr>"

definition WindowState_reset :: "nat \<Rightarrow> WindowState \<Rightarrow> WindowState" where
  "WindowState_reset now w =
     w\<lparr>window_start := Some now, queries := 0, query_octets := 0, unique_names := [], dynamic_labels := []\<rparr>"

record DnsGuard =
  g_max_qname_octets :: nat
  g_max_labels :: nat
  g_max_label_octets :: nat
  g_allowed_record_types :: "DnsRecordType list"
  g_max_response_records :: nat
  g_window :: nat
  g_max_queries :: nat
  g_max_query_octets :: nat
  g_max_unique_names :: nat
  g_max_dynamic_labels :: nat

definition DnsGuard_from_policy :: "DnsPolicy \<Rightarrow> DnsGuard" where
  "DnsGuard_from_policy policy =
     \<lparr>g_max_qname_octets = max_qname_octets policy,
      g_max_labels = max_labels policy,
      g_max_label_octets = max_label_octets policy,
      g_allowed_record_types = allowed_record_types policy,
      g_max_response_records = max_response_records policy,
      g_window = window_secs (budget policy) * 1000000000,
      g_max_queries = max_queries (budget policy),
      g_max_query_octets = max_query_octets (budget policy),
      g_max_unique_names = max_unique_names (budget policy),
      g_max_dynamic_labels = max_dynamic_labels (budget policy)\<rparr>"

definition record_type_allowed :: "DnsGuard \<Rightarrow> DnsRecordType \<Rightarrow> bool" where
  "record_type_allowed g t \<longleftrightarrow> t \<in> set (g_allowed_record_types g)"

fun scan_labels :: "nat \<Rightarrow> rstr list \<Rightarrow> nat \<Rightarrow> DnsLimit + nat" where
  "scan_labels max_octets [] count = Inr count"
| "scan_labels max_octets (label # rest) count =
     (if rlen label > max_octets then Inl LabelOctets else scan_labels max_octets rest (count + 1))"

definition check_structure :: "DnsGuard \<Rightarrow> rstr \<Rightarrow> DnsLimit + unit" where
  "check_structure g normalized =
     (if rlen normalized > g_max_qname_octets g then Inl QnameOctets
      else case scan_labels (g_max_label_octets g) (split_on DOT normalized) 0 of
          Inl e \<Rightarrow> Inl e
        | Inr label_count \<Rightarrow> if label_count > g_max_labels g then Inl LabelCount else Inr ())"

definition window_expired :: "DnsGuard \<Rightarrow> nat \<Rightarrow> WindowState \<Rightarrow> bool" where
  "window_expired g now w \<longleftrightarrow>
     (case window_start w of
        None \<Rightarrow> True
      | Some start \<Rightarrow> g_window g = 0 \<or> now - start \<ge> g_window g)"

definition admit :: "DnsGuard \<Rightarrow> rstr \<Rightarrow> nat \<Rightarrow> WindowState \<Rightarrow> (DnsLimit + unit) \<times> WindowState" where
  "admit g normalized now w0 =
     (let octets = rlen normalized;
          label = leftmost_label normalized;
          w = (if window_expired g now w0 then WindowState_reset now w0 else w0);
          name_is_new = (normalized \<notin> set (unique_names w));
          label_is_new = (label \<notin> set (dynamic_labels w))
      in if saturating_add 32 (queries w) 1 > g_max_queries g then (Inl QueryCount, w)
         else if saturating_add 64 (query_octets w) octets > g_max_query_octets g then (Inl QueryOctets, w)
         else if name_is_new \<and> length (unique_names w) \<ge> g_max_unique_names g then (Inl UniqueNames, w)
         else if label_is_new \<and> length (dynamic_labels w) \<ge> g_max_dynamic_labels g then (Inl DynamicLabels, w)
         else (Inr (),
               w\<lparr>queries := wrapping_add 32 (queries w) 1,
                 query_octets := wrapping_add 64 (query_octets w) octets,
                 unique_names := (if name_is_new then unique_names w @ [normalized] else unique_names w),
                 dynamic_labels := (if label_is_new then dynamic_labels w @ [label] else dynamic_labels w)\<rparr>))"

subsection \<open>The specification: a log of the window\<close>

text \<open>
  The contract says nothing of counters and sets: the guard remembers the queries it admitted since
  the window began and admits one more exactly when the log with it stays within the four bounds.
\<close>

definition within :: "DnsGuard \<Rightarrow> rstr list \<Rightarrow> bool" where
  "within g log \<longleftrightarrow>
     length log \<le> g_max_queries g \<and> sum_list (map rlen log) \<le> g_max_query_octets g \<and>
     card (set log) \<le> g_max_unique_names g \<and> card (leftmost_label ` set log) \<le> g_max_dynamic_labels g"

record budget_log =
  log_start :: "nat option"
  log_names :: "rstr list"

definition spec_roll :: "DnsGuard \<Rightarrow> nat \<Rightarrow> budget_log \<Rightarrow> budget_log" where
  "spec_roll g now s =
     (if (case log_start s of None \<Rightarrow> True | Some start \<Rightarrow> g_window g = 0 \<or> now - start \<ge> g_window g)
      then \<lparr>log_start = Some now, log_names = []\<rparr> else s)"

definition spec_admit :: "DnsGuard \<Rightarrow> rstr \<Rightarrow> nat \<Rightarrow> budget_log \<Rightarrow> bool \<times> budget_log" where
  "spec_admit g name now s =
     (let s' = spec_roll g now s; log' = log_names s' @ [name]
      in if within g log' then (True, s'\<lparr>log_names := log'\<rparr>) else (False, s'))"

definition admitted :: "DnsLimit + unit \<Rightarrow> bool" where
  "admitted r \<longleftrightarrow> r = Inr ()"

text \<open>Runs of the guard and of the specification over a sequence of timed queries.\<close>

fun admit_run :: "DnsGuard \<Rightarrow> (rstr \<times> nat) list \<Rightarrow> WindowState \<Rightarrow> bool list \<times> WindowState" where
  "admit_run g [] w = ([], w)"
| "admit_run g ((name, now) # calls) w =
     (let (r, w') = admit g name now w; (rs, w'') = admit_run g calls w' in (admitted r # rs, w''))"

fun spec_run :: "DnsGuard \<Rightarrow> (rstr \<times> nat) list \<Rightarrow> budget_log \<Rightarrow> bool list \<times> budget_log" where
  "spec_run g [] s = ([], s)"
| "spec_run g ((name, now) # calls) s =
     (let (b, s') = spec_admit g name now s; (bs, s'') = spec_run g calls s' in (b # bs, s''))"

text \<open>The counters cannot reach the ends of their types.\<close>

definition guard_fits :: "DnsGuard \<Rightarrow> bool" where
  "guard_fits g \<longleftrightarrow> g_max_queries g < 2 ^ 32 - 1 \<and> g_max_query_octets g < 2 ^ 64 - 1"

definition tracks :: "WindowState \<Rightarrow> budget_log \<Rightarrow> bool" where
  "tracks w s \<longleftrightarrow>
     window_start w = log_start s \<and> queries w = length (log_names s) \<and>
     query_octets w = sum_list (map rlen (log_names s)) \<and>
     distinct (unique_names w) \<and> set (unique_names w) = set (log_names s) \<and>
     distinct (dynamic_labels w) \<and> set (dynamic_labels w) = leftmost_label ` set (log_names s)"

subsection \<open>Refinement\<close>

definition roll :: "DnsGuard \<Rightarrow> nat \<Rightarrow> WindowState \<Rightarrow> WindowState" where
  "roll g now w = (if window_expired g now w then WindowState_reset now w else w)"

lemma roll_tracks: "tracks w s \<Longrightarrow> tracks (roll g now w) (spec_roll g now s)"
  by (auto simp: tracks_def roll_def spec_roll_def window_expired_def WindowState_reset_def split: option.splits)

lemma roll_within: "within g (log_names s) \<Longrightarrow> within g (log_names (spec_roll g now s))"
  by (auto simp: spec_roll_def within_def)

lemma saturating_iff: "m < 2 ^ w - 1 \<Longrightarrow> saturating_add w a b > m \<longleftrightarrow> a + b > m"
  by (auto simp: saturating_add_def)

lemma new_card_iff:
  assumes "distinct xs" "length xs \<le> m"
  shows "card (insert x (set xs)) \<le> m \<longleftrightarrow> \<not> (x \<notin> set xs \<and> m \<le> length xs)"
  using assms distinct_card [OF assms(1)] by (auto simp: card_insert_if)

lemma set_lengths: "tracks w s \<Longrightarrow> card (set (log_names s)) = length (unique_names w)"
  "tracks w s \<Longrightarrow> card (leftmost_label ` set (log_names s)) = length (dynamic_labels w)"
  by (simp_all add: tracks_def distinct_card [symmetric])

lemma admit_unfold:
  "admit g name now w0 =
     (let w = roll g now w0
      in if saturating_add 32 (queries w) 1 > g_max_queries g then (Inl QueryCount, w)
         else if saturating_add 64 (query_octets w) (rlen name) > g_max_query_octets g then (Inl QueryOctets, w)
         else if name \<notin> set (unique_names w) \<and> length (unique_names w) \<ge> g_max_unique_names g
         then (Inl UniqueNames, w)
         else if leftmost_label name \<notin> set (dynamic_labels w) \<and> length (dynamic_labels w) \<ge> g_max_dynamic_labels g
         then (Inl DynamicLabels, w)
         else (Inr (),
               w\<lparr>queries := wrapping_add 32 (queries w) 1,
                 query_octets := wrapping_add 64 (query_octets w) (rlen name),
                 unique_names := (if name \<notin> set (unique_names w) then unique_names w @ [name] else unique_names w),
                 dynamic_labels := (if leftmost_label name \<notin> set (dynamic_labels w)
                                    then dynamic_labels w @ [leftmost_label name] else dynamic_labels w)\<rparr>))"
  unfolding admit_def roll_def Let_def ..

lemma admit_refines:
  assumes g: "guard_fits g" and t: "tracks w0 s0" and b: "within g (log_names s0)"
    and a: "admit g name now w0 = (r, w')" and sp: "spec_admit g name now s0 = (ok, s')"
  shows "admitted r = ok \<and> tracks w' s' \<and> within g (log_names s')"
proof -
  define w where "w = roll g now w0"
  define s where "s = spec_roll g now s0"
  have t: "tracks w s" and b: "within g (log_names s)"
    using roll_tracks [OF t] roll_within [OF b] by (simp_all add: w_def s_def)
  have wlog: "within g (log_names s @ [name]) \<longleftrightarrow>
      \<not> saturating_add 32 (queries w) 1 > g_max_queries g \<and>
      \<not> saturating_add 64 (query_octets w) (rlen name) > g_max_query_octets g \<and>
      \<not> (name \<notin> set (unique_names w) \<and> g_max_unique_names g \<le> length (unique_names w)) \<and>
      \<not> (leftmost_label name \<notin> set (dynamic_labels w) \<and> g_max_dynamic_labels g \<le> length (dynamic_labels w))"
  proof -
    have "card (insert name (set (unique_names w))) \<le> g_max_unique_names g \<longleftrightarrow>
          \<not> (name \<notin> set (unique_names w) \<and> g_max_unique_names g \<le> length (unique_names w))"
      and "card (insert (leftmost_label name) (set (dynamic_labels w))) \<le> g_max_dynamic_labels g \<longleftrightarrow>
          \<not> (leftmost_label name \<notin> set (dynamic_labels w) \<and> g_max_dynamic_labels g \<le> length (dynamic_labels w))"
      using t b set_lengths [OF t] by (intro new_card_iff; simp add: tracks_def within_def)+
    then show ?thesis
      using g t by (simp add: within_def guard_fits_def saturating_iff tracks_def not_less)
  qed
  have wrap: "wrapping_add 32 (queries w) 1 = queries w + 1"
    "wrapping_add 64 (query_octets w) (rlen name) = query_octets w + rlen name"
    if "within g (log_names s @ [name])"
    using that g t by (auto simp: within_def guard_fits_def tracks_def wrapping_add_def)
  show ?thesis
  proof (cases "within g (log_names s @ [name])")
    case True
    with a sp wlog wrap t show ?thesis
      by (auto simp: admit_unfold spec_admit_def Let_def w_def [symmetric] s_def [symmetric] admitted_def tracks_def
               split: if_splits)
  next
    case False
    with a sp t b show ?thesis
      unfolding wlog
      by (auto simp: admit_unfold spec_admit_def Let_def w_def [symmetric] s_def [symmetric] admitted_def False
               split: if_splits)
  qed
qed

lemma run_refines:
  assumes "guard_fits g" "tracks w s" "within g (log_names s)"
  shows "fst (admit_run g calls w) = fst (spec_run g calls s) \<and>
         tracks (snd (admit_run g calls w)) (snd (spec_run g calls s)) \<and>
         within g (log_names (snd (spec_run g calls s)))"
  using assms
proof (induction g calls w arbitrary: s rule: admit_run.induct)
  case (2 g name now calls w)
  obtain r w' where a: "admit g name now w = (r, w')" by fastforce
  obtain ok s' where sp: "spec_admit g name now s = (ok, s')" by fastforce
  have step: "admitted r = ok" "tracks w' s'" "within g (log_names s')"
    using admit_refines [OF 2(2-4) a sp] by simp_all
  from 2(1) [OF a [symmetric] refl 2(2) step(2,3)] step(1) show ?case
    by (simp add: a sp split_beta)
qed simp

lemma empty_tracks: "tracks WindowState_empty \<lparr>log_start = None, log_names = []\<rparr>"
  by (simp add: tracks_def WindowState_empty_def)

text \<open>
  C23: on every sequence of timed queries the guard admits exactly the queries that the log
  specification admits, and at every moment the queries admitted in the current window respect
  all four budgets: their number, their octets, their distinct names and their distinct
  leftmost labels.  A refused query leaves no trace in the log.
\<close>

theorem admit_run_refines_log:
  assumes "guard_fits g"
  shows "fst (admit_run g calls WindowState_empty) = fst (spec_run g calls \<lparr>log_start = None, log_names = []\<rparr>) \<and>
         within g (log_names (snd (spec_run g calls \<lparr>log_start = None, log_names = []\<rparr>))) \<and>
         length (unique_names (snd (admit_run g calls WindowState_empty))) \<le> g_max_unique_names g \<and>
         length (dynamic_labels (snd (admit_run g calls WindowState_empty))) \<le> g_max_dynamic_labels g"
proof -
  have "within g []" by (simp add: within_def)
  note r = run_refines [OF assms empty_tracks, simplified, OF this, of calls]
  from r set_lengths [OF r [THEN conjunct2, THEN conjunct1]] show ?thesis
    by (simp add: within_def)
qed

theorem admit_run_refines_log_witness:
  "guard_fits (DnsGuard_from_policy default_DnsPolicy) \<and>
   fst (admit_run (DnsGuard_from_policy default_DnsPolicy) [(str ''a.io'', 0), (str ''b.io'', 1)] WindowState_empty)
   = fst (spec_run (DnsGuard_from_policy default_DnsPolicy) [(str ''a.io'', 0), (str ''b.io'', 1)]
            \<lparr>log_start = None, log_names = []\<rparr>)"
proof -
  have "guard_fits (DnsGuard_from_policy default_DnsPolicy)"
    by (simp add: guard_fits_def DnsGuard_from_policy_def default_DnsPolicy_def default_DnsQueryBudget_def)
  then show ?thesis using admit_run_refines_log by blast
qed


lemma scan_labels_Inr:
  "scan_labels m ls k = Inr n \<longleftrightarrow> list_all (\<lambda>l. rlen l \<le> m) ls \<and> n = k + length ls"
  by (induction m ls k rule: scan_labels.induct) auto

lemma scan_labels_Inl: "scan_labels m ls k = Inl e \<longleftrightarrow> \<not> list_all (\<lambda>l. rlen l \<le> m) ls \<and> e = LabelOctets"
  by (induction m ls k rule: scan_labels.induct) auto

text \<open>
  The structural check accepts a name exactly when its octets, the octets of each of its labels
  and the number of its labels are within the limits.
\<close>

theorem check_structure_iff:
  "check_structure g n = Inr () \<longleftrightarrow>
     rlen n \<le> g_max_qname_octets g \<and> list_all (\<lambda>l. rlen l \<le> g_max_label_octets g) (split_on DOT n) \<and>
     length (split_on DOT n) \<le> g_max_labels g"
  by (auto simp: check_structure_def scan_labels_Inr scan_labels_Inl split: sum.splits)

end
