(* ===== verification/Command_Policy.thy ===== *)
theory Command_Policy
  imports Glob Policy_Types
begin

section \<open>Command admission rules (crates/sendbox-exec/src/policy.rs)\<close>

text \<open>
  Rules are strings of whitespace-separated token patterns with backslash escapes; an argv vector is
  admitted or refused without joining or reparsing its tokens.  The token matcher is the source's
  table of reachable positions, kept as a store from two indices to a flag; its meaning is
  \<^const>\<open>amatch\<close>.  \<^verbatim>\<open>Path::file_name\<close> is the standard library's, on Unix paths.
\<close>

datatype AdmissionDisposition = AdmitAllow | AdmitDeny

datatype MatchKind = Exact | TokenWildcard | Default

record MatchedRule =
  mr_action :: AdmissionDisposition
  mr_kind :: MatchKind
  mr_source :: "rstr option"

record CommandAdmission =
  ca_disposition :: AdmissionDisposition
  ca_matched :: MatchedRule

datatype CommandPolicyCompileError =
  EmptyRule string nat | TrailingEscape string nat | NulByte string nat

type_synonym TokenPattern = "PatternAtom list"

record CompiledRule =
  cr_source :: rstr
  cr_tokens :: "TokenPattern list"
  cr_exact :: "rstr list option"

record CompiledCommandPolicy =
  cc_default_action :: AdmissionDisposition
  cc_allow :: "CompiledRule list"
  cc_deny :: "CompiledRule list"

fun convert_action :: "Action \<Rightarrow> AdmissionDisposition" where
  "convert_action Allow = AdmitAllow"
| "convert_action Deny = AdmitDeny"

subsection \<open>The token matcher\<close>

type_synonym reach_table = "nat \<Rightarrow> nat \<Rightarrow> bool"

definition mark :: "nat \<Rightarrow> nat \<Rightarrow> reach_table \<Rightarrow> reach_table" where
  "mark i j t = t(i := (t i)(j := True))"

definition reach_cell :: "PatternAtom list \<Rightarrow> rstr \<Rightarrow> nat \<Rightarrow> nat \<Rightarrow> reach_table \<Rightarrow> reach_table" where
  "reach_cell atoms v i j t =
     (if \<not> t i j then t
      else case atoms ! i of
          Literal expected \<Rightarrow> if j < length v \<and> v ! j = expected then mark (i + 1) (j + 1) t else t
        | AnyCharacter \<Rightarrow> if j < length v then mark (i + 1) (j + 1) t else t
        | AnySequence \<Rightarrow>
            (let t' = mark (i + 1) j t in if j < length v then mark i (j + 1) t' else t'))"

definition reach_row :: "PatternAtom list \<Rightarrow> rstr \<Rightarrow> nat \<Rightarrow> reach_table \<Rightarrow> reach_table" where
  "reach_row atoms v i t = fold (reach_cell atoms v i) [0..<length v + 1] t"

definition TokenPattern_matches :: "TokenPattern \<Rightarrow> rstr \<Rightarrow> bool" where
  "TokenPattern_matches atoms v =
     fold (reach_row atoms v) [0..<length atoms] (mark 0 0 (\<lambda>_ _. False)) (length atoms) (length v)"

subsection \<open>Compilation of a rule\<close>

type_synonym parsed_token = "(rchar \<times> bool) list"

fun scan_rule :: "rstr \<Rightarrow> bool \<Rightarrow> parsed_token \<Rightarrow> parsed_token list \<Rightarrow> bool \<times> parsed_token \<times> parsed_token list" where
  "scan_rule [] escaped token parsed = (escaped, token, parsed)"
| "scan_rule (c # cs) escaped token parsed =
     (if escaped then scan_rule cs False (token @ [(c, True)]) parsed
      else if c = 92 then scan_rule cs True token parsed
      else if is_ascii_whitespace c then
        (if token \<noteq> [] then scan_rule cs False [] (parsed @ [token]) else scan_rule cs False token parsed)
      else scan_rule cs False (token @ [(c, False)]) parsed)"

fun char_atom :: "rchar \<times> bool \<Rightarrow> PatternAtom" where
  "char_atom (c, escaped) =
     (if c = STAR \<and> \<not> escaped then AnySequence
      else if c = QMARK \<and> \<not> escaped then AnyCharacter else Literal c)"

fun push_atoms :: "parsed_token \<Rightarrow> PatternAtom list \<Rightarrow> PatternAtom list" where
  "push_atoms [] atoms = atoms"
| "push_atoms (ce # rest) atoms =
     (let atom = char_atom ce
      in if atom = AnySequence \<and> atoms \<noteq> [] \<and> last atoms = AnySequence then push_atoms rest atoms
         else push_atoms rest (atoms @ [atom]))"

definition is_wildcard :: "rchar \<times> bool \<Rightarrow> bool" where
  "is_wildcard ce \<longleftrightarrow> \<not> snd ce \<and> (fst ce = STAR \<or> fst ce = QMARK)"

definition compile_rule :: "string \<Rightarrow> nat \<Rightarrow> rstr \<Rightarrow> CommandPolicyCompileError + CompiledRule" where
  "compile_rule list index source =
     (if 0 \<in> set source then Inl (NulByte list index)
      else let (escaped, token, parsed) = scan_rule source False [] []
           in if escaped then Inl (TrailingEscape list index)
              else let parsed_tokens = (if token \<noteq> [] then parsed @ [token] else parsed)
                   in if parsed_tokens = [] then Inl (EmptyRule list index)
                      else Inr \<lparr>cr_source = source,
                                cr_tokens = map (\<lambda>t. push_atoms t []) parsed_tokens,
                                cr_exact =
                                  (if list_ex (list_ex is_wildcard) parsed_tokens then None
                                   else Some (map (map fst) parsed_tokens))\<rparr>)"

definition compile_list :: "string \<Rightarrow> rstr list \<Rightarrow> CommandPolicyCompileError + CompiledRule list" where
  "compile_list name sources =
     try_map (\<lambda>(index, source). compile_rule name index source) (enumerate 0 sources)"

definition CompiledCommandPolicy_compile :: "CommandPolicy \<Rightarrow> CommandPolicyCompileError + CompiledCommandPolicy" where
  "CompiledCommandPolicy_compile policy =
     (case compile_list ''allowlist'' (cp_allowlist policy) of
        Inl e \<Rightarrow> Inl e
      | Inr allow \<Rightarrow>
          (case compile_list ''denylist'' (cp_denylist policy) of
             Inl e \<Rightarrow> Inl e
           | Inr deny \<Rightarrow>
               Inr \<lparr>cc_default_action = convert_action (cp_default_action policy),
                    cc_allow = allow, cc_deny = deny\<rparr>))"

subsection \<open>Evaluation\<close>

abbreviation SLASH :: rchar where "SLASH \<equiv> 47"

definition file_name :: "rstr \<Rightarrow> rstr option" where
  "file_name path =
     (let pieces = filter (\<lambda>p. p \<noteq> [] \<and> p \<noteq> [46]) (split_on SLASH path)
      in if pieces = [] \<or> last pieces = [46, 46] then None else Some (last pieces))"

text \<open>
  \<^verbatim>\<open>matches_with_program\<close>: the first argument is replaced by \<open>program\<close> when that is given, the others
  are compared as they are.
\<close>

fun with_program :: "rstr option \<Rightarrow> rstr list \<Rightarrow> rstr list" where
  "with_program (Some p) (_ # args) = p # args"
| "with_program _ argv = argv"

definition matches_with_program :: "CompiledRule \<Rightarrow> rstr list \<Rightarrow> rstr option \<Rightarrow> bool" where
  "matches_with_program rule argv program =
     (case cr_exact rule of
        Some exact \<Rightarrow>
          length exact = length argv \<and> list_all (\<lambda>(e, a). e = a) (zip exact (with_program program argv))
      | None \<Rightarrow>
          length (cr_tokens rule) = length argv \<and>
          list_all (\<lambda>(p, a). TokenPattern_matches p a) (zip (cr_tokens rule) (with_program program argv)))"

definition CompiledRule_matches :: "CompiledRule \<Rightarrow> rstr list \<Rightarrow> bool" where
  "CompiledRule_matches rule argv =
     (let first = (case argv of [] \<Rightarrow> None | p # _ \<Rightarrow> Some p)
      in if matches_with_program rule argv first then True
         else (let program_basename =
                 (case Option.bind first file_name of
                    Some b \<Rightarrow> if first = None \<or> Some b \<noteq> first then Some b else None
                  | None \<Rightarrow> None)
               in case program_basename of
                    Some basename \<Rightarrow> matches_with_program rule argv (Some basename)
                  | None \<Rightarrow> False))"

definition CompiledRule_kind :: "CompiledRule \<Rightarrow> MatchKind" where
  "CompiledRule_kind rule = (if cr_exact rule \<noteq> None then Exact else TokenWildcard)"

definition admission :: "AdmissionDisposition \<Rightarrow> CompiledRule \<Rightarrow> CommandAdmission" where
  "admission disposition rule =
     \<lparr>ca_disposition = disposition,
      ca_matched = \<lparr>mr_action = disposition, mr_kind = CompiledRule_kind rule, mr_source = Some (cr_source rule)\<rparr>\<rparr>"

definition evaluate :: "CompiledCommandPolicy \<Rightarrow> rstr list \<Rightarrow> CommandAdmission" where
  "evaluate policy argv =
     (case find (\<lambda>rule. CompiledRule_matches rule argv) (cc_deny policy) of
        Some rule \<Rightarrow> admission AdmitDeny rule
      | None \<Rightarrow>
          (case find (\<lambda>rule. CompiledRule_matches rule argv) (cc_allow policy) of
             Some rule \<Rightarrow> admission AdmitAllow rule
           | None \<Rightarrow>
               \<lparr>ca_disposition = cc_default_action policy,
                ca_matched = \<lparr>mr_action = cc_default_action policy, mr_kind = Default, mr_source = None\<rparr>\<rparr>))"

subsection \<open>The matcher computes \<open>amatch\<close>\<close>

lemma ex_le_Suc: "(\<exists>j \<le> Suc n. P j) \<longleftrightarrow> P 0 \<or> (\<exists>j \<le> n. P (Suc j))"
  by (metis Suc_le_mono le0 not0_implies_Suc)

lemma amatch_only_star: "amatch [AnySequence] v"
  by (auto intro: exI [of _ "length v"])

lemma amatch_append:
  "amatch (ps @ qs) v \<longleftrightarrow> (\<exists>j \<le> length v. amatch ps (take j v) \<and> amatch qs (drop j v))"
proof (induction ps arbitrary: v)
  case (Cons a ps)
  show ?case
  proof (cases "a = AnySequence")
    case True
    have "(\<exists>k \<le> length v. \<exists>j \<le> length (drop k v). amatch ps (take j (drop k v)) \<and> amatch qs (drop j (drop k v))) \<longleftrightarrow>
          (\<exists>j \<le> length v. (\<exists>k \<le> length (take j v). amatch ps (drop k (take j v))) \<and> amatch qs (drop j v))"
      (is "?L \<longleftrightarrow> ?R")
    proof
      assume ?L
      then obtain k j where "k \<le> length v" "j \<le> length v - k" "amatch ps (take j (drop k v))" "amatch qs (drop (j + k) v)"
        by auto
      then show ?R by (intro exI [of _ "j + k"]) (auto simp: drop_take intro!: exI [of _ k])
    next
      assume ?R
      then obtain j k where jk: "j \<le> length v" "k \<le> j" "amatch ps (drop k (take j v))" "amatch qs (drop j v)"
        by auto
      then show ?L by (intro exI [of _ k]) (auto simp: drop_take intro!: exI [of _ "j - k"])
    qed
    with True Cons.IH show ?thesis by simp
  next
    case False
    show ?thesis
    proof (cases v)
      case (Cons c cs)
      with False Cons.IH show ?thesis by (simp add: ex_le_Suc) blast
    qed (use False in auto)
  qed
qed (auto intro: exI [of _ 0])

text \<open>The three ways a pattern grows by one atom, on prefixes of the value.\<close>

lemma amatch_snoc_star: "amatch (ps @ [AnySequence]) (take j v) \<longleftrightarrow> (\<exists>k \<le> min j (length v). amatch ps (take k v))"
  unfolding amatch_append by (auto simp: amatch_only_star min_def simp del: amatch_star_simp split: if_splits)

lemma amatch_single: "a \<noteq> AnySequence \<Longrightarrow> amatch [a] v \<longleftrightarrow> (\<exists>c. v = [c] \<and> atom_accepts a c)"
  by (cases v) auto

lemma amatch_snoc_single:
  assumes "a \<noteq> AnySequence" "j \<le> length v"
  shows "amatch (ps @ [a]) (take j v) \<longleftrightarrow> (\<exists>k. j = Suc k \<and> amatch ps (take k v) \<and> atom_accepts a (v ! k))"
proof
  assume "amatch (ps @ [a]) (take j v)"
  then obtain k c where k: "k \<le> j" "amatch ps (take k v)" "drop k (take j v) = [c]" "atom_accepts a c"
    using assms(2) unfolding amatch_append amatch_single [OF assms(1)] by auto
  then have "length (drop k (take j v)) = 1" by simp
  then have j: "j = Suc k" using assms(2) by simp
  with k(3) assms(2) have "c = v ! k" by (simp add: drop_take take_Suc_conv_app_nth Cons_nth_drop_Suc [symmetric])
  with j k show "\<exists>k. j = Suc k \<and> amatch ps (take k v) \<and> atom_accepts a (v ! k)" by auto
next
  assume "\<exists>k. j = Suc k \<and> amatch ps (take k v) \<and> atom_accepts a (v ! k)"
  then obtain k where "j = Suc k" "amatch ps (take k v)" "atom_accepts a (v ! k)" by blast
  with assms show "amatch (ps @ [a]) (take j v)"
    by (auto simp: amatch_append amatch_single drop_take take_Suc_conv_app_nth
             Cons_nth_drop_Suc [symmetric] intro!: exI [of _ k])
qed

text \<open>One pass over row \<open>i\<close>, up to column \<open>k\<close>.\<close>

lemma reach_cells_star:
  assumes "atoms ! i = AnySequence" "k \<le> length v + 1" "t i = f" "t (Suc i) = (\<lambda>_. False)"
  shows "\<forall>t'. t' = fold (reach_cell atoms v i) [0..<k] t \<longrightarrow>
           (\<forall>j \<le> length v. t' i j \<longleftrightarrow> f j \<or> (j \<le> k \<and> (\<exists>h < j. f h))) \<and>
           (\<forall>j \<le> length v. t' (Suc i) j \<longleftrightarrow> j < k \<and> (\<exists>h \<le> j. f h)) \<and>
           (\<forall>r. r \<noteq> i \<longrightarrow> r \<noteq> Suc i \<longrightarrow> t' r = t r)"
  using assms(2)
proof (induction k)
  case (Suc k)
  define t1 where "t1 = fold (reach_cell atoms v i) [0..<k] t"
  from Suc have IH: "\<forall>j \<le> length v. t1 i j \<longleftrightarrow> f j \<or> (j \<le> k \<and> (\<exists>h < j. f h))"
    "\<forall>j \<le> length v. t1 (Suc i) j \<longleftrightarrow> j < k \<and> (\<exists>h \<le> j. f h)"
    "\<forall>r. r \<noteq> i \<longrightarrow> r \<noteq> Suc i \<longrightarrow> t1 r = t r"
    by (auto simp: t1_def)
  have k: "k \<le> length v" using Suc.prems by simp
  have cell: "t1 i k \<longleftrightarrow> (\<exists>h \<le> k. f h)" using IH(1) k by (auto simp: le_less)
  have step: "fold (reach_cell atoms v i) [0..<Suc k] t = reach_cell atoms v i k t1"
    by (simp add: t1_def)
  show ?case
    unfolding step using IH cell k assms(1)
    by (auto simp: reach_cell_def mark_def Let_def le_Suc_eq less_Suc_eq)
qed (use assms in auto)

lemma reach_cells_single:
  assumes "atoms ! i \<noteq> AnySequence" "k \<le> length v + 1" "t i = f" "t (Suc i) = (\<lambda>_. False)"
  shows "\<forall>t'. t' = fold (reach_cell atoms v i) [0..<k] t \<longrightarrow>
           t' i = f \<and>
           (\<forall>j. t' (Suc i) j \<longleftrightarrow> (\<exists>h < k. j = Suc h \<and> h < length v \<and> f h \<and> atom_accepts (atoms ! i) (v ! h))) \<and>
           (\<forall>r. r \<noteq> i \<longrightarrow> r \<noteq> Suc i \<longrightarrow> t' r = t r)"
  using assms(2)
proof (induction k)
  case (Suc k)
  define t1 where "t1 = fold (reach_cell atoms v i) [0..<k] t"
  from Suc have IH: "t1 i = f"
    "\<forall>j. t1 (Suc i) j \<longleftrightarrow> (\<exists>h < k. j = Suc h \<and> h < length v \<and> f h \<and> atom_accepts (atoms ! i) (v ! h))"
    "\<forall>r. r \<noteq> i \<longrightarrow> r \<noteq> Suc i \<longrightarrow> t1 r = t r"
    by (auto simp: t1_def)
  have step: "fold (reach_cell atoms v i) [0..<Suc k] t = reach_cell atoms v i k t1"
    by (simp add: t1_def)
  show ?case
    unfolding step using IH assms(1)
    by (cases "atoms ! i") (auto simp: reach_cell_def mark_def less_Suc_eq)
qed (use assms in auto)

lemma reach_row_next:
  assumes "i < length atoms" "\<forall>j \<le> length v. t i j \<longleftrightarrow> amatch (take i atoms) (take j v)"
    and "\<forall>r > i. t r = (\<lambda>_. False)"
  defines "t' \<equiv> reach_row atoms v i t"
  shows "(\<forall>j \<le> length v. t' (Suc i) j \<longleftrightarrow> amatch (take (Suc i) atoms) (take j v)) \<and> (\<forall>r > Suc i. t' r = (\<lambda>_. False))"
proof (cases "atoms ! i = AnySequence")
  case True
  have "(\<forall>j \<le> length v. t' (Suc i) j \<longleftrightarrow> (\<exists>h \<le> j. t i h))" "\<forall>r. r \<noteq> i \<longrightarrow> r \<noteq> Suc i \<longrightarrow> t' r = t r"
    using reach_cells_star [OF True le_refl refl, of t v] assms(3) by (auto simp: t'_def reach_row_def)
  then show ?thesis
    using assms(1-3) True by (auto simp: take_Suc_conv_app_nth amatch_snoc_star)
next
  case False
  have "\<forall>j. t' (Suc i) j \<longleftrightarrow> (\<exists>h. j = Suc h \<and> h < length v \<and> t i h \<and> atom_accepts (atoms ! i) (v ! h))"
    "\<forall>r. r \<noteq> i \<longrightarrow> r \<noteq> Suc i \<longrightarrow> t' r = t r"
    using reach_cells_single [OF False le_refl refl, of t v] assms(3) by (auto simp: t'_def reach_row_def)
  then show ?thesis
    using assms(1-3) by (auto simp: take_Suc_conv_app_nth amatch_snoc_single [OF False])
qed

lemma reach_rows:
  "n \<le> length atoms \<Longrightarrow>
   (\<forall>j \<le> length v. fold (reach_row atoms v) [0..<n] (mark 0 0 (\<lambda>_ _. False)) n j
                     \<longleftrightarrow> amatch (take n atoms) (take j v)) \<and>
   (\<forall>r > n. fold (reach_row atoms v) [0..<n] (mark 0 0 (\<lambda>_ _. False)) r = (\<lambda>_. False))"
proof (induction n)
  case 0
  then show ?case by (auto simp: mark_def)
next
  case (Suc n)
  then show ?case using reach_row_next [of n atoms v] by simp
qed

lemma TokenPattern_matches_amatch: "TokenPattern_matches atoms v \<longleftrightarrow> amatch atoms v"
  using reach_rows [of "length atoms" atoms v] by (auto simp: TokenPattern_matches_def)

subsection \<open>What a rule and a policy mean\<close>

definition parse_tokens :: "rstr \<Rightarrow> parsed_token list" where
  "parse_tokens source =
     (let (_, token, parsed) = scan_rule source False [] []
      in if token \<noteq> [] then parsed @ [token] else parsed)"

definition argv_matches :: "parsed_token list \<Rightarrow> rstr list \<Rightarrow> bool" where
  "argv_matches ps argv \<longleftrightarrow> list_all2 (\<lambda>token arg. amatch (map char_atom token) arg) ps argv"

text \<open>
  A rule text matches an argv vector token by token, the program being taken as it is or by the last
  component of its path.
\<close>

definition source_matches :: "rstr \<Rightarrow> rstr list \<Rightarrow> bool" where
  "source_matches source argv \<longleftrightarrow>
     argv_matches (parse_tokens source) argv \<or>
     (\<exists>program args basename. argv = program # args \<and> file_name program = Some basename \<and>
        argv_matches (parse_tokens source) (basename # args))"

lemma amatch_star_star: "amatch (AnySequence # AnySequence # ps) v \<longleftrightarrow> amatch (AnySequence # ps) v"
proof -
  have "(\<exists>k \<le> length v. amatch (AnySequence # ps) (drop k v)) \<longleftrightarrow> amatch (AnySequence # ps) v"
    using amatch_star_drop [of ps _ v] by (metis drop0 le0)
  then show ?thesis by (simp only: amatch_star_iff [of "AnySequence # ps"])
qed

lemma push_atoms_amatch: "amatch (push_atoms token atoms) v \<longleftrightarrow> amatch (atoms @ map char_atom token) v"
proof (induction token arbitrary: atoms)
  case (Cons ce token)
  show ?case
  proof (cases "char_atom ce = AnySequence \<and> atoms \<noteq> [] \<and> last atoms = AnySequence")
    case True
    then obtain xs where "atoms = xs @ [AnySequence]" by (metis append_butlast_last_id)
    with True Cons.IH [of atoms] show ?thesis
      by (simp add: amatch_append [of xs] amatch_star_star Let_def del: amatch_star_simp)
  next
    case False
    then show ?thesis using Cons.IH [of "atoms @ [char_atom ce]"] by (auto simp: Let_def)
  qed
qed simp

lemma amatch_literals: "amatch (map Literal s) v \<longleftrightarrow> v = s"
  by (induction s arbitrary: v) (auto split: list.splits)

lemma char_atom_literal: "\<not> is_wildcard ce \<Longrightarrow> char_atom ce = Literal (fst ce)"
  by (cases ce) (auto simp: is_wildcard_def)

lemma token_literal:
  assumes "\<not> list_ex is_wildcard token"
  shows "amatch (map char_atom token) v \<longleftrightarrow> v = map fst token"
proof -
  have "map char_atom token = map Literal (map fst token)"
    using assms by (auto simp: list_ex_iff char_atom_literal)
  then show ?thesis by (simp only: amatch_literals)
qed

lemma length_with_program [simp]: "length (with_program program argv) = length argv"
  by (cases "(program, argv)" rule: with_program.cases) auto

lemma list_all_zip:
  "length xs = length argv \<and> list_all (\<lambda>(x, y). P x y) (zip xs (with_program program argv))
   \<longleftrightarrow> list_all2 P xs (with_program program argv)"
  by (auto simp: list_all2_iff list_all_iff)

lemma compile_rule_Inr:
  assumes "compile_rule l i source = Inr rule"
  shows "rule = \<lparr>cr_source = source, cr_tokens = map (\<lambda>t. push_atoms t []) (parse_tokens source),
                 cr_exact = (if list_ex (list_ex is_wildcard) (parse_tokens source) then None
                             else Some (map (map fst) (parse_tokens source)))\<rparr>"
  using assms by (auto simp: compile_rule_def parse_tokens_def Let_def split: if_splits prod.splits)

lemma rule_matches_with_program:
  assumes "compile_rule l i source = Inr rule"
  shows "matches_with_program rule argv program \<longleftrightarrow> argv_matches (parse_tokens source) (with_program program argv)"
proof (cases "list_ex (list_ex is_wildcard) (parse_tokens source)")
  case True
  have "list_all2 TokenPattern_matches (map (\<lambda>t. push_atoms t []) ps) ws \<longleftrightarrow> argv_matches ps ws" for ps ws
    by (simp add: argv_matches_def list_all2_map1 TokenPattern_matches_amatch push_atoms_amatch)
  with True show ?thesis
    by (simp add: compile_rule_Inr [OF assms] matches_with_program_def list_all_zip del: length_map)
next
  case False
  have "list_all2 (=) (map (map fst) ps) ws \<longleftrightarrow> argv_matches ps ws" if "\<not> list_ex (list_ex is_wildcard) ps" for ps ws
    using that unfolding argv_matches_def list_all2_map1
    by (intro list.rel_cong_simp refl) (auto simp: token_literal list_ex_iff simp_implies_def)
  with False show ?thesis
    by (simp add: compile_rule_Inr [OF assms] matches_with_program_def list_all_zip del: length_map)
qed

lemma rule_matches_source:
  assumes "compile_rule l i source = Inr rule"
  shows "CompiledRule_matches rule argv \<longleftrightarrow> source_matches source argv"
  by (cases argv)
     (auto simp: CompiledRule_matches_def Let_def rule_matches_with_program [OF assms] source_matches_def
           split: option.splits)

lemma compile_list_rules:
  assumes "compile_list l sources = Inr rules"
  shows "(\<exists>rule \<in> set rules. CompiledRule_matches rule argv) \<longleftrightarrow> (\<exists>s \<in> set sources. source_matches s argv)"
proof -
  from assms have "list_all2 (\<lambda>(i, s) rule. compile_rule l i s = Inr rule) (enumerate 0 sources) rules"
    unfolding compile_list_def try_map_Inr_iff by (simp add: case_prod_unfold)
  then have "list_all2 (\<lambda>(i, s) rule. CompiledRule_matches rule argv = source_matches s argv) (enumerate 0 sources) rules"
    by (rule list_all2_mono) (auto simp: rule_matches_source)
  then show ?thesis
    unfolding list_all2_conv_all_nth
    by (auto simp: in_set_conv_nth nth_enumerate_eq) (metis nth_mem)+
qed

lemma evaluate_disposition:
  "ca_disposition (evaluate policy argv) = AdmitAllow \<longleftrightarrow>
     \<not> (\<exists>rule \<in> set (cc_deny policy). CompiledRule_matches rule argv) \<and>
     ((\<exists>rule \<in> set (cc_allow policy). CompiledRule_matches rule argv) \<or> cc_default_action policy = AdmitAllow)"
  by (auto simp: evaluate_def admission_def find_None_iff split: option.splits dest!: find_Some_D)

text \<open>
  C14: under a compiled policy a command is admitted exactly when no rule text of the deny list
  matches it and either a rule text of the allow list matches or the default action allows.  Matching
  is token by token with the declared wildcards: the table algorithm, the merging of adjacent
  stars and the comparison by equality of wildcard-free rules all agree with it.
\<close>

theorem command_policy_decision:
  assumes "CompiledCommandPolicy_compile policy = Inr compiled"
  shows "ca_disposition (evaluate compiled argv) = AdmitAllow \<longleftrightarrow>
           \<not> (\<exists>s \<in> set (cp_denylist policy). source_matches s argv) \<and>
           ((\<exists>s \<in> set (cp_allowlist policy). source_matches s argv) \<or> cp_default_action policy = Allow)"
proof -
  obtain allow deny where c: "compile_list ''allowlist'' (cp_allowlist policy) = Inr allow"
    "compile_list ''denylist'' (cp_denylist policy) = Inr deny"
    "compiled = \<lparr>cc_default_action = convert_action (cp_default_action policy), cc_allow = allow, cc_deny = deny\<rparr>"
    using assms by (auto simp: CompiledCommandPolicy_compile_def split: sum.splits)
  have "convert_action (cp_default_action policy) = AdmitAllow \<longleftrightarrow> cp_default_action policy = Allow"
    by (cases "cp_default_action policy") auto
  then show ?thesis
    by (simp add: evaluate_disposition c(3) compile_list_rules [OF c(1)] compile_list_rules [OF c(2)])
qed

definition example_commands :: CommandPolicy where
  "example_commands =
     \<lparr>cp_default_action = Deny, cp_allowlist = [str ''git *''], cp_denylist = [str ''git push''], cp_log_blocked = True\<rparr>"

definition example_compiled_commands :: CompiledCommandPolicy where
  "example_compiled_commands = projr (CompiledCommandPolicy_compile example_commands)"

lemma example_commands_compiled:
  "CompiledCommandPolicy_compile example_commands = Inr example_compiled_commands"
  by code_simp

lemma example_commands_evaluated:
  "ca_disposition (evaluate example_compiled_commands [str ''/usr/bin/git'', str ''log'']) = AdmitAllow"
  by code_simp

theorem command_policy_decision_witness:
  "CompiledCommandPolicy_compile example_commands = Inr example_compiled_commands \<and>
   (\<exists>s \<in> set (cp_allowlist example_commands). source_matches s [str ''/usr/bin/git'', str ''log''])"
  using command_policy_decision [OF example_commands_compiled, of "[str ''/usr/bin/git'', str ''log'']"]
    example_commands_compiled example_commands_evaluated
  by (simp add: example_commands_def del: str_simps)

subsection \<open>Escaping\<close>

definition escape_rule :: "rstr list \<Rightarrow> rstr" where
  "escape_rule argv = join_with 32 (map backslash_escape argv)"

lemma scan_escaped:
  "scan_rule (backslash_escape token @ rest) False acc parsed
   = scan_rule rest False (acc @ map (\<lambda>c. (c, True)) token) parsed"
  by (induction token arbitrary: acc) auto

lemma scan_escape_rule:
  assumes "argv \<noteq> []" "\<forall>a \<in> set argv. a \<noteq> []"
  shows "\<exists>token ps. scan_rule (escape_rule argv) False [] parsed = (False, token, parsed @ ps) \<and> token \<noteq> [] \<and>
           ps @ [token] = map (map (\<lambda>c. (c, True))) argv"
  using assms
proof (induction argv arbitrary: parsed)
  case (Cons a argv)
  show ?case
  proof (cases argv)
    case Nil
    then show ?thesis using Cons.prems scan_escaped [of a "[]" "[]" parsed] by (simp add: escape_rule_def)
  next
    case (Cons b bs)
    have "escape_rule (a # argv) = backslash_escape a @ 32 # escape_rule argv"
      using Cons by (simp add: escape_rule_def)
    moreover have "is_ascii_whitespace 32" by (simp add: is_ascii_whitespace_def)
    ultimately have "scan_rule (escape_rule (a # argv)) False [] parsed
        = scan_rule (escape_rule argv) False [] (parsed @ [map (\<lambda>c. (c, True)) a])"
      using Cons.prems by (simp add: scan_escaped)
    with Cons Cons.IH [of "parsed @ [map (\<lambda>c. (c, True)) a]"] Cons.prems show ?thesis by auto
  qed
qed simp

text \<open>
  every argv vector of non-empty arguments without NUL can be written as a rule by escaping each
  character, and that rule matches this vector, or the same arguments under a program path with that
  last component, and nothing else: no character of an escaped argument acts as a wildcard, a
  separator or an escape.
\<close>

theorem escape_rule_exact:
  assumes "argv \<noteq> []" and "\<forall>a \<in> set argv. a \<noteq> [] \<and> 0 \<notin> set a"
  shows "\<exists>rule. compile_rule l i (escape_rule argv) = Inr rule \<and> cr_exact rule = Some argv \<and>
           (\<forall>args. CompiledRule_matches rule args \<longleftrightarrow>
              args = argv \<or> (\<exists>p rest. args = p # rest \<and> file_name p = Some (hd argv) \<and> rest = tl argv))"
proof -
  have ne: "\<forall>a \<in> set argv. a \<noteq> []" using assms(2) by blast
  from scan_escape_rule [OF assms(1) ne, of "[]"] obtain token ps
    where scan: "scan_rule (escape_rule argv) False [] [] = (False, token, ps)" "token \<noteq> []"
      and ps: "ps @ [token] = map (map (\<lambda>c. (c, True))) argv" by auto
  have parse: "parse_tokens (escape_rule argv) = map (map (\<lambda>c. (c, True))) argv"
    by (simp add: parse_tokens_def scan ps)
  have "0 \<notin> set (escape_rule argv)"
    using assms(2) by (induction argv rule: induct_list012) (auto simp: escape_rule_def dest!: set_backslash_escape)
  then obtain rule where rule: "compile_rule l i (escape_rule argv) = Inr rule"
    by (simp add: compile_rule_def scan)
  have plain: "\<not> list_ex (list_ex is_wildcard) (parse_tokens (escape_rule argv))"
    by (auto simp: parse list_ex_iff is_wildcard_def)
  have matches: "argv_matches (parse_tokens (escape_rule argv)) args \<longleftrightarrow> args = argv" for args
  proof -
    have "amatch (map char_atom (map (\<lambda>c. (c, True)) a)) v \<longleftrightarrow> v = a" for a v
      by (subst token_literal) (auto simp: list_ex_iff is_wildcard_def comp_def)
    then show ?thesis
      unfolding argv_matches_def parse list_all2_map1 list_all2_conv_all_nth list_eq_iff_nth_eq by auto
  qed
  have "cr_exact rule = Some argv"
    using compile_rule_Inr [OF rule] plain by (simp add: parse comp_def)
  moreover have "CompiledRule_matches rule args \<longleftrightarrow>
      args = argv \<or> (\<exists>p rest. args = p # rest \<and> file_name p = Some (hd argv) \<and> rest = tl argv)" for args
    unfolding rule_matches_source [OF rule] source_matches_def matches using assms(1) by (cases argv) auto
  ultimately show ?thesis using rule by blast
qed

theorem escape_rule_exact_witness:
  "\<exists>rule. compile_rule ''allowlist'' 0 (escape_rule [str ''ls'', str ''a *'']) = Inr rule \<and>
     CompiledRule_matches rule [str ''ls'', str ''a *'']"
proof -
  have "[str ''ls'', str ''a *''] \<noteq> []" "\<forall>a \<in> set [str ''ls'', str ''a *'']. a \<noteq> [] \<and> 0 \<notin> set a"
    by simp_all
  from escape_rule_exact [OF this] show ?thesis by blast
qed

end
