(* ===== verification/Utf8.thy ===== *)
theory Utf8
  imports Rust_Prelude
begin

section \<open>UTF-8\<close>

text \<open>
  \<^verbatim>\<open>String::from_utf8\<close> and \<^verbatim>\<open>str::as_bytes\<close> of the standard library: the encoding of Unicode scalar
  values and the strict decoder, which refuses overlong forms, surrogates and values past the
  last plane.  The decoder works on the values of the bytes.
\<close>

definition scalar :: "rchar \<Rightarrow> bool" where
  "scalar c \<longleftrightarrow> 0 \<le> c \<and> c < 0xD800 \<or> 0xDFFF < c \<and> c \<le> 0x10FFFF"

definition encode_char :: "rchar \<Rightarrow> int list" where
  "encode_char c =
     (if c < 0x80 then [c]
      else if c < 0x800 then [0xC0 + c div 64, 0x80 + c mod 64]
      else if c < 0x10000 then [0xE0 + c div 4096, 0x80 + c div 64 mod 64, 0x80 + c mod 64]
      else [0xF0 + c div 262144, 0x80 + c div 4096 mod 64, 0x80 + c div 64 mod 64, 0x80 + c mod 64])"

definition continuation :: "int \<Rightarrow> bool" where
  "continuation b \<longleftrightarrow> 0x80 \<le> b \<and> b < 0xC0"

fun decode_values :: "int list \<Rightarrow> rstr option" where
  "decode_values [] = Some []"
| "decode_values (b # bs) =
     (if 0 \<le> b \<and> b < 0x80 then map_option (Cons b) (decode_values bs)
      else if 0xC2 \<le> b \<and> b < 0xE0 then
        (case bs of
           c1 # rest \<Rightarrow>
             if continuation c1
             then map_option (Cons ((b - 0xC0) * 64 + (c1 - 0x80))) (decode_values rest) else None
         | [] \<Rightarrow> None)
      else if 0xE0 \<le> b \<and> b < 0xF0 then
        (case bs of
           c1 # c2 # rest \<Rightarrow>
             (let v = (b - 0xE0) * 4096 + (c1 - 0x80) * 64 + (c2 - 0x80)
              in if continuation c1 \<and> continuation c2 \<and> 0x800 \<le> v \<and> scalar v
                 then map_option (Cons v) (decode_values rest) else None)
         | _ \<Rightarrow> None)
      else if 0xF0 \<le> b \<and> b < 0xF5 then
        (case bs of
           c1 # c2 # c3 # rest \<Rightarrow>
             (let v = (b - 0xF0) * 262144 + (c1 - 0x80) * 4096 + (c2 - 0x80) * 64 + (c3 - 0x80)
              in if continuation c1 \<and> continuation c2 \<and> continuation c3 \<and> 0x10000 \<le> v \<and> scalar v
                 then map_option (Cons v) (decode_values rest) else None)
         | _ \<Rightarrow> None)
      else None)"

definition from_utf8 :: "bytes \<Rightarrow> rstr option" where
  "from_utf8 bs = decode_values (map uint bs)"

definition as_bytes :: "rstr \<Rightarrow> bytes" where
  "as_bytes s = map word_of_int (concat (map encode_char s))"

subsection \<open>Round trips\<close>

lemma encode_char_range: "scalar c \<Longrightarrow> b \<in> set (encode_char c) \<Longrightarrow> 0 \<le> b \<and> b < 256"
  unfolding encode_char_def scalar_def by (auto split: if_splits)

lemma div_mod_64:
  fixes c :: int
  shows "c div 64 * 64 + c mod 64 = c" "c div 4096 * 64 + c div 64 mod 64 = c div 64"
    "c div 262144 * 64 + c div 4096 mod 64 = c div 4096"
proof -
  show "c div 64 * 64 + c mod 64 = c" by simp
  have "c div 4096 = c div 64 div 64" "c div 262144 = c div 4096 div 64"
    by (simp_all add: zdiv_zmult2_eq [symmetric])
  then show "c div 4096 * 64 + c div 64 mod 64 = c div 64" "c div 262144 * 64 + c div 4096 mod 64 = c div 4096"
    by simp_all
qed

lemma decode_encode_char:
  assumes "scalar c"
  shows "decode_values (encode_char c @ rest) = map_option (Cons c) (decode_values rest)"
proof -
  have v3: "c div 4096 * 4096 + c div 64 mod 64 * 64 + c mod 64 = c"
    and v4: "c div 262144 * 262144 + c div 4096 mod 64 * 4096 + c div 64 mod 64 * 64 + c mod 64 = c"
    using div_mod_64 [of c] by linarith+
  consider "c < 0x80" | "0x80 \<le> c" "c < 0x800" | "0x800 \<le> c" "c < 0x10000" | "0x10000 \<le> c" by linarith
  then show ?thesis
  proof cases
    case 1
    with assms show ?thesis by (simp add: encode_char_def scalar_def)
  next
    case 2
    then have "2 \<le> c div 64" "c div 64 < 32" by auto
    with 2 show ?thesis
      using div_mod_64(1) [of c] by (simp add: encode_char_def continuation_def)
  next
    case 3
    then have "0 \<le> c div 4096" "c div 4096 < 16" by auto
    with 3 assms show ?thesis
      by (simp add: encode_char_def continuation_def Let_def v3 v3 [unfolded add.assoc])
  next
    case 4
    then have "0 \<le> c div 262144" "c div 262144 < 5" using assms by (auto simp: scalar_def)
    with 4 assms show ?thesis
      by (simp add: encode_char_def continuation_def Let_def v4 v4 [unfolded add.assoc])
  qed
qed

lemma decode_encode: "\<forall>c \<in> set s. scalar c \<Longrightarrow> decode_values (concat (map encode_char s)) = Some s"
  by (induction s) (simp_all add: decode_encode_char)

lemma from_utf8_as_bytes: "\<forall>c \<in> set s. scalar c \<Longrightarrow> from_utf8 (as_bytes s) = Some s"
proof -
  assume s: "\<forall>c \<in> set s. scalar c"
  have "map uint (map word_of_int vs :: bytes) = vs" if "\<forall>b \<in> set vs. 0 \<le> b \<and> b < 256" for vs
    using that by (induction vs) (auto simp: uint_word_of_int take_bit_int_eq_self)
  moreover have "\<forall>b \<in> set (concat (map encode_char s)). 0 \<le> b \<and> b < 256"
    using s encode_char_range by auto
  ultimately show ?thesis
    using decode_encode [OF s] by (simp add: from_utf8_def as_bytes_def)
qed

lemma length_as_bytes: "length (as_bytes s) = rlen s"
proof (induction s)
  case (Cons c s)
  have "length (encode_char c) = utf8_width c" by (simp add: encode_char_def utf8_width_def)
  with Cons show ?case by (simp add: as_bytes_def)
qed (simp add: as_bytes_def)

end
