(* ===== verification/Git_Branch.thy ===== *)
theory Git_Branch
  imports Glob
begin

section \<open>Branch policy of the Git guard (crates/sendbox-git/src/pattern.rs, error.rs)\<close>

text \<open>
  Normalization of branch names, the compiled branch policy and its check.  A formatted message is
  its template with the values that fill the holes, in order.
\<close>

type_synonym message = "string \<times> rstr list"

datatype Operation = Push | Pull

datatype GuardError =
  InvalidPolicy message
| InvalidInvocation message
| Denied Operation message
| AmbiguousRepository
| UnresolvedState message
| InvalidGitBinary message
| ProbeTimeout
| ProbeOutputLimit
| Process

subsection \<open>Names\<close>

abbreviation PLUS :: rchar where "PLUS \<equiv> 43"

definition forbidden_branch_char :: "rchar \<Rightarrow> bool" where
  "forbidden_branch_char c \<longleftrightarrow> is_control c \<or> c \<in> set (str '' ~^:?*['' @ [92, 0x7f])"

definition valid_branch_name :: "rstr \<Rightarrow> bool" where
  "valid_branch_name value \<longleftrightarrow>
     value \<noteq> [] \<and> value \<noteq> str ''@'' \<and>
     \<not> (starts_with value (str ''.'') \<or> starts_with value (str ''/'')) \<and>
     \<not> (ends_with value (str ''.'') \<or> ends_with value (str ''/'')) \<and>
     \<not> ends_with value (str ''.lock'') \<and>
     \<not> contains_str value (str ''..'') \<and>
     \<not> contains_str value (str ''@'' @ str ''{'') \<and>
     \<not> contains_str value (str ''//'') \<and>
     \<not> list_ex forbidden_branch_char value"

definition valid_github_login :: "rstr \<Rightarrow> bool" where
  "valid_github_login value \<longleftrightarrow>
     rlen value \<le> 39 \<and> \<not> starts_with value (str ''-'') \<and> \<not> ends_with value (str ''-'') \<and>
     \<not> contains_str value (str ''--'') \<and> list_all (\<lambda>b. is_ascii_alphanumeric b \<or> b = 45) value"

definition strip_ref_prefix :: "rstr \<Rightarrow> rstr option" where
  "strip_ref_prefix value =
     (case strip_prefix value (str ''refs/heads/'') of
        Some remainder \<Rightarrow> Some remainder
      | None \<Rightarrow>
          (case strip_prefix value (str ''refs/remotes/'') of
             Some remainder \<Rightarrow> map_option snd (split_once 47 remainder)
           | None \<Rightarrow> if starts_with value (str ''refs/'') then None else Some value))"

definition normalize_branch :: "rstr \<Rightarrow> rstr option" where
  "normalize_branch branch =
     (case strip_ref_prefix (trim (dropWhile (\<lambda>c. c = PLUS) (trim branch))) of
        None \<Rightarrow> None
      | Some stripped \<Rightarrow>
          (let value = trim stripped
           in if value = str ''HEAD'' \<or> value = str ''@'' \<or> starts_with value (str ''+'')
                 \<or> starts_with value (str ''refs/'')
              then None
              else if valid_branch_name value then Some value else None))"

subsection \<open>Compilation and check\<close>

record BranchPolicyConfiguration =
  bc_enabled :: bool
  bc_username :: "rstr option"
  bc_protected_branches :: "rstr list"
  bc_allowed_branch_patterns :: "rstr list"

definition default_BranchPolicyConfiguration :: BranchPolicyConfiguration where
  "default_BranchPolicyConfiguration =
     \<lparr>bc_enabled = True, bc_username = None,
      bc_protected_branches = [str ''main'', str ''master''],
      bc_allowed_branch_patterns = [str ''{username}/*'', str ''copilot/*'', str ''feature/*'']\<rparr>"

record BranchPolicy =
  bp_enabled :: bool
  bp_protected_branches :: "rstr list"
  bp_allowed_patterns :: "rstr list"

definition configured_username :: "BranchPolicyConfiguration \<Rightarrow> rstr option" where
  "configured_username cfg =
     (case bc_username cfg of
        None \<Rightarrow> None
      | Some u \<Rightarrow> if trim u = [] then None else Some (trim u))"

text \<open>One step of the \<^verbatim>\<open>filter_map\<close>: \<open>None\<close> drops the pattern.\<close>

definition compile_pattern :: "rstr option \<Rightarrow> rstr \<Rightarrow> (GuardError + rstr) option" where
  "compile_pattern username raw =
     (let pattern = trim raw
      in if pattern = [] then Some (Inl (InvalidPolicy (''allowed branch pattern is empty'', [])))
         else if 0 \<in> set pattern \<or> 91 \<in> set pattern \<or> 93 \<in> set pattern
         then Some (Inl (InvalidPolicy (''allowed branch pattern `{}` is unsupported'', [pattern])))
         else if contains_str pattern (str ''{username}'')
         then map_option (\<lambda>u. Inr (str_replace (str ''{username}'') u pattern)) username
         else Some (Inr pattern))"

definition BranchPolicy_compile :: "BranchPolicyConfiguration \<Rightarrow> GuardError + BranchPolicy" where
  "BranchPolicy_compile cfg =
     (let username = configured_username cfg
      in if (case username of Some u \<Rightarrow> \<not> valid_github_login u | None \<Rightarrow> False)
         then Inl (InvalidPolicy (''branch protection username is invalid'', []))
         else case try_map (\<lambda>branch. case normalize_branch branch of
                        Some n \<Rightarrow> Inr n
                      | None \<Rightarrow> Inl (InvalidPolicy (''protected branch `{}` is invalid'', [branch])))
                     (bc_protected_branches cfg) of
             Inl e \<Rightarrow> Inl e
           | Inr protected \<Rightarrow>
               (case try_map id (List.map_filter (compile_pattern username) (bc_allowed_branch_patterns cfg)) of
                  Inl e \<Rightarrow> Inl e
                | Inr patterns \<Rightarrow>
                    Inr \<lparr>bp_enabled = bc_enabled cfg, bp_protected_branches = protected,
                         bp_allowed_patterns = patterns\<rparr>))"

definition check_branch :: "BranchPolicy \<Rightarrow> rstr \<Rightarrow> Operation \<Rightarrow> string \<Rightarrow> GuardError + rstr" where
  "check_branch p branch operation label =
     (case normalize_branch branch of
        None \<Rightarrow> Inl (Denied operation (''cannot safely resolve {} branch `{}`'', [str label, branch]))
      | Some normalized \<Rightarrow>
          if \<not> bp_enabled p then Inr normalized
          else if list_ex (\<lambda>protected. eq_ignore_ascii_case protected normalized) (bp_protected_branches p)
          then Inl (Denied operation (''protected branch `{}`'', [normalized]))
          else if \<not> list_ex (\<lambda>pattern. glob_matches normalized pattern) (bp_allowed_patterns p)
          then Inl (Denied operation
                 (''{} branch `{}` does not match an allowed branch pattern'', [str label, normalized]))
          else Inr normalized)"

subsection \<open>Properties\<close>

lemma normalize_branch_Some:
  assumes "normalize_branch b = Some n"
  shows "trim n = n \<and> valid_branch_name n \<and> n \<noteq> str ''HEAD'' \<and> n \<noteq> str ''@'' \<and>
         \<not> starts_with n (str ''+'') \<and> \<not> starts_with n (str ''refs/'')"
  using assms
  by (auto simp: normalize_branch_def Let_def trim_idem simp del: str_simps split: option.splits if_splits)

lemma starts_with_refs: "\<not> starts_with n (str ''refs/'') \<Longrightarrow> strip_ref_prefix n = Some n"
  by (auto simp: strip_ref_prefix_def starts_with_iff strip_prefix_Some_iff split: option.splits)

lemma not_plus_dropWhile: "\<not> starts_with n (str ''+'') \<Longrightarrow> dropWhile (\<lambda>c. c = PLUS) n = n"
  by (cases n) (auto simp: starts_with_iff)

lemma normalize_branch_id:
  assumes "normalize_branch b = Some n"
  shows "normalize_branch n = Some n"
proof -
  note n = normalize_branch_Some [OF assms]
  then have "dropWhile (\<lambda>c. c = PLUS) n = n" "strip_ref_prefix n = Some n"
    by (blast intro: not_plus_dropWhile starts_with_refs)+
  with n show ?thesis by (simp add: normalize_branch_def Let_def del: str_simps)
qed

text \<open>
  Normalization yields a valid branch name that is its own normal form; in particular it is
  never empty, \<^verbatim>\<open>HEAD\<close>, a qualified \<^verbatim>\<open>refs/\<close> name, or a name with a glob, control or
  revision character.
\<close>

theorem normalize_branch_idempotent:
  assumes "normalize_branch b = Some n"
  shows "normalize_branch n = Some n \<and> valid_branch_name n \<and> n \<noteq> str ''HEAD'' \<and> \<not> starts_with n (str ''refs/'')"
  using normalize_branch_id [OF assms] normalize_branch_Some [OF assms] by blast

theorem normalize_branch_idempotent_witness:
  "normalize_branch (str '' +refs/heads/feature/x '') = Some (str ''feature/x'') \<and>
   normalize_branch (str ''feature/x'') = Some (str ''feature/x'')"
proof -
  have n: "normalize_branch (str '' +refs/heads/feature/x '') = Some (str ''feature/x'')" by code_simp
  from normalize_branch_idempotent [OF n] n show ?thesis by blast
qed

lemma valid_branch_no_star: "valid_branch_name n \<Longrightarrow> STAR \<notin> set n"
  by (auto simp: valid_branch_name_def list_ex_iff forbidden_branch_char_def)

lemma check_branch_exact:
  "check_branch p b operation label = Inr n \<longleftrightarrow>
     normalize_branch b = Some n \<and>
     (bp_enabled p \<longrightarrow>
        \<not> (\<exists>q \<in> set (bp_protected_branches p). eq_ignore_ascii_case q n) \<and>
        (\<exists>q \<in> set (bp_allowed_patterns p). glob_spec n q))"
proof -
  have "glob_matches m q \<longleftrightarrow> glob_spec m q" if "normalize_branch b = Some m" for m q
    using glob_matches_sound glob_matches_complete valid_branch_no_star normalize_branch_Some [OF that] by blast
  then show ?thesis
    by (auto simp: check_branch_def list_ex_iff split: option.splits)
qed

text \<open>
  the check accepts a branch exactly when its normal form exists and, with protection enabled, is
  no protected branch up to ASCII case and matches an allowed pattern in the declarative meaning of
  globs.  Branch names contain no star, so the matcher's treatment of stars in values plays no role.
\<close>

theorem check_branch_iff:
  "check_branch p b operation label = Inr n \<longleftrightarrow>
     normalize_branch b = Some n \<and>
     (bp_enabled p \<longrightarrow>
        \<not> (\<exists>q \<in> set (bp_protected_branches p). eq_ignore_ascii_case q n) \<and>
        (\<exists>q \<in> set (bp_allowed_patterns p). glob_spec n q))"
  by (rule check_branch_exact)

definition example_branch_policy :: BranchPolicy where
  "example_branch_policy =
     \<lparr>bp_enabled = True, bp_protected_branches = [str ''main''], bp_allowed_patterns = [str ''feature/*'']\<rparr>"

theorem check_branch_iff_witness:
  "check_branch example_branch_policy (str ''refs/heads/feature/x'') Push ''source'' = Inr (str ''feature/x'') \<and>
   (\<exists>q \<in> set (bp_allowed_patterns example_branch_policy). glob_spec (str ''feature/x'') q)"
proof -
  have c: "check_branch example_branch_policy (str ''refs/heads/feature/x'') Push ''source'' = Inr (str ''feature/x'')"
    by code_simp
  moreover have "bp_enabled example_branch_policy" by (simp add: example_branch_policy_def)
  ultimately show ?thesis unfolding check_branch_iff by blast
qed

end
