(* ===== verification/Git_Argv.thy ===== *)
theory Git_Argv
  imports Git_Branch
begin

section \<open>Git command lines (crates/sendbox-git/src/argv.rs)\<close>

text \<open>
  The split of an invocation into global options, command and arguments, the arguments of a push or
  pull, and the words of an alias.  The loops over an index are recursions over the remaining
  arguments; each step consumes at least one.
\<close>

definition GLOBAL_VALUE_OPTIONS :: "rstr list" where
  "GLOBAL_VALUE_OPTIONS = map str
     [''-C'', ''-c'', ''--config-env'', ''--exec-path'', ''--git-dir'', ''--namespace'', ''--super-prefix'',
      ''--work-tree'']"

definition GLOBAL_FLAG_OPTIONS :: "rstr list" where
  "GLOBAL_FLAG_OPTIONS = map str
     [''--bare'', ''--glob-pathspecs'', ''--help'', ''--html-path'', ''--icase-pathspecs'', ''--info-path'',
      ''--literal-pathspecs'', ''--man-path'', ''--no-advice'', ''--no-optional-locks'', ''--no-pager'',
      ''--no-replace-objects'', ''--noglob-pathspecs'', ''--paginate'', ''--version'']"

fun Operation_as_str :: "Operation \<Rightarrow> rstr" where
  "Operation_as_str Push = str ''push''"
| "Operation_as_str Pull = str ''pull''"

record GlobalInvocation =
  global_arguments :: "rstr list"
  command :: "rstr option"
  command_arguments :: "rstr list"
  gi_unsupported_options :: "rstr list"

definition global_value_prefix :: "rstr \<Rightarrow> bool" where
  "global_value_prefix argument \<longleftrightarrow>
     list_ex (\<lambda>option. starts_with argument (option @ str ''=''))
       (filter (\<lambda>option. starts_with option (str ''--'')) GLOBAL_VALUE_OPTIONS)"

definition compact_global_value :: "rstr \<Rightarrow> bool" where
  "compact_global_value argument \<longleftrightarrow>
     (starts_with argument (str ''-C'') \<or> starts_with argument (str ''-c'')) \<and> rlen argument > 2"

text \<open>The loop of \<^verbatim>\<open>parse_invocation\<close>, with the options gathered so far.\<close>

fun parse_globals :: "rstr list \<Rightarrow> rstr list \<Rightarrow> rstr list \<Rightarrow> GuardError + GlobalInvocation" where
  "parse_globals globals unsupported [] =
     Inr \<lparr>global_arguments = globals, command = None, command_arguments = [], gi_unsupported_options = unsupported\<rparr>"
| "parse_globals globals unsupported (argument # rest) =
     (if argument = str ''--'' then
        Inr \<lparr>global_arguments = globals, command = (case rest of [] \<Rightarrow> None | c # _ \<Rightarrow> Some c),
             command_arguments = tl rest, gi_unsupported_options = unsupported\<rparr>
      else if argument \<in> set GLOBAL_VALUE_OPTIONS then
        (case rest of
           [] \<Rightarrow> Inl (InvalidInvocation (''Git option `{}` is missing its value'', [argument]))
         | value # rest' \<Rightarrow> parse_globals (globals @ [argument, value]) unsupported rest')
      else if global_value_prefix argument \<or> compact_global_value argument then
        parse_globals (globals @ [argument]) unsupported rest
      else if argument \<in> set GLOBAL_FLAG_OPTIONS then
        parse_globals (globals @ [argument]) unsupported rest
      else if starts_with argument (str ''-'') then
        parse_globals (globals @ [argument]) (unsupported @ [argument]) rest
      else Inr \<lparr>global_arguments = globals, command = Some argument, command_arguments = rest,
                gi_unsupported_options = unsupported\<rparr>)"

definition parse_invocation :: "rstr list \<Rightarrow> GuardError + GlobalInvocation" where
  "parse_invocation arguments = parse_globals [] [] arguments"

subsection \<open>Arguments of an operation\<close>

record OperationArguments =
  repository :: "rstr option"
  refspecs :: "rstr list"
  broad_option :: "rstr option"
  oa_unsupported_options :: "rstr list"
  help_requested :: bool
  delete_refs :: bool

fun value_options :: "Operation \<Rightarrow> rstr list" where
  "value_options Push = map str [''--exec'', ''--push-option'', ''--receive-pack'', ''-o'']"
| "value_options Pull = map str
     [''--deepen'', ''--depth'', ''--jobs'', ''--negotiation-tip'', ''--recurse-submodules'', ''--server-option'',
      ''--shallow-exclude'', ''--shallow-since'', ''--strategy'', ''--strategy-option'', ''--upload-pack'',
      ''-X'', ''-j'', ''-s'']"

fun flag_options :: "Operation \<Rightarrow> rstr list" where
  "flag_options Push = map str
     [''--atomic'', ''--dry-run'', ''--force'', ''--force-if-includes'', ''--ipv4'', ''--ipv6'', ''--no-signed'',
      ''--no-thin'', ''--no-verify'', ''--porcelain'', ''--progress'', ''--quiet'', ''--set-upstream'', ''--thin'',
      ''--verbose'', ''-f'', ''-q'', ''-u'', ''-v'']"
| "flag_options Pull = map str
     [''--allow-unrelated-histories'', ''--autostash'', ''--commit'', ''--dry-run'', ''--edit'', ''--ff'',
      ''--ff-only'', ''--force'', ''--gpg-sign'', ''--ipv4'', ''--ipv6'', ''--log'', ''--no-autostash'',
      ''--no-commit'', ''--no-edit'', ''--no-ff'', ''--no-log'', ''--no-rebase'', ''--no-signoff'', ''--no-stat'',
      ''--no-tags'', ''--no-verify-signatures'', ''--progress'', ''--quiet'', ''--rebase'',
      ''--show-forced-updates'', ''--signoff'', ''--stat'', ''--tags'', ''--update-head-ok'', ''--verbose'',
      ''-f'', ''-n'', ''-q'', ''-r'', ''-v'']"

fun broad_options :: "Operation \<Rightarrow> rstr list" where
  "broad_options Push = map str
     [''--all'', ''--branches'', ''--follow-tags'', ''--mirror'', ''--prune'', ''--tags'']"
| "broad_options Pull = [str ''--all'']"

definition long_value_option :: "Operation \<Rightarrow> rstr \<Rightarrow> bool" where
  "long_value_option operation argument \<longleftrightarrow>
     list_ex (\<lambda>option. starts_with argument (option @ str ''=''))
       (filter (\<lambda>option. starts_with option (str ''--'')) (value_options operation))
     \<or> starts_with argument (str ''--force-with-lease='')
     \<or> starts_with argument (str ''--signed='')
     \<or> starts_with argument (str ''--gpg-sign='')
     \<or> starts_with argument (str ''--log='')
     \<or> starts_with argument (str ''--rebase='')"

fun compact_value_option :: "Operation \<Rightarrow> rstr \<Rightarrow> bool" where
  "compact_value_option Push argument \<longleftrightarrow> starts_with argument (str ''-o'') \<and> rlen argument > 2"
| "compact_value_option Pull argument \<longleftrightarrow>
     list_ex (\<lambda>option. starts_with argument option \<and> rlen argument > 2) (map str [''-X'', ''-j'', ''-s''])"

fun optional_value_option :: "Operation \<Rightarrow> rstr \<Rightarrow> bool" where
  "optional_value_option Push argument \<longleftrightarrow>
     argument \<in> set (map str [''--force-with-lease'', ''--recurse-submodules'', ''--signed''])
     \<or> starts_with argument (str ''--recurse-submodules='')"
| "optional_value_option Pull argument \<longleftrightarrow> False"

text \<open>The loop variables of \<^verbatim>\<open>parse_operation_arguments\<close>.\<close>

record operation_scan =
  os_repository_option :: "rstr option"
  os_positionals :: "rstr list"
  os_broad_option :: "rstr option"
  os_unsupported :: "rstr list"
  os_help :: bool
  os_delete :: bool

fun scan_operation :: "Operation \<Rightarrow> rstr list \<Rightarrow> operation_scan \<Rightarrow> GuardError + operation_scan" where
  "scan_operation operation [] s = Inr s"
| "scan_operation operation (argument # rest) s =
     (if argument = str ''-h'' \<or> argument = str ''--help'' then
        scan_operation operation rest (s\<lparr>os_help := True\<rparr>)
      else if argument = str ''--'' then
        Inr (s\<lparr>os_positionals := os_positionals s @ rest\<rparr>)
      else if argument \<in> set (broad_options operation) then
        scan_operation operation rest (s\<lparr>os_broad_option := Some argument\<rparr>)
      else if argument = str ''--delete'' then
        scan_operation operation rest (s\<lparr>os_delete := True\<rparr>)
      else if argument = str ''--repo'' then
        (case rest of
           [] \<Rightarrow> Inl (InvalidInvocation (''Git --repo is missing its value'', []))
         | value # rest' \<Rightarrow> scan_operation operation rest' (s\<lparr>os_repository_option := Some value\<rparr>))
      else case strip_prefix argument (str ''--repo='') of
          Some value \<Rightarrow>
            if value = [] then Inl (InvalidInvocation (''Git --repo is missing its value'', []))
            else scan_operation operation rest (s\<lparr>os_repository_option := Some value\<rparr>)
        | None \<Rightarrow>
            if argument \<in> set (value_options operation) then
              (case rest of
                 [] \<Rightarrow> Inl (InvalidInvocation (''Git {} option `{}` is missing its value'',
                                              [Operation_as_str operation, argument]))
               | value # rest' \<Rightarrow> scan_operation operation rest' s)
            else if long_value_option operation argument \<or> compact_value_option operation argument then
              scan_operation operation rest s
            else if argument \<in> set (flag_options operation) \<or> optional_value_option operation argument then
              scan_operation operation rest s
            else if starts_with argument (str ''-'') then
              scan_operation operation rest (s\<lparr>os_unsupported := os_unsupported s @ [argument]\<rparr>)
            else scan_operation operation rest (s\<lparr>os_positionals := os_positionals s @ [argument]\<rparr>))"

definition parse_operation_arguments :: "Operation \<Rightarrow> rstr list \<Rightarrow> GuardError + OperationArguments" where
  "parse_operation_arguments operation arguments =
     (case scan_operation operation arguments
             \<lparr>os_repository_option = None, os_positionals = [], os_broad_option = None, os_unsupported = [],
              os_help = False, os_delete = False\<rparr> of
        Inl e \<Rightarrow> Inl e
      | Inr s \<Rightarrow>
          (let (repository, positionals) =
             (case os_repository_option s of
                Some r \<Rightarrow> (Some r, os_positionals s)
              | None \<Rightarrow>
                  (case os_positionals s of
                     [] \<Rightarrow> (None, [])
                   | p # ps \<Rightarrow> (Some p, ps)))
           in Inr \<lparr>repository = repository, refspecs = positionals, broad_option = os_broad_option s,
                   oa_unsupported_options = os_unsupported s, help_requested = os_help s,
                   delete_refs = os_delete s\<rparr>))"

subsection \<open>Alias words\<close>

text \<open>
  The loop of \<^verbatim>\<open>parse_alias_words\<close>: the words so far, the current word and the open quote.
\<close>

fun alias_loop :: "rstr \<Rightarrow> rstr list \<Rightarrow> rstr \<Rightarrow> rchar option \<Rightarrow> GuardError + rstr list" where
  "alias_loop [] words current quote =
     (if quote \<noteq> None then Inl (InvalidInvocation (''Git alias contains an unterminated quote'', []))
      else Inr (if current \<noteq> [] then words @ [current] else words))"
| "alias_loop (c # cs) words current quote =
     (if quote = Some 39 then
        (if c = 39 then alias_loop cs words current None else alias_loop cs words (current @ [c]) quote)
      else if quote = Some 34 then
        (if c = 34 then alias_loop cs words current None
         else if c = 92 then
           (case cs of
              [] \<Rightarrow> Inl (InvalidInvocation (''Git alias ends with an incomplete escape'', []))
            | escaped # rest \<Rightarrow> alias_loop rest words (current @ [escaped]) quote)
         else alias_loop cs words (current @ [c]) quote)
      else if c = 39 \<or> c = 34 then alias_loop cs words current (Some c)
      else if c = 92 then
        (case cs of
           [] \<Rightarrow> Inl (InvalidInvocation (''Git alias ends with an incomplete escape'', []))
         | escaped # rest \<Rightarrow> alias_loop rest words (current @ [escaped]) quote)
      else if is_whitespace c then
        (if current \<noteq> [] then alias_loop cs (words @ [current]) [] quote else alias_loop cs words current quote)
      else alias_loop cs words (current @ [c]) quote)"

definition parse_alias_words :: "rstr \<Rightarrow> GuardError + rstr list" where
  "parse_alias_words value = alias_loop value [] [] None"

subsection \<open>Properties\<close>

definition conserves :: "rstr list \<Rightarrow> GlobalInvocation \<Rightarrow> bool" where
  "conserves args gi \<longleftrightarrow>
     (\<exists>sep. (sep = [] \<or> sep = [str ''--'']) \<and>
        args = global_arguments gi @ sep @ (case command gi of None \<Rightarrow> [] | Some c \<Rightarrow> c # command_arguments gi))"

lemma conserves_end:
  "conserves gs \<lparr>global_arguments = gs, command = None, command_arguments = cs, gi_unsupported_options = us\<rparr>"
  "conserves (gs @ [str ''--'']) \<lparr>global_arguments = gs, command = None, command_arguments = cs, gi_unsupported_options = us\<rparr>"
  "conserves (gs @ c # cs) \<lparr>global_arguments = gs, command = Some c, command_arguments = cs, gi_unsupported_options = us\<rparr>"
  "conserves (gs @ str ''--'' # c # cs) \<lparr>global_arguments = gs, command = Some c, command_arguments = cs, gi_unsupported_options = us\<rparr>"
  by (simp_all add: conserves_def del: str_simps)

lemma parse_globals_conserves: "parse_globals gs us args = Inr gi \<Longrightarrow> conserves (gs @ args) gi"
proof (induction gs us args rule: parse_globals.induct)
  case (2 gs us argument rest)
  show ?case
  proof (cases "argument = str ''--''")
    case True
    with 2(5) show ?thesis by (cases rest) (auto simp: conserves_end simp del: str_simps)
  next
    case False
    with 2 show ?thesis
      by (auto simp: conserves_end simp del: str_simps split: if_splits list.splits)
  qed
qed (auto simp: conserves_end)

text \<open>
  Splitting an invocation loses, reorders and invents nothing: its global arguments, an optional
  \<^verbatim>\<open>--\<close>, its command and the command's arguments are, in this order, the arguments given.
\<close>

theorem parse_invocation_conserves:
  assumes "parse_invocation args = Inr gi"
  shows "conserves args gi"
  using parse_globals_conserves [of "[]" "[]" args gi] assms by (simp add: parse_invocation_def)

theorem parse_invocation_conserves_witness:
  "conserves [str ''-C'', str ''/w'', str ''push'', str ''origin'']
     \<lparr>global_arguments = [str ''-C'', str ''/w''], command = Some (str ''push''),
      command_arguments = [str ''origin''], gi_unsupported_options = []\<rparr>"
  by (rule parse_invocation_conserves) code_simp

lemma alias_escaped:
  "alias_loop (backslash_escape w @ rest) ws current None = alias_loop rest ws (current @ w) None"
  by (induction w arbitrary: current) auto

lemma alias_words_escaped:
  assumes "\<forall>w \<in> set ws. w \<noteq> []"
  shows "alias_loop (join_with 32 (map backslash_escape ws)) acc [] None = Inr (acc @ ws)"
  using assms
proof (induction ws arbitrary: acc rule: induct_list012)
  case (2 w)
  then show ?case using alias_escaped [of w "[]" acc "[]"] by simp
next
  case (3 w v ws)
  have "is_whitespace 32" by (simp add: is_whitespace_def)
  with 3 show ?case by (simp add: alias_escaped)
qed simp

text \<open>
  alias words written with every character escaped and separated by spaces parse back to
  themselves, whatever characters they contain; the parser neither drops nor splits a word.
\<close>

theorem parse_alias_words_roundtrip:
  assumes "\<forall>w \<in> set ws. w \<noteq> []"
  shows "parse_alias_words (join_with 32 (map backslash_escape ws)) = Inr ws"
  using alias_words_escaped [OF assms, of "[]"] by (simp add: parse_alias_words_def)

theorem parse_alias_words_roundtrip_witness:
  "parse_alias_words (join_with 32 (map backslash_escape [str ''push'', str ''a b''])) = Inr [str ''push'', str ''a b'']"
  by (rule parse_alias_words_roundtrip) simp

end
