(* ===== verification/Git_Identity.thy ===== *)
theory Git_Identity
  imports Git_Branch Utf8
begin

section \<open>Repository identities (crates/sendbox-git/src/identity.rs)\<close>

text \<open>
  The host, owner and name a remote resolves to.  The \<^verbatim>\<open>url\<close> crate's parser is an argument that
  returns the parts the source reads.  Workspace identities, which read the file system, are the
  argument \<open>matches_path\<close> of the guard.
\<close>

record RepositoryIdentity =
  ri_host :: rstr
  ri_owner :: rstr
  ri_name :: rstr

record url_parts =
  url_scheme :: rstr
  url_query :: "rstr option"
  url_fragment :: "rstr option"
  url_host :: "rstr option"
  url_port :: "rstr option"
  url_path :: rstr

abbreviation BACKSLASH :: rchar where "BACKSLASH \<equiv> 92"

definition trim_end_dots :: "rstr \<Rightarrow> rstr" where
  "trim_end_dots s = rev (dropWhile (\<lambda>c. c = 46) (rev s))"

definition trim_slashes :: "rstr \<Rightarrow> rstr" where
  "trim_slashes s = rev (dropWhile (\<lambda>c. c = 47) (rev (dropWhile (\<lambda>c. c = 47) s)))"

definition normalize_host :: "rstr \<Rightarrow> GuardError + rstr" where
  "normalize_host raw =
     (let value = to_ascii_lowercase (trim_end_dots (trim raw))
      in if value = [] \<or> 47 \<in> set value \<or> BACKSLASH \<in> set value \<or> 64 \<in> set value \<or> list_ex is_whitespace value
         then Inl (InvalidPolicy (''selected repository host is invalid'', []))
         else Inr value)"

definition normalize_component :: "rstr \<Rightarrow> string \<Rightarrow> GuardError + rstr" where
  "normalize_component raw label =
     (let value = to_ascii_lowercase (trim raw)
      in if value = [] \<or> value = str ''.'' \<or> value = str ''..'' \<or> 47 \<in> set value \<or> BACKSLASH \<in> set value
            \<or> 58 \<in> set value \<or> list_ex is_whitespace value
         then Inl (InvalidPolicy (''selected repository {} is invalid'', [str label]))
         else Inr value)"

definition trim_git_suffix :: "rstr \<Rightarrow> rstr" where
  "trim_git_suffix value =
     (if ends_with (to_ascii_lowercase value) (str ''.git'') then take (length value - 4) value else value)"

definition RepositoryIdentity_new :: "rstr \<Rightarrow> rstr \<Rightarrow> rstr \<Rightarrow> GuardError + RepositoryIdentity" where
  "RepositoryIdentity_new host owner name =
     (case normalize_host host of
        Inl e \<Rightarrow> Inl e
      | Inr h \<Rightarrow>
          (case normalize_component owner ''owner'' of
             Inl e \<Rightarrow> Inl e
           | Inr w \<Rightarrow>
               (case normalize_component (trim_git_suffix name) ''repository'' of
                  Inl e \<Rightarrow> Inl e
                | Inr n \<Rightarrow> Inr \<lparr>ri_host = h, ri_owner = w, ri_name = n\<rparr>)))"

definition hex_digit :: "u8 \<Rightarrow> u8 option" where
  "hex_digit v =
     (if 48 \<le> v \<and> v \<le> 57 then Some (v - 48)
      else if 97 \<le> v \<and> v \<le> 102 then Some (v - 97 + 10)
      else if 65 \<le> v \<and> v \<le> 70 then Some (v - 65 + 10)
      else None)"

text \<open>The loop over the bytes; a percent sign needs two more bytes.\<close>

fun percent_decode :: "bytes \<Rightarrow> bytes option" where
  "percent_decode [] = Some []"
| "percent_decode (b # bs) =
     (if b = 37 then
        (case bs of
           h # l # rest \<Rightarrow>
             (case (hex_digit h, hex_digit l) of
                (Some high, Some low) \<Rightarrow> map_option (Cons (high * 16 + low)) (percent_decode rest)
              | _ \<Rightarrow> None)
         | _ \<Rightarrow> None)
      else map_option (Cons b) (percent_decode bs))"

definition decode_component :: "rstr \<Rightarrow> GuardError + rstr" where
  "decode_component value =
     (if value = [] then Inl AmbiguousRepository
      else case percent_decode (as_bytes value) of
          None \<Rightarrow> Inl AmbiguousRepository
        | Some decoded \<Rightarrow>
            (case from_utf8 decoded of
               None \<Rightarrow> Inl AmbiguousRepository
             | Some s \<Rightarrow>
                 if 47 \<in> set s \<or> BACKSLASH \<in> set s \<or> s = str ''.'' \<or> s = str ''..''
                 then Inl AmbiguousRepository else Inr s))"

definition from_host_path :: "rstr \<Rightarrow> rstr \<Rightarrow> GuardError + RepositoryIdentity" where
  "from_host_path host path =
     (case try_map decode_component (split_on 47 (trim_slashes path)) of
        Inl e \<Rightarrow> Inl e
      | Inr components \<Rightarrow>
          (case components of
             [owner, name] \<Rightarrow> RepositoryIdentity_new host owner name
           | _ \<Rightarrow> Inl AmbiguousRepository))"

definition default_port :: "rstr \<Rightarrow> rstr option" where
  "default_port scheme =
     (if scheme = str ''https'' then Some (str ''443'')
      else if scheme = str ''http'' then Some (str ''80'')
      else if scheme = str ''ssh'' then Some (str ''22'')
      else if scheme = str ''git'' then Some (str ''9418'') else None)"

definition parse_url :: "url_parts \<Rightarrow> GuardError + RepositoryIdentity" where
  "parse_url url =
     (if \<not> (url_scheme url = str ''https'' \<or> url_scheme url = str ''http'' \<or> url_scheme url = str ''ssh''
            \<or> url_scheme url = str ''git'')
      then Inl AmbiguousRepository
      else if url_query url \<noteq> None \<or> url_fragment url \<noteq> None then Inl AmbiguousRepository
      else case url_host url of
          None \<Rightarrow> Inl AmbiguousRepository
        | Some host \<Rightarrow>
            from_host_path
              (case url_port url of
                 Some explicit \<Rightarrow> if Some explicit \<noteq> default_port (url_scheme url) then host @ 58 # explicit else host
               | None \<Rightarrow> host)
              (url_path url))"

definition rsplit_at :: "rstr \<Rightarrow> rstr option" where
  "rsplit_at s = (if 64 \<in> set s then Some (rev (takeWhile (\<lambda>c. c \<noteq> 64) (rev s))) else None)"

definition parse_scp_like :: "rstr \<Rightarrow> (rstr \<times> rstr) option" where
  "parse_scp_like value =
     (if contains_str value (str ''://'') \<or> starts_with value (str ''/'') then None
      else case split_once 58 value of
          None \<Rightarrow> None
        | Some (prefix, path) \<Rightarrow>
            if prefix = [] \<or> path = [] \<or> 47 \<in> set prefix \<or> BACKSLASH \<in> set prefix then None
            else let host = (case rsplit_at prefix of Some h \<Rightarrow> h | None \<Rightarrow> prefix)
                 in if host \<noteq> [] then Some (host, path) else None)"

definition RepositoryIdentity_parse ::
  "(rstr \<Rightarrow> url_parts option) \<Rightarrow> rstr \<Rightarrow> rstr option \<Rightarrow> GuardError + RepositoryIdentity" where
  "RepositoryIdentity_parse url_parse remote shorthand_host =
     (let value = trim remote
      in if value = [] then Inl AmbiguousRepository
         else case url_parse value of
             Some url \<Rightarrow> parse_url url
           | None \<Rightarrow>
               (case parse_scp_like value of
                  Some (host, path) \<Rightarrow> from_host_path host path
                | None \<Rightarrow>
                    (case shorthand_host of
                       Some host \<Rightarrow> from_host_path host value
                     | None \<Rightarrow> Inl AmbiguousRepository)))"

subsection \<open>Every identity is in normal form\<close>

definition normal_component :: "rstr \<Rightarrow> bool" where
  "normal_component v \<longleftrightarrow>
     v \<noteq> [] \<and> to_ascii_lowercase v = v \<and> v \<noteq> str ''.'' \<and> v \<noteq> str ''..'' \<and>
     list_all (\<lambda>c. c \<noteq> 47 \<and> c \<noteq> BACKSLASH \<and> c \<noteq> 58 \<and> \<not> is_whitespace c) v"

definition normal_host :: "rstr \<Rightarrow> bool" where
  "normal_host v \<longleftrightarrow>
     v \<noteq> [] \<and> to_ascii_lowercase v = v \<and> last v \<noteq> 46 \<and>
     list_all (\<lambda>c. c \<noteq> 47 \<and> c \<noteq> BACKSLASH \<and> c \<noteq> 64 \<and> \<not> is_whitespace c) v"

lemma lower_lower: "to_ascii_lowercase (to_ascii_lowercase s) = to_ascii_lowercase s"
  by (induction s) (auto simp: ascii_lower_def)

lemma normalize_component_normal: "normalize_component raw label = Inr v \<Longrightarrow> normal_component v"
  using lower_lower [of "trim raw"]
  by (auto simp: normalize_component_def normal_component_def Let_def list_all_iff list_ex_iff
           simp del: str_simps split: if_splits)

lemma trim_end_dots_last: "trim_end_dots s \<noteq> [] \<Longrightarrow> last (trim_end_dots s) \<noteq> 46"
  unfolding trim_end_dots_def
  by (metis (full_types) hd_dropWhile last_rev rev_is_Nil_conv)

lemma normalize_host_normal: "normalize_host raw = Inr v \<Longrightarrow> normal_host v"
proof -
  assume n: "normalize_host raw = Inr v"
  define d where "d = trim_end_dots (trim raw)"
  have v: "v = to_ascii_lowercase d" "v \<noteq> []" "list_all (\<lambda>c. c \<noteq> 47 \<and> c \<noteq> BACKSLASH \<and> c \<noteq> 64 \<and> \<not> is_whitespace c) v"
    using n by (auto simp: normalize_host_def d_def Let_def list_all_iff list_ex_iff split: if_splits)
  then have "last d \<noteq> 46" "d \<noteq> []" using trim_end_dots_last by (auto simp: d_def)
  then have "last v \<noteq> 46" using v(1) by (simp add: last_map ascii_lower_def)
  with v lower_lower [of d] show ?thesis by (simp add: normal_host_def)
qed

lemma RepositoryIdentity_new_normal:
  "RepositoryIdentity_new h w n = Inr i \<Longrightarrow>
   normal_host (ri_host i) \<and> normal_component (ri_owner i) \<and> normal_component (ri_name i)"
  by (auto simp: RepositoryIdentity_new_def split: sum.splits
           dest: normalize_host_normal normalize_component_normal)

lemma from_host_path_normal:
  "from_host_path h p = Inr i \<Longrightarrow>
   normal_host (ri_host i) \<and> normal_component (ri_owner i) \<and> normal_component (ri_name i)"
  by (auto simp: from_host_path_def split: sum.splits list.splits dest: RepositoryIdentity_new_normal)

text \<open>
  whatever the form of a remote (URL, scp-like or shorthand) and whatever the URL parser
  returns, an identity that is produced is in normal form: lower case, with a host free of
  separators, user information and a trailing dot, and single-segment owner and name that are no
  path traversal.  Two remotes are compared only in this form.
\<close>

theorem RepositoryIdentity_parse_normal:
  assumes "RepositoryIdentity_parse url_parse remote shorthand = Inr i"
  shows "normal_host (ri_host i) \<and> normal_component (ri_owner i) \<and> normal_component (ri_name i)"
  using assms
  by (auto simp: RepositoryIdentity_parse_def parse_url_def Let_def simp del: str_simps
           split: if_splits option.splits prod.splits dest: from_host_path_normal)

theorem RepositoryIdentity_parse_normal_witness:
  "RepositoryIdentity_parse (\<lambda>_. None) (str ''git@GitHub.com:Owner/Repo.git'') None
     = Inr \<lparr>ri_host = str ''github.com'', ri_owner = str ''owner'', ri_name = str ''repo''\<rparr> \<and>
   normal_host (str ''github.com'')"
proof -
  have p: "RepositoryIdentity_parse (\<lambda>_. None) (str ''git@GitHub.com:Owner/Repo.git'') None
     = Inr \<lparr>ri_host = str ''github.com'', ri_owner = str ''owner'', ri_name = str ''repo''\<rparr>"
    by code_simp
  from RepositoryIdentity_parse_normal [OF p] p show ?thesis by simp
qed

end
