(* ===== verification/Git_Guard.thy ===== *)
theory Git_Guard
  imports Git_Argv Git_Identity
begin

section \<open>Push and pull admission (crates/sendbox-git/src/service.rs)\<close>

text \<open>
  The guard parses an invocation, expands its aliases, probes the repository with Git and decides.
  Running Git is the argument \<open>query\<close>, from the complete argument list to the outcome of the process;
  comparing a path with the selected workspace is \<open>matches_path\<close>; the \<^verbatim>\<open>url\<close> crate is
  \<open>url_parse\<close>.  The probes of one admission are calls of the same functions.
\<close>

definition MAX_ALIAS_DEPTH :: nat where "MAX_ALIAS_DEPTH = 8"

record ProcessOutput =
  exit_code :: "int option"
  stdout :: bytes

datatype Admission = PassThrough string | Guarded

text \<open>What \<^verbatim>\<open>GuardService\<close> holds and \<open>admit\<close> reads.\<close>

record guard =
  gd_selected_repository :: RepositoryIdentity
  gd_github_https_auth :: bool
  gd_git_ssh_auth :: bool
  gd_branches :: BranchPolicy
  gd_query :: "rstr list \<Rightarrow> GuardError + ProcessOutput"
  gd_matches_path :: "rstr \<Rightarrow> GuardError + bool"
  gd_url_parse :: "rstr \<Rightarrow> url_parts option"

subsection \<open>Probes\<close>

definition split_terminator_nul :: "rstr \<Rightarrow> rstr list" where
  "split_terminator_nul s =
     (let pieces = split_on 0 s in if last pieces = [] then butlast pieces else pieces)"

definition nonempty_lines :: "rstr \<Rightarrow> rstr list" where
  "nonempty_lines s = filter (\<lambda>l. l \<noteq> []) (map trim (split_on 10 s))"

definition values_of :: "guard \<Rightarrow> rstr list \<Rightarrow> rstr list \<Rightarrow> GuardError + rstr list" where
  "values_of g globals arguments =
     (case gd_query g (globals @ arguments) of
        Inl e \<Rightarrow> Inl e
      | Inr output \<Rightarrow>
          if exit_code output \<noteq> Some 0 then Inr []
          else case from_utf8 (stdout output) of
              None \<Rightarrow> Inl (UnresolvedState (''Git probe output is not UTF-8'', []))
            | Some s \<Rightarrow> Inr (nonempty_lines s))"

definition first_of :: "GuardError + rstr list \<Rightarrow> GuardError + rstr option" where
  "first_of r = (case r of Inl e \<Rightarrow> Inl e | Inr vs \<Rightarrow> Inr (case vs of [] \<Rightarrow> None | v # _ \<Rightarrow> Some v))"

definition optional_value :: "guard \<Rightarrow> rstr list \<Rightarrow> rstr list \<Rightarrow> GuardError + rstr option" where
  "optional_value g globals arguments = first_of (values_of g globals arguments)"

definition required_value :: "guard \<Rightarrow> rstr list \<Rightarrow> rstr list \<Rightarrow> string \<Rightarrow> GuardError + rstr" where
  "required_value g globals arguments label =
     (case optional_value g globals arguments of
        Inl e \<Rightarrow> Inl e
      | Inr None \<Rightarrow> Inl (UnresolvedState (''{} is unavailable'', [str label]))
      | Inr (Some v) \<Rightarrow> Inr v)"

definition config_values :: "guard \<Rightarrow> rstr list \<Rightarrow> rstr \<Rightarrow> GuardError + rstr list" where
  "config_values g globals key =
     (case gd_query g (globals @ [str ''config'', str ''--null'', str ''--get-all'', key]) of
        Inl e \<Rightarrow> Inl e
      | Inr output \<Rightarrow>
          if exit_code output \<noteq> Some 0 then Inr []
          else case from_utf8 (stdout output) of
              None \<Rightarrow> Inl (UnresolvedState (''Git config output is not UTF-8'', []))
            | Some s \<Rightarrow> Inr (split_terminator_nul s))"

definition config_value :: "guard \<Rightarrow> rstr list \<Rightarrow> rstr \<Rightarrow> GuardError + rstr option" where
  "config_value g globals key = first_of (config_values g globals key)"

subsection \<open>Remotes and branches\<close>

definition remote_name :: "rstr \<Rightarrow> bool" where
  "remote_name value \<longleftrightarrow>
     value \<noteq> [] \<and> \<not> (47 \<in> set value \<or> BACKSLASH \<in> set value \<or> 58 \<in> set value) \<and>
     \<not> starts_with value (str ''.'') \<and> \<not> list_ex is_whitespace value"

fun first_config :: "guard \<Rightarrow> rstr list \<Rightarrow> rstr list \<Rightarrow> GuardError + rstr" where
  "first_config g globals [] = Inr (str ''origin'')"
| "first_config g globals (key # keys) =
     (case config_value g globals key of
        Inl e \<Rightarrow> Inl e
      | Inr (Some value) \<Rightarrow> Inr value
      | Inr None \<Rightarrow> first_config g globals keys)"

definition default_remote :: "guard \<Rightarrow> rstr list \<Rightarrow> Operation \<Rightarrow> rstr \<Rightarrow> GuardError + rstr" where
  "default_remote g globals operation branch =
     first_config g globals
       (case operation of
          Push \<Rightarrow> [str ''branch.'' @ branch @ str ''.pushRemote'', str ''remote.pushDefault'',
                    str ''branch.'' @ branch @ str ''.remote'']
        | Pull \<Rightarrow> [str ''branch.'' @ branch @ str ''.remote''])"

definition upstream_branch :: "guard \<Rightarrow> rstr list \<Rightarrow> GuardError + rstr option" where
  "upstream_branch g globals =
     (case optional_value g globals
             [str ''rev-parse'', str ''--abbrev-ref'', str ''--symbolic-full-name'', str ''@'' @ str ''{upstream}''] of
        Inl e \<Rightarrow> Inl e
      | Inr None \<Rightarrow> Inr None
      | Inr (Some value0) \<Rightarrow>
          (let value = (case strip_prefix value0 (str ''refs/remotes/'') of Some v \<Rightarrow> v | None \<Rightarrow> value0)
           in Inr (Some (case split_once 47 value of None \<Rightarrow> value | Some (_, branch) \<Rightarrow> branch))))"

definition branch_exists :: "guard \<Rightarrow> rstr list \<Rightarrow> rstr \<Rightarrow> GuardError + bool" where
  "branch_exists g globals branch =
     (case gd_query g (globals @ [str ''show-ref'', str ''--verify'', str ''--quiet'', str ''refs/heads/'' @ branch]) of
        Inl e \<Rightarrow> Inl e
      | Inr output \<Rightarrow> Inr (exit_code output = Some 0))"

text \<open>
  \<^verbatim>\<open>resolve_remote_identity\<close>: exactly one URL is required before it is parsed, so the set of
  identities the source collects has exactly one element.
\<close>

definition resolve_remote_identity :: "guard \<Rightarrow> rstr list \<Rightarrow> Operation \<Rightarrow> rstr \<Rightarrow> GuardError + RepositoryIdentity" where
  "resolve_remote_identity g globals operation repo =
     (case (if remote_name repo
            then values_of g globals
                   ([str ''remote'', str ''get-url'', str ''--all'']
                    @ (if operation = Push then [str ''--push''] else []) @ [repo])
            else (case required_value g globals [str ''ls-remote'', str ''--get-url'', repo] ''effective remote URL'' of
                    Inl e \<Rightarrow> Inl e | Inr v \<Rightarrow> Inr [v])) of
        Inl e \<Rightarrow> Inl e
      | Inr [url] \<Rightarrow> RepositoryIdentity_parse (gd_url_parse g) url (Some (ri_host (gd_selected_repository g)))
      | Inr _ \<Rightarrow> Inl AmbiguousRepository)"

subsection \<open>Configuration overrides\<close>

definition modeled_subsection_key :: "rstr \<Rightarrow> rstr \<Rightarrow> rstr list \<Rightarrow> bool" where
  "modeled_subsection_key value prefix suffixes \<longleftrightarrow>
     starts_with value prefix \<and>
     list_ex (\<lambda>suffix. ends_with value suffix \<and> rlen value > rlen prefix + rlen suffix) suffixes"

definition safe_config_override :: "rstr \<Rightarrow> bool" where
  "safe_config_override value =
     (case split_once 61 value of
        None \<Rightarrow> False
      | Some (key, configured_value) \<Rightarrow>
          if eq_ignore_ascii_case key (str ''push.default'') \<or> eq_ignore_ascii_case key (str ''remote.pushDefault'')
          then True
          else if eq_ignore_ascii_case key (str ''credential.helper'') then configured_value = []
          else let lowercase = to_ascii_lowercase key
               in starts_with lowercase (str ''alias.'') \<and> rlen lowercase > 6
                  \<or> modeled_subsection_key lowercase (str ''branch.'') (map str [''.remote'', ''.pushremote'', ''.merge''])
                  \<or> modeled_subsection_key lowercase (str ''remote.'') (map str [''.url'', ''.pushurl'', ''.push'', ''.mirror''])
                  \<or> modeled_subsection_key lowercase (str ''url.'') (map str [''.insteadof'', ''.pushinsteadof'']))"

fun validate_global_configuration :: "rstr list \<Rightarrow> Operation \<Rightarrow> GuardError + unit" where
  "validate_global_configuration [] operation = Inr ()"
| "validate_global_configuration (argument # rest) operation =
     (if argument = str ''--exec-path'' \<or> starts_with argument (str ''--exec-path='')
      then Inl (Denied operation (''--exec-path can replace Git transport helpers'', []))
      else if argument = str ''-c'' then
        (case rest of
           [] \<Rightarrow> Inr ()
         | override # rest' \<Rightarrow>
             if \<not> safe_config_override override
             then Inl (Denied operation (''Git -c override is outside the modeled branch-protection configuration'', []))
             else validate_global_configuration rest' operation)
      else case strip_prefix argument (str ''-c'') of
          Some override \<Rightarrow>
            if override \<noteq> [] \<and> \<not> safe_config_override override
            then Inl (Denied operation (''Git -c override is outside the modeled branch-protection configuration'', []))
            else validate_global_configuration rest operation
        | None \<Rightarrow> validate_global_configuration rest operation)"

fun effective_helpers :: "rstr list \<Rightarrow> rstr list \<Rightarrow> rstr list" where
  "effective_helpers [] helpers = helpers"
| "effective_helpers (helper # rest) helpers =
     effective_helpers rest (if helper = [] then [] else helpers @ [helper])"

definition reject_external_configuration :: "guard \<Rightarrow> rstr list \<Rightarrow> Operation \<Rightarrow> GuardError + unit" where
  "reject_external_configuration g globals operation =
     (case config_values g globals (str ''credential.helper'') of
        Inl e \<Rightarrow> Inl e
      | Inr configured \<Rightarrow>
          if effective_helpers configured [] \<noteq> []
          then Inl (Denied operation (''configured credential helpers are incompatible with authenticated Git'', []))
          else if gd_git_ssh_auth g then
            (case config_value g globals (str ''core.sshCommand'') of
               Inl e \<Rightarrow> Inl e
             | Inr value \<Rightarrow>
                 if value \<noteq> None \<and> value \<noteq> Some []
                 then Inl (Denied operation (''configured core.sshCommand is incompatible with authenticated Git'', []))
                 else Inr ())
          else Inr ())"

subsection \<open>Aliases\<close>

text \<open>The bounded loop of \<^verbatim>\<open>resolve_aliases\<close>; the first argument counts the rounds left.\<close>

fun resolve_aliases :: "nat \<Rightarrow> guard \<Rightarrow> GlobalInvocation \<Rightarrow> GuardError + GlobalInvocation" where
  "resolve_aliases 0 g invocation =
     Inl (InvalidInvocation (''Git alias expansion exceeded the safety limit'', []))"
| "resolve_aliases (Suc n) g invocation =
     (case command invocation of
        None \<Rightarrow> Inr invocation
      | Some cmd \<Rightarrow>
          if cmd = str ''push'' \<or> cmd = str ''pull'' then Inr invocation
          else case config_value g (global_arguments invocation) (str ''alias.'' @ cmd) of
              Inl e \<Rightarrow> Inl e
            | Inr None \<Rightarrow> Inr invocation
            | Inr (Some alias) \<Rightarrow>
                if starts_with (trim_start alias) (str ''!'')
                then Inl (InvalidInvocation (''shell Git alias `{}` is disabled'', [cmd]))
                else case parse_alias_words alias of
                    Inl e \<Rightarrow> Inl e
                  | Inr expansion \<Rightarrow>
                      if expansion = [] then Inl (InvalidInvocation (''Git alias `{}` is empty'', [cmd]))
                      else case parse_invocation (expansion @ command_arguments invocation) of
                          Inl e \<Rightarrow> Inl e
                        | Inr expanded \<Rightarrow>
                            resolve_aliases n g
                              \<lparr>global_arguments = global_arguments invocation @ global_arguments expanded,
                               command = command expanded,
                               command_arguments = command_arguments expanded,
                               gi_unsupported_options =
                                 gi_unsupported_options invocation @ gi_unsupported_options expanded\<rparr>)"

subsection \<open>Refspecs\<close>

definition normalize_push_source :: "rstr \<Rightarrow> GuardError + rstr" where
  "normalize_push_source source =
     (case strip_prefix source (str ''refs/heads/'') of
        Some branch \<Rightarrow> Inr branch
      | None \<Rightarrow>
          if starts_with source (str ''refs/'') \<or> 126 \<in> set source \<or> 94 \<in> set source
          then Inl (Denied Push (''push source is not a local branch'', []))
          else Inr source)"

definition parse_push_refspec :: "rstr \<Rightarrow> rstr \<Rightarrow> GuardError + rstr option \<times> rstr" where
  "parse_push_refspec refspec current =
     (let value = dropWhile (\<lambda>c. c = PLUS) refspec
      in if value = [] \<or> starts_with value (str ''^'') \<or> STAR \<in> set value \<or> QMARK \<in> set value
         then Inl (Denied Push (''unsupported push refspec'', []))
         else let (source0, destination0) = (case split_once 58 value of Some p \<Rightarrow> p | None \<Rightarrow> (value, value))
              in case (if source0 = [] then Inr None
                       else if source0 = str ''HEAD'' \<or> source0 = str ''@'' then Inr (Some current)
                       else (case normalize_push_source source0 of Inl e \<Rightarrow> Inl e | Inr s \<Rightarrow> Inr (Some s))) of
                   Inl e \<Rightarrow> Inl e
                 | Inr source \<Rightarrow>
                     (let destination =
                        (if destination0 = str ''HEAD'' \<or> destination0 = str ''@'' then current
                         else if destination0 = value \<and> source \<noteq> None
                         then (case source of Some s \<Rightarrow> s | None \<Rightarrow> [])
                         else destination0)
                      in if starts_with destination (str ''refs/'') \<and> \<not> starts_with destination (str ''refs/heads/'')
                         then Inl (Denied Push (''push destination is not a branch ref'', []))
                         else if destination = [] then Inl (Denied Push (''push destination is empty'', []))
                         else Inr (source, destination)))"

subsection \<open>Push and pull\<close>

fun check_push_refspecs :: "guard \<Rightarrow> rstr list \<Rightarrow> rstr \<Rightarrow> rstr list \<Rightarrow> GuardError + unit" where
  "check_push_refspecs g globals current [] = Inr ()"
| "check_push_refspecs g globals current (refspec # rest) =
     (case parse_push_refspec refspec current of
        Inl e \<Rightarrow> Inl e
      | Inr (source, destination) \<Rightarrow>
          (case (case source of
                   None \<Rightarrow> Inr []
                 | Some s \<Rightarrow>
                     (case branch_exists g globals s of
                        Inl e \<Rightarrow> Inl e
                      | Inr False \<Rightarrow> Inl (Denied Push (''source branch `{}` does not exist locally'', [s]))
                      | Inr True \<Rightarrow> check_branch (gd_branches g) s Push ''source'')) of
             Inl e \<Rightarrow> Inl e
           | Inr _ \<Rightarrow>
               (case check_branch (gd_branches g) destination Push ''destination'' of
                  Inl e \<Rightarrow> Inl e
                | Inr _ \<Rightarrow> check_push_refspecs g globals current rest)))"

definition default_push_destination :: "guard \<Rightarrow> rstr list \<Rightarrow> rstr \<Rightarrow> GuardError + rstr" where
  "default_push_destination g globals current =
     (case config_value g globals (str ''push.default'') of
        Inl e \<Rightarrow> Inl e
      | Inr configured \<Rightarrow>
          (let mode = (case configured of Some m \<Rightarrow> m | None \<Rightarrow> str ''simple'')
           in if mode = str ''current'' then Inr current
              else if mode = str ''simple'' then
                (case upstream_branch g globals of
                   Inl e \<Rightarrow> Inl e
                 | Inr None \<Rightarrow> Inl (Denied Push (''push.default=simple requires a resolvable upstream branch'', []))
                 | Inr (Some upstream) \<Rightarrow>
                     if upstream \<noteq> current
                     then Inl (Denied Push (''push.default=simple upstream branch differs from current branch'', []))
                     else Inr upstream)
              else if mode = str ''upstream'' \<or> mode = str ''tracking'' then
                (case upstream_branch g globals of
                   Inl e \<Rightarrow> Inl e
                 | Inr None \<Rightarrow> Inl (Denied Push (''the upstream branch cannot be resolved'', []))
                 | Inr (Some upstream) \<Rightarrow> Inr upstream)
              else if mode = str ''matching''
              then Inl (Denied Push (''push.default=matching may update multiple branches'', []))
              else if mode = str ''nothing''
              then Inl (Denied Push (''push.default=nothing has no resolvable destination'', []))
              else Inl (Denied Push (''unsupported push.default mode'', []))))"

text \<open>The refspecs a push is taken to mean, before they are checked.\<close>

definition push_refspecs :: "guard \<Rightarrow> rstr list \<Rightarrow> rstr \<Rightarrow> OperationArguments \<Rightarrow> rstr \<Rightarrow> GuardError + rstr list" where
  "push_refspecs g globals remote parsed current =
     (let given = (if delete_refs parsed then map (\<lambda>d. str '':'' @ d) (refspecs parsed) else refspecs parsed)
      in case (if given = [] \<and> remote_name remote
               then config_values g globals (str ''remote.'' @ remote @ str ''.push'') else Inr given) of
           Inl e \<Rightarrow> Inl e
         | Inr [] \<Rightarrow>
             (case default_push_destination g globals current of
                Inl e \<Rightarrow> Inl e
              | Inr destination \<Rightarrow> Inr [str ''HEAD:'' @ destination])
         | Inr specs \<Rightarrow> Inr specs)"

definition evaluate_push :: "guard \<Rightarrow> rstr list \<Rightarrow> rstr \<Rightarrow> OperationArguments \<Rightarrow> rstr \<Rightarrow> GuardError + unit" where
  "evaluate_push g globals remote parsed current =
     (case config_value g globals (str ''remote.'' @ remote @ str ''.mirror'') of
        Inl e \<Rightarrow> Inl e
      | Inr mirror \<Rightarrow>
          if mirror = Some (str ''true'')
          then Inl (Denied Push (''mirror remote configuration is unsupported'', []))
          else case push_refspecs g globals remote parsed current of
              Inl e \<Rightarrow> Inl e
            | Inr specs \<Rightarrow> check_push_refspecs g globals current specs)"

definition pull_source :: "rstr \<Rightarrow> rstr" where
  "pull_source refspec =
     (case split_once 58 (dropWhile (\<lambda>c. c = PLUS) refspec) of
        None \<Rightarrow> refspec
      | Some (source, _) \<Rightarrow> source)"

definition pull_refspecs :: "guard \<Rightarrow> rstr list \<Rightarrow> OperationArguments \<Rightarrow> rstr \<Rightarrow> GuardError + rstr list" where
  "pull_refspecs g globals parsed current =
     (case (if refspecs parsed = [] then config_values g globals (str ''branch.'' @ current @ str ''.merge'')
            else Inr (refspecs parsed)) of
        Inl e \<Rightarrow> Inl e
      | Inr [] \<Rightarrow>
          (case upstream_branch g globals of
             Inl e \<Rightarrow> Inl e
           | Inr None \<Rightarrow> Inl (Denied Pull (''the upstream branch cannot be resolved'', []))
           | Inr (Some upstream) \<Rightarrow> Inr [upstream])
      | Inr specs \<Rightarrow> Inr specs)"

definition evaluate_pull :: "guard \<Rightarrow> rstr list \<Rightarrow> OperationArguments \<Rightarrow> rstr \<Rightarrow> GuardError + unit" where
  "evaluate_pull g globals parsed current =
     (case pull_refspecs g globals parsed current of
        Inl e \<Rightarrow> Inl e
      | Inr specs \<Rightarrow>
          (case try_map (\<lambda>refspec. check_branch (gd_branches g) (pull_source refspec) Pull ''source'') specs of
             Inl e \<Rightarrow> Inl e
           | Inr _ \<Rightarrow> Inr ()))"

subsection \<open>Admission\<close>

definition has_config_env :: "rstr list \<Rightarrow> bool" where
  "has_config_env globals \<longleftrightarrow>
     list_ex (\<lambda>a. a = str ''--config-env'' \<or> starts_with a (str ''--config-env='')) globals"

text \<open>The checks of authenticated Git, which precede everything else.\<close>

definition check_authenticated :: "guard \<Rightarrow> rstr list \<Rightarrow> GuardError + unit" where
  "check_authenticated g globals =
     (if gd_github_https_auth g \<or> gd_git_ssh_auth g then
        (if has_config_env globals
         then Inl (InvalidInvocation (''--config-env is unsupported for authenticated Git'', []))
         else case validate_global_configuration globals Push of
             Inl e \<Rightarrow> Inl e
           | Inr _ \<Rightarrow> reject_external_configuration g globals Push)
      else Inr ())"

text \<open>The part of \<open>admit\<close> after the target is known to be the selected repository.\<close>

definition admit_selected ::
  "guard \<Rightarrow> Operation \<Rightarrow> GlobalInvocation \<Rightarrow> OperationArguments \<Rightarrow> rstr \<Rightarrow> rstr \<Rightarrow> GuardError + Admission" where
  "admit_selected g operation invocation parsed remote current =
     (let globals = global_arguments invocation
      in if has_config_env globals
         then Inl (Denied operation (''--config-env is unsupported because it can diverge probe configuration'', []))
         else case validate_global_configuration globals operation of
             Inl e \<Rightarrow> Inl e
           | Inr _ \<Rightarrow>
         if gi_unsupported_options invocation \<noteq> []
         then Inl (Denied operation (''unsupported global Git option'', []))
         else case reject_external_configuration g globals operation of
             Inl e \<Rightarrow> Inl e
           | Inr _ \<Rightarrow>
         (case check_branch (gd_branches g) current operation ''current'' of
             Inl e \<Rightarrow> Inl e
           | Inr _ \<Rightarrow>
         (case broad_option parsed of
             Some broad \<Rightarrow> Inl (Denied operation (''option `{}` may update an unbounded set of refs'', [broad]))
           | None \<Rightarrow>
         if oa_unsupported_options parsed \<noteq> []
         then Inl (Denied operation (''unsupported Git operation option'', []))
         else case (case operation of
                      Push \<Rightarrow> evaluate_push g globals remote parsed current
                    | Pull \<Rightarrow> evaluate_pull g globals parsed current) of
             Inl e \<Rightarrow> Inl e
           | Inr _ \<Rightarrow> Inr Guarded)))"

text \<open>The part that finds out which repository is meant.\<close>

definition admit_operation :: "guard \<Rightarrow> Operation \<Rightarrow> GlobalInvocation \<Rightarrow> OperationArguments \<Rightarrow> GuardError + Admission" where
  "admit_operation g operation invocation parsed =
     (let globals = global_arguments invocation
      in case (case repository parsed of
                 None \<Rightarrow> Inr False
               | Some repo \<Rightarrow>
                   (case resolve_remote_identity g globals operation repo of
                      Inl e \<Rightarrow> Inl e
                    | Inr identity \<Rightarrow> Inr (identity \<noteq> gd_selected_repository g))) of
           Inl e \<Rightarrow> Inl e
         | Inr True \<Rightarrow> Inr (PassThrough ''operation targets another repository'')
         | Inr False \<Rightarrow>
         (case required_value g globals [str ''branch'', str ''--show-current''] ''allowed non-detached current branch'' of
           Inl e \<Rightarrow> Inl e
         | Inr current \<Rightarrow>
         (case default_remote g globals operation current of
           Inl e \<Rightarrow> Inl e
         | Inr fallback \<Rightarrow>
         (let remote = (case repository parsed of Some r \<Rightarrow> r | None \<Rightarrow> fallback);
              target = resolve_remote_identity g globals operation remote
          in case optional_value g globals [str ''rev-parse'', str ''--show-toplevel''] of
               Inl e \<Rightarrow> Inl e
             | Inr root \<Rightarrow>
             (case (case root of Some r \<Rightarrow> gd_matches_path g r | None \<Rightarrow> Inr False) of
               Inl e \<Rightarrow> Inl e
             | Inr selected_workspace \<Rightarrow>
             (case target of
               Inr identity \<Rightarrow>
                 if identity \<noteq> gd_selected_repository g
                 then Inr (PassThrough ''operation targets another repository'')
                 else admit_selected g operation invocation parsed remote current
             | Inl e \<Rightarrow> if \<not> selected_workspace then Inl AmbiguousRepository else Inl e))))))"

definition admit_invocation :: "guard \<Rightarrow> rstr list \<Rightarrow> GuardError + Admission" where
  "admit_invocation g arguments =
     (case parse_invocation arguments of
        Inl e \<Rightarrow> Inl e
      | Inr parsed_invocation \<Rightarrow>
     (case resolve_aliases MAX_ALIAS_DEPTH g parsed_invocation of
        Inl e \<Rightarrow> Inl e
      | Inr invocation \<Rightarrow>
     (case check_authenticated g (global_arguments invocation) of
        Inl e \<Rightarrow> Inl e
      | Inr _ \<Rightarrow>
          if \<not> bp_enabled (gd_branches g) then Inr (PassThrough ''branch protection disabled'')
          else case (if command invocation = Some (str ''push'') then Some Push
                     else if command invocation = Some (str ''pull'') then Some Pull else None) of
              None \<Rightarrow> Inr (PassThrough ''not a guarded Git operation'')
            | Some operation \<Rightarrow>
                (case parse_operation_arguments operation (command_arguments invocation) of
                   Inl e \<Rightarrow> Inl e
                 | Inr parsed \<Rightarrow>
                     if help_requested parsed then Inr (PassThrough ''Git help requested'')
                     else admit_operation g operation invocation parsed))))"

subsection \<open>What a guarded admission guarantees\<close>

text \<open>The branches a policy lets through, in terms of names and globs only.\<close>

definition permitted :: "BranchPolicy \<Rightarrow> rstr \<Rightarrow> bool" where
  "permitted p b \<longleftrightarrow>
     (\<exists>n. normalize_branch b = Some n \<and>
        \<not> (\<exists>q \<in> set (bp_protected_branches p). eq_ignore_ascii_case q n) \<and>
        (\<exists>q \<in> set (bp_allowed_patterns p). glob_spec n q))"

lemma check_branch_permitted: "bp_enabled p \<Longrightarrow> check_branch p b operation label = Inr n \<Longrightarrow> permitted p b"
  by (auto simp: check_branch_exact permitted_def)

definition push_permitted :: "guard \<Rightarrow> rstr \<Rightarrow> rstr \<Rightarrow> bool" where
  "push_permitted g current spec \<longleftrightarrow>
     (\<exists>source destination. parse_push_refspec spec current = Inr (source, destination) \<and>
        permitted (gd_branches g) destination \<and>
        (case source of None \<Rightarrow> True | Some s \<Rightarrow> permitted (gd_branches g) s))"

lemma check_push_refspecs_permitted:
  assumes "bp_enabled (gd_branches g)"
  shows "check_push_refspecs g globals current specs = Inr u \<Longrightarrow> list_all (push_permitted g current) specs"
  by (induction specs)
     (auto simp: push_permitted_def split: sum.splits option.splits bool.splits prod.splits
           dest: check_branch_permitted [OF assms])

lemma evaluate_pull_permitted:
  assumes "bp_enabled (gd_branches g)" "evaluate_pull g globals parsed current = Inr u"
  shows "\<exists>specs. pull_refspecs g globals parsed current = Inr specs \<and>
           list_all (\<lambda>spec. permitted (gd_branches g) (pull_source spec)) specs"
proof -
  obtain specs ys where s: "pull_refspecs g globals parsed current = Inr specs"
    and y: "try_map (\<lambda>spec. check_branch (gd_branches g) (pull_source spec) Pull ''source'') specs = Inr ys"
    using assms(2) by (auto simp: evaluate_pull_def split: sum.splits)
  have "list_all (\<lambda>spec. permitted (gd_branches g) (pull_source spec)) specs"
    using y unfolding try_map_Inr_iff
    by (induction specs ys rule: list_all2_induct) (auto dest: check_branch_permitted [OF assms(1)])
  with s show ?thesis by blast
qed

text \<open>What is known of an operation that was let through as guarded.\<close>

definition guarded_operation :: "guard \<Rightarrow> Operation \<Rightarrow> GlobalInvocation \<Rightarrow> OperationArguments \<Rightarrow> rstr \<Rightarrow> rstr \<Rightarrow> bool" where
  "guarded_operation g operation invocation parsed remote current \<longleftrightarrow>
     resolve_remote_identity g (global_arguments invocation) operation remote = Inr (gd_selected_repository g) \<and>
     \<not> has_config_env (global_arguments invocation) \<and>
     validate_global_configuration (global_arguments invocation) operation = Inr () \<and>
     gi_unsupported_options invocation = [] \<and> broad_option parsed = None \<and> oa_unsupported_options parsed = [] \<and>
     permitted (gd_branches g) current \<and>
     (case operation of
        Push \<Rightarrow> \<exists>specs. push_refspecs g (global_arguments invocation) remote parsed current = Inr specs \<and>
                  list_all (push_permitted g current) specs
      | Pull \<Rightarrow> \<exists>specs. pull_refspecs g (global_arguments invocation) parsed current = Inr specs \<and>
                  list_all (\<lambda>spec. permitted (gd_branches g) (pull_source spec)) specs)"

lemma admit_selected_guarded:
  assumes "bp_enabled (gd_branches g)"
    and "resolve_remote_identity g (global_arguments invocation) operation remote = Inr (gd_selected_repository g)"
    and "admit_selected g operation invocation parsed remote current = Inr Guarded"
  shows "guarded_operation g operation invocation parsed remote current"
proof -
  have facts: "\<not> has_config_env (global_arguments invocation)"
    "validate_global_configuration (global_arguments invocation) operation = Inr ()"
    "gi_unsupported_options invocation = []" "broad_option parsed = None" "oa_unsupported_options parsed = []"
    "\<exists>n. check_branch (gd_branches g) current operation ''current'' = Inr n"
    "(case operation of Push \<Rightarrow> evaluate_push g (global_arguments invocation) remote parsed current
                      | Pull \<Rightarrow> evaluate_pull g (global_arguments invocation) parsed current) = Inr ()"
    using assms(3) by (auto simp: admit_selected_def Let_def split: if_splits sum.splits option.splits)
  show ?thesis
  proof (cases operation)
    case Push
    with facts(7) obtain specs where "push_refspecs g (global_arguments invocation) remote parsed current = Inr specs"
      "check_push_refspecs g (global_arguments invocation) current specs = Inr ()"
      by (auto simp: evaluate_push_def simp del: str_simps split: sum.splits if_splits)
    with Push facts assms(1,2) show ?thesis
      by (auto simp: guarded_operation_def dest: check_branch_permitted check_push_refspecs_permitted)
  next
    case Pull
    with facts assms(1,2) evaluate_pull_permitted [OF assms(1)] show ?thesis
      by (auto simp: guarded_operation_def dest: check_branch_permitted)
  qed
qed

lemma admit_operation_guarded:
  assumes "bp_enabled (gd_branches g)" "admit_operation g operation invocation parsed = Inr Guarded"
  shows "\<exists>remote current. guarded_operation g operation invocation parsed remote current"
proof -
  obtain remote current where
    "resolve_remote_identity g (global_arguments invocation) operation remote = Inr (gd_selected_repository g)"
    "admit_selected g operation invocation parsed remote current = Inr Guarded"
    using assms(2) by (auto simp: admit_operation_def Let_def simp del: str_simps split: sum.splits option.splits bool.splits if_splits)
  from admit_selected_guarded [OF assms(1) this] show ?thesis by blast
qed

text \<open>The invocation that remains after alias expansion.\<close>

definition resolved :: "guard \<Rightarrow> rstr list \<Rightarrow> GlobalInvocation \<Rightarrow> bool" where
  "resolved g args gi \<longleftrightarrow>
     (\<exists>gi0. parse_invocation args = Inr gi0 \<and> resolve_aliases MAX_ALIAS_DEPTH g gi0 = Inr gi)"

lemma admit_invocation_Inr:
  assumes "admit_invocation g args = Inr a" and "bp_enabled (gd_branches g)"
  shows "\<exists>gi. resolved g args gi \<and>
           (command gi \<noteq> Some (str ''push'') \<and> command gi \<noteq> Some (str ''pull'')
              \<and> a = PassThrough ''not a guarded Git operation'' \<or>
            (\<exists>operation parsed. command gi = Some (Operation_as_str operation) \<and>
               parse_operation_arguments operation (command_arguments gi) = Inr parsed \<and>
               (help_requested parsed \<and> a = PassThrough ''Git help requested'' \<or>
                admit_operation g operation gi parsed = Inr a)))"
proof -
  obtain gi where gi: "resolved g args gi"
    and rest: "(case (if command gi = Some (str ''push'') then Some Push
                     else if command gi = Some (str ''pull'') then Some Pull else None) of
              None \<Rightarrow> Inr (PassThrough ''not a guarded Git operation'')
            | Some operation \<Rightarrow>
                (case parse_operation_arguments operation (command_arguments gi) of
                   Inl e \<Rightarrow> Inl e
                 | Inr parsed \<Rightarrow>
                     if help_requested parsed then Inr (PassThrough ''Git help requested'')
                     else admit_operation g operation gi parsed)) = Inr a"
    using assms unfolding resolved_def
    by (auto simp: admit_invocation_def simp del: str_simps split: sum.splits)
  show ?thesis
  proof (cases "command gi = Some (str ''push'') \<or> command gi = Some (str ''pull'')")
    case False
    with gi rest show ?thesis by (auto simp del: str_simps)
  next
    case True
    then obtain operation where op: "command gi = Some (Operation_as_str operation)"
      using Operation_as_str.simps by metis
    have "str ''push'' \<noteq> str ''pull''" by code_simp
    with op have "(if command gi = Some (str ''push'') then Some Push
                   else if command gi = Some (str ''pull'') then Some Pull else None) = Some operation"
      by (cases operation) (auto simp del: str_simps)
    with rest obtain parsed where "parse_operation_arguments operation (command_arguments gi) = Inr parsed"
      "(if help_requested parsed then Inr (PassThrough ''Git help requested'')
        else admit_operation g operation gi parsed) = Inr a"
      by (auto split: sum.splits)
    with gi op show ?thesis by (metis Inr_inject)
  qed
qed


lemma admit_operation_passes:
  assumes "admit_operation g operation gi parsed = Inr (PassThrough r)"
  shows "\<exists>remote identity. resolve_remote_identity g (global_arguments gi) operation remote = Inr identity \<and>
           identity \<noteq> gd_selected_repository g"
  using assms
  by (auto simp: admit_operation_def admit_selected_def Let_def simp del: str_simps
           split: sum.splits option.splits bool.splits if_splits)


subsection \<open>Configuration overrides cannot hide behind option values\<close>

text \<open>
  The options of a command line as \<^const>\<open>parse_globals\<close> pairs them with their values: all of them,
  and the values given to \<^verbatim>\<open>-c\<close>.  The validation walks the flat list and may fall out of step with
  these pairs when an option's value looks like an option itself.
\<close>

fun globals_of :: "rstr list \<Rightarrow> rstr list" where
  "globals_of [] = []"
| "globals_of (a # rest) =
     (if a = str ''--'' then []
      else if a \<in> set GLOBAL_VALUE_OPTIONS then
        (case rest of [] \<Rightarrow> [] | v # r \<Rightarrow> a # v # globals_of r)
      else if global_value_prefix a \<or> compact_global_value a \<or> a \<in> set GLOBAL_FLAG_OPTIONS \<or> starts_with a (str ''-'')
      then a # globals_of rest
      else [])"

fun given_overrides :: "rstr list \<Rightarrow> rstr list" where
  "given_overrides [] = []"
| "given_overrides (a # rest) =
     (if a = str ''--'' then []
      else if a \<in> set GLOBAL_VALUE_OPTIONS then
        (case rest of [] \<Rightarrow> [] | v # r \<Rightarrow> (if a = str ''-c'' then [v] else []) @ given_overrides r)
      else if global_value_prefix a \<or> compact_global_value a \<or> a \<in> set GLOBAL_FLAG_OPTIONS \<or> starts_with a (str ''-'')
      then given_overrides rest
      else [])"

lemma parse_globals_globals: "parse_globals gs us args = Inr gi \<Longrightarrow> global_arguments gi = gs @ globals_of args"
proof (induction gs us args rule: parse_globals.induct)
  case (2 gs us a rest)
  then show ?case
    by (auto simp del: str_simps split: if_splits list.splits)
qed auto

lemma GLOBAL_VALUE_OPTIONS_dash: "a \<in> set GLOBAL_VALUE_OPTIONS \<Longrightarrow> starts_with a (str ''-'')"
  by (auto simp: GLOBAL_VALUE_OPTIONS_def starts_with_iff)

lemma globals_of_dash: "globals_of r = a # as \<Longrightarrow> starts_with a (str ''-'')"
proof -
  have "starts_with b (str ''-'')" if "global_value_prefix b \<or> compact_global_value b \<or> b \<in> set GLOBAL_FLAG_OPTIONS" for b
    using that
    by (auto simp: global_value_prefix_def compact_global_value_def GLOBAL_FLAG_OPTIONS_def GLOBAL_VALUE_OPTIONS_def
             starts_with_iff)
  then show "globals_of r = a # as \<Longrightarrow> starts_with a (str ''-'')"
    by (cases r) (auto simp del: str_simps split: if_splits list.splits dest: GLOBAL_VALUE_OPTIONS_dash)
qed

lemma lower_dash: "starts_with v (str ''-'') \<Longrightarrow> split_once 61 v = Some (k, x) \<Longrightarrow> \<exists>k'. k = 45 # k'"
  by (cases v) (auto simp: starts_with_iff split_once_Some_iff Cons_eq_append_conv)

lemma dash_not_override:
  assumes "starts_with v (str ''-'')"
  shows "\<not> safe_config_override v"
proof (cases "split_once 61 v")
  case (Some kx)
  then obtain k' x where "split_once 61 v = Some (45 # k', x)"
    using lower_dash [OF assms] by (cases kx) auto
  then show ?thesis
    by (auto simp: safe_config_override_def eq_ignore_ascii_case_def modeled_subsection_key_def starts_with_iff
             ascii_lower_def Let_def)
qed (simp add: safe_config_override_def)

lemma validate_value:
  assumes "validate_global_configuration (v # globals_of r) op = Inr u"
  shows "validate_global_configuration (globals_of r) op = Inr () \<or> globals_of r = []"
proof (cases "v = str ''-c''")
  case True
  then show ?thesis
    using assms by (cases "globals_of r") (auto dest: globals_of_dash dash_not_override simp del: str_simps split: if_splits)
next
  case False
  then show ?thesis
    using assms by (auto simp del: str_simps split: if_splits option.splits)
qed

lemma globals_of_Nil: "globals_of r = [] \<Longrightarrow> given_overrides r = []"
  by (cases r) (auto simp del: str_simps split: if_splits list.splits)

lemma value_option_not_override:
  "a \<in> set GLOBAL_VALUE_OPTIONS \<Longrightarrow> a \<noteq> str ''-c'' \<Longrightarrow> strip_prefix a (str ''-c'') = None"
  by (auto simp: GLOBAL_VALUE_OPTIONS_def strip_prefix_def starts_with_iff)

lemma minus_c_value_option: "str ''-c'' \<in> set GLOBAL_VALUE_OPTIONS"
  by (simp add: GLOBAL_VALUE_OPTIONS_def)

lemma validated_overrides:
  "validate_global_configuration (globals_of args) op = Inr u \<Longrightarrow> list_all safe_config_override (given_overrides args)"
proof (induction args rule: given_overrides.induct)
  case (2 a rest)
  show ?case
  proof (cases "a \<noteq> str ''--'' \<and> a \<in> set GLOBAL_VALUE_OPTIONS")
    case True
    show ?thesis
    proof (cases rest)
      case (Cons v r)
      have IH: "validate_global_configuration (globals_of r) op = Inr u \<or> globals_of r = [] \<Longrightarrow>
                list_all safe_config_override (given_overrides r)"
        using 2(1) True Cons globals_of_Nil [of r] by auto
      show ?thesis
      proof (cases "a = str ''-c''")
        case True
        with \<open>a \<noteq> str ''--'' \<and> _\<close> 2(3) Cons IH show ?thesis
          by (auto simp del: str_simps split: if_splits)
      next
        case False
        with True 2(3) Cons have "validate_global_configuration (v # globals_of r) op = Inr u"
          by (auto simp: value_option_not_override simp del: str_simps validate_global_configuration.simps(2)
                   simp: validate_global_configuration.simps(2) [of a] split: if_splits)
        from validate_value [OF this] IH False True Cons show ?thesis by auto
      qed
    qed (use True in simp)
  next
    case False
    show ?thesis
    proof (cases "a \<noteq> str ''--'' \<and> globals_of (a # rest) \<noteq> []")
      case True
      with False 2(3) have "validate_global_configuration (a # globals_of rest) op = Inr u"
        "given_overrides (a # rest) = given_overrides rest"
        by (auto simp del: str_simps validate_global_configuration.simps(2) split: if_splits)
      with validate_value [of a rest op u] 2(2) True False globals_of_Nil [of rest] show ?thesis
        by (auto simp del: str_simps split: if_splits)
    next
      case no: False
      then show ?thesis using False globals_of_Nil [of "a # rest"] by (auto simp del: str_simps globals_of.simps)
    qed
  qed
qed simp

text \<open>
  if the guard accepts the global options of a command line, then every value that Git receives
  with \<^verbatim>\<open>-c\<close> is one of the overrides the guard models.  In particular no choice of option values
  that look like options makes the flat validation skip an override.
\<close>

theorem accepted_overrides_safe:
  assumes "parse_invocation args = Inr gi" and "validate_global_configuration (global_arguments gi) operation = Inr ()"
  shows "list_all safe_config_override (given_overrides args)"
  using assms parse_globals_globals [of "[]" "[]" args gi] validated_overrides
  by (simp add: parse_invocation_def)

theorem accepted_overrides_safe_witness:
  "list_all safe_config_override
     (given_overrides [str ''-C'', str ''/w'', str ''-c'', str ''push.default=current'', str ''push''])"
proof (rule accepted_overrides_safe)
  show "parse_invocation [str ''-C'', str ''/w'', str ''-c'', str ''push.default=current'', str ''push''] =
          Inr \<lparr>global_arguments = [str ''-C'', str ''/w'', str ''-c'', str ''push.default=current''],
               command = Some (str ''push''), command_arguments = [], gi_unsupported_options = []\<rparr>"
    by code_simp
  show "validate_global_configuration
          (global_arguments \<lparr>global_arguments = [str ''-C'', str ''/w'', str ''-c'', str ''push.default=current''],
             command = Some (str ''push''), command_arguments = [], gi_unsupported_options = []\<rparr>) Push = Inr ()"
    by code_simp
qed

subsection \<open>An example repository\<close>

text \<open>A Git that knows one remote and one branch, and answers nothing else.\<close>

definition example_query :: "rstr list \<Rightarrow> GuardError + ProcessOutput" where
  "example_query args =
     (case map_of
             [(map str [''remote'', ''get-url'', ''--all'', ''--push'', ''origin''], str ''git@github.com:o/r'' @ [10]),
              (map str [''remote'', ''get-url'', ''--all'', ''--push'', ''fork''], str ''git@github.com:me/r'' @ [10]),
              (map str [''branch'', ''--show-current''], str ''feature/x'' @ [10]),
              (map str [''rev-parse'', ''--show-toplevel''], str ''/w'' @ [10]),
              (map str [''show-ref'', ''--verify'', ''--quiet'', ''refs/heads/feature/x''], [])] args of
        Some out \<Rightarrow> Inr \<lparr>exit_code = Some 0, stdout = as_bytes out\<rparr>
      | None \<Rightarrow> Inr \<lparr>exit_code = Some 1, stdout = []\<rparr>)"

definition example_guard :: guard where
  "example_guard =
     \<lparr>gd_selected_repository = \<lparr>ri_host = str ''github.com'', ri_owner = str ''o'', ri_name = str ''r''\<rparr>,
      gd_github_https_auth = False, gd_git_ssh_auth = False, gd_branches = example_branch_policy,
      gd_query = example_query, gd_matches_path = (\<lambda>p. Inr True), gd_url_parse = (\<lambda>_. None)\<rparr>"

lemma example_guard_enabled: "bp_enabled (gd_branches example_guard)"
  by (simp add: example_guard_def example_branch_policy_def)



end
