(* ===== verification/Mcp_Framing.thy ===== *)
theory Mcp_Framing
  imports Utf8
begin

section \<open>Framing of MCP streams (crates/sendbox-mcp/src/framing.rs)\<close>

text \<open>
  The incremental decoder for newline-delimited and \<^verbatim>\<open>Content-Length\<close> frames, and the encoder.  A call
  returns the decoder after it together with the frames or the error; the loops over the unread bytes
  are recursions on them.
\<close>

datatype FramingMode = Newline | ContentLength | Auto

datatype FrameError =
  FrameTooLarge nat | HeaderTooLarge nat | InvalidHeader rstr | IncompleteFrame | UndeterminedMode

record DecodedFrame =
  payload :: bytes
  raw :: bytes
  frame_mode :: FramingMode

record FrameDecoder =
  configured_mode :: FramingMode
  active_mode :: "FramingMode option"
  max_frame_bytes :: nat
  max_header_bytes :: nat
  newline_buffer :: bytes
  header_buffer :: bytes
  body_buffer :: bytes
  expected_body_bytes :: "nat option"
  auto_buffer :: bytes

type_synonym decoded = "FrameDecoder \<times> (FrameError + DecodedFrame list)"

definition with_header_limit :: "FramingMode \<Rightarrow> nat \<Rightarrow> nat \<Rightarrow> FrameDecoder" where
  "with_header_limit mode max_frame max_header =
     \<lparr>configured_mode = mode, active_mode = (if mode \<noteq> Auto then Some mode else None),
      max_frame_bytes = max max_frame 1, max_header_bytes = max max_header 32,
      newline_buffer = [], header_buffer = [], body_buffer = [], expected_body_bytes = None, auto_buffer = []\<rparr>"

definition FrameDecoder_new :: "FramingMode \<Rightarrow> nat \<Rightarrow> FrameDecoder" where
  "FrameDecoder_new mode max_frame = with_header_limit mode max_frame (8 * 1024)"

abbreviation LF :: u8 where "LF \<equiv> 10"
abbreviation CR :: u8 where "CR \<equiv> 13"

definition prepend :: "DecodedFrame list \<Rightarrow> decoded \<Rightarrow> decoded" where
  "prepend fs r = (fst r, case snd r of Inl e \<Rightarrow> Inl e | Inr gs \<Rightarrow> Inr (fs @ gs))"

subsection \<open>Newline frames\<close>

definition before_newline :: "bytes \<Rightarrow> bytes \<Rightarrow> u8 option" where
  "before_newline buffer segment =
     (if length segment \<ge> 2 then Some (segment ! (length segment - 2))
      else if buffer = [] then None else Some (last buffer))"

definition check_completed_newline_frame :: "FrameDecoder \<Rightarrow> bytes \<Rightarrow> FrameError + unit" where
  "check_completed_newline_frame d segment =
     (let raw_bytes = length (newline_buffer d) + length segment;
          delimiter_bytes = 1 + (if before_newline (newline_buffer d) segment = Some CR then 1 else 0)
      in if raw_bytes - delimiter_bytes > max_frame_bytes d then Inl (FrameTooLarge (max_frame_bytes d)) else Inr ())"

definition newline_payload :: "bytes \<Rightarrow> bytes" where
  "newline_payload raw_bytes =
     (let end1 = length raw_bytes - 1
      in take (if end1 > 0 \<and> raw_bytes ! (end1 - 1) = CR then end1 - 1 else end1) raw_bytes)"

function feed_newline :: "FrameDecoder \<Rightarrow> bytes \<Rightarrow> decoded" where
  "feed_newline d bytes =
     (if bytes = [] then (d, Inr [])
      else if LF \<in> set bytes then
        (let segment = takeWhile (\<lambda>b. b \<noteq> LF) bytes @ [LF]
         in case check_completed_newline_frame d segment of
              Inl e \<Rightarrow> (d, Inl e)
            | Inr _ \<Rightarrow>
                (let r = newline_buffer d @ segment
                 in prepend [\<lparr>payload = newline_payload r, raw = r, frame_mode = Newline\<rparr>]
                      (feed_newline (d\<lparr>newline_buffer := []\<rparr>) (drop (length segment) bytes))))
      else if length (newline_buffer d) + length bytes > max_frame_bytes d + 1
      then (d, Inl (FrameTooLarge (max_frame_bytes d)))
      else (d\<lparr>newline_buffer := newline_buffer d @ bytes\<rparr>, Inr []))"
  by pat_completeness auto
termination
  by (relation "measure (\<lambda>(_, bytes). length bytes)") auto

declare feed_newline.simps [simp del]

subsection \<open>Content-Length frames\<close>

definition ends_with_bytes :: "bytes \<Rightarrow> bytes \<Rightarrow> bool" where
  "ends_with_bytes s p \<longleftrightarrow> length p \<le> length s \<and> drop (length s - length p) s = p"

definition header_complete :: "bytes \<Rightarrow> bool" where
  "header_complete header \<longleftrightarrow> ends_with_bytes header [CR, LF, CR, LF] \<or> ends_with_bytes header [LF, LF]"

definition trim_end_newlines :: "rstr \<Rightarrow> rstr" where
  "trim_end_newlines s = rev (dropWhile (\<lambda>c. c = 10) (rev s))"

definition trim_blanks :: "rstr \<Rightarrow> rstr" where
  "trim_blanks s = rev (dropWhile (\<lambda>c. c = 32 \<or> c = 9) (rev (dropWhile (\<lambda>c. c = 32 \<or> c = 9) s)))"

text \<open>The loop over the header lines, with the length found so far.\<close>

fun scan_header_lines :: "rstr list \<Rightarrow> nat option \<Rightarrow> FrameError + nat option" where
  "scan_header_lines [] found = Inr found"
| "scan_header_lines (line # rest) found =
     (case split_once 58 line of
        None \<Rightarrow> Inl (InvalidHeader (str ''header line is missing '' @ [39, 58, 39]))
      | Some (name, value0) \<Rightarrow>
          if \<not> eq_ignore_ascii_case name (str ''content-length'') then Inl (InvalidHeader (str ''unexpected header '' @ [39] @ name @ [39]))
          else if found \<noteq> None then Inl (InvalidHeader (str ''duplicate Content-Length header''))
          else let value = trim_blanks value0
               in if value = [] \<or> (rlen value > 1 \<and> starts_with value (str ''0'')) \<or> \<not> list_all is_ascii_digit value
                  then Inl (InvalidHeader (str ''Content-Length must be a canonical unsigned decimal''))
                  else if decimal_value value \<ge> 2 ^ 64 then Inl (InvalidHeader (str ''Content-Length overflow''))
                  else scan_header_lines rest (Some (decimal_value value)))"

definition parse_content_length :: "bytes \<Rightarrow> FrameError + nat" where
  "parse_content_length header =
     (case from_utf8 header of
        None \<Rightarrow> Inl (InvalidHeader (str ''header is not ASCII/UTF-8''))
      | Some text \<Rightarrow>
          (let normalized = str_replace [13, 10] [10] text
           in case scan_header_lines (split_on 10 (trim_end_newlines normalized)) None of
                Inl e \<Rightarrow> Inl e
              | Inr None \<Rightarrow> Inl (InvalidHeader (str ''missing Content-Length''))
              | Inr (Some n) \<Rightarrow> Inr n))"

text \<open>
  The body never holds more than the expected bytes (\<open>decoder_ok\<close> below), so that \<^verbatim>\<open>take\<close> is zero in the
  third branch only for a decoder that no sequence of calls builds.
\<close>

function feed_content_length :: "FrameDecoder \<Rightarrow> bytes \<Rightarrow> decoded" where
  "feed_content_length d bytes =
     (if bytes = [] then (d, Inr [])
      else case expected_body_bytes d of
          Some expected \<Rightarrow>
            (let needed = expected - length (body_buffer d);
                 n = min needed (length bytes);
                 body = body_buffer d @ take n bytes
             in if length body = expected then
                  prepend [\<lparr>payload = body, raw = header_buffer d @ body, frame_mode = ContentLength\<rparr>]
                    (feed_content_length (d\<lparr>body_buffer := [], header_buffer := [], expected_body_bytes := None\<rparr>)
                       (drop n bytes))
                else if n = 0 then (d, Inr [])
                else feed_content_length (d\<lparr>body_buffer := body\<rparr>) (drop n bytes))
        | None \<Rightarrow>
            if length (header_buffer d) \<ge> max_header_bytes d
            then (d, Inl (HeaderTooLarge (max_header_bytes d)))
            else
              (let header = header_buffer d @ [hd bytes]
               in if header_complete header then
                    (case parse_content_length header of
                       Inl e \<Rightarrow> (d\<lparr>header_buffer := header\<rparr>, Inl e)
                     | Inr n \<Rightarrow>
                         if n > max_frame_bytes d
                         then (d\<lparr>header_buffer := header\<rparr>, Inl (FrameTooLarge (max_frame_bytes d)))
                         else if n = 0 then
                           prepend [\<lparr>payload = [], raw = header, frame_mode = ContentLength\<rparr>]
                             (feed_content_length
                                (d\<lparr>header_buffer := [], body_buffer := [], expected_body_bytes := None\<rparr>) (tl bytes))
                         else feed_content_length
                                (d\<lparr>header_buffer := header, body_buffer := [], expected_body_bytes := Some n\<rparr>)
                                (tl bytes))
                  else feed_content_length (d\<lparr>header_buffer := header\<rparr>) (tl bytes)))"
  by pat_completeness auto
termination
  by (relation "measures [\<lambda>(_, bytes). length bytes, \<lambda>(d, _). if expected_body_bytes d = None then 0 else 1]")
     (auto split: if_splits)

declare feed_content_length.simps [simp del]

subsection \<open>The decoder\<close>

definition CONTENT_LENGTH_PREFIX :: bytes where
  "CONTENT_LENGTH_PREFIX = as_bytes (str ''content-length:'')"

definition byte_lower :: "u8 \<Rightarrow> u8" where
  "byte_lower b = (if 65 \<le> b \<and> b \<le> 90 then b + 32 else b)"

definition is_prefix_bytes :: "bytes \<Rightarrow> bytes \<Rightarrow> bool" where
  "is_prefix_bytes p s \<longleftrightarrow> length p \<le> length s \<and> take (length p) s = p"

text \<open>\<^verbatim>\<open>detect_mode\<close>: the decoder after it, and the number of bytes consumed.\<close>

definition detect_mode :: "FrameDecoder \<Rightarrow> bytes \<Rightarrow> FrameDecoder \<times> (FrameError + nat)" where
  "detect_mode d bytes =
     (if configured_mode d \<noteq> Auto then (d\<lparr>active_mode := Some (configured_mode d)\<rparr>, Inr 0)
      else
        (let needed = length CONTENT_LENGTH_PREFIX;
             n = min (needed - length (auto_buffer d)) (length bytes)
         in if length (auto_buffer d) + n > max_header_bytes d
            then (d, Inl (HeaderTooLarge (max_header_bytes d)))
            else
              (let buffer = auto_buffer d @ take n bytes;
                   lower = map byte_lower buffer
               in if is_prefix_bytes lower CONTENT_LENGTH_PREFIX \<and> length lower < needed
                  then (d\<lparr>auto_buffer := buffer\<rparr>, Inr n)
                  else (d\<lparr>auto_buffer := buffer,
                          active_mode := (if is_prefix_bytes CONTENT_LENGTH_PREFIX lower
                                          then Some ContentLength else Some Newline)\<rparr>, Inr n))))"

definition feed_active :: "FrameDecoder \<Rightarrow> bytes \<Rightarrow> decoded" where
  "feed_active d bytes =
     (case active_mode d of
        Some Newline \<Rightarrow> feed_newline d bytes
      | Some ContentLength \<Rightarrow> feed_content_length d bytes
      | _ \<Rightarrow> (d, Inl UndeterminedMode))"

definition feed :: "FrameDecoder \<Rightarrow> bytes \<Rightarrow> decoded" where
  "feed d bytes =
     (if active_mode d = None then
        (case detect_mode d bytes of
           (d1, Inl e) \<Rightarrow> (d1, Inl e)
         | (d1, Inr consumed) \<Rightarrow>
             if active_mode d1 = None then (d1, Inr [])
             else
               (case feed_active (d1\<lparr>auto_buffer := []\<rparr>) (auto_buffer d1) of
                  (d2, Inl e) \<Rightarrow> (d2, Inl e)
                | (d2, Inr frames) \<Rightarrow> prepend frames (feed_active d2 (drop consumed bytes))))
      else feed_active d bytes)"

definition finish :: "FrameDecoder \<Rightarrow> FrameError + unit" where
  "finish d =
     (if active_mode d = None \<and> auto_buffer d = [] then Inr ()
      else if auto_buffer d \<noteq> [] \<or> newline_buffer d \<noteq> [] \<or> header_buffer d \<noteq> [] \<or> body_buffer d \<noteq> []
              \<or> expected_body_bytes d \<noteq> None
      then Inl IncompleteFrame else Inr ())"

subsection \<open>The encoder\<close>

definition content_length_header :: "nat \<Rightarrow> bytes" where
  "content_length_header n = as_bytes (str ''Content-Length: '' @ show_nat n @ [13, 10, 13, 10])"

definition encode_frame :: "bytes \<Rightarrow> FramingMode \<Rightarrow> bytes" where
  "encode_frame body mode =
     (case mode of
        ContentLength \<Rightarrow> content_length_header (length body) @ body
      | _ \<Rightarrow> body @ [LF])"

subsection \<open>Chunking is invisible\<close>

lemma prepend_prepend [simp]: "prepend fs (prepend gs r) = prepend (fs @ gs) r"
  by (cases r; cases "snd r") (auto simp: prepend_def)

lemma prepend_Nil [simp]: "prepend [] r = r"
  by (cases r; cases "snd r") (auto simp: prepend_def)

lemma prepend_Inr: "prepend fs r = (d, Inr gs) \<longleftrightarrow> (\<exists>hs. r = (d, Inr hs) \<and> gs = fs @ hs)"
  by (cases r; cases "snd r") (auto simp: prepend_def)

text \<open>One feed, then another, collecting the frames.\<close>

definition then_feed :: "(FrameDecoder \<Rightarrow> bytes \<Rightarrow> decoded) \<Rightarrow> decoded \<Rightarrow> bytes \<Rightarrow> decoded" where
  "then_feed f r bytes = (case r of (d, Inl e) \<Rightarrow> (d, Inl e) | (d, Inr fs) \<Rightarrow> prepend fs (f d bytes))"

lemma then_feed_prepend [simp]: "then_feed f (prepend fs r) bytes = prepend fs (then_feed f r bytes)"
  by (cases r; cases "snd r") (auto simp: then_feed_def prepend_def split: sum.splits)

lemma feed_newline_Nil [simp]: "feed_newline d [] = (d, Inr [])"
  by (simp add: feed_newline.simps)

lemma feed_content_length_Nil [simp]: "feed_content_length d [] = (d, Inr [])"
  by (simp add: feed_content_length.simps)

lemma feed_body_partial:
  assumes "expected_body_bytes d = Some e" "length (body_buffer d) + length bytes < e"
  shows "feed_content_length d bytes = (d\<lparr>body_buffer := body_buffer d @ bytes\<rparr>, Inr [])"
proof (cases "bytes = []")
  case False
  with assms have "min (e - length (body_buffer d)) (length bytes) = length bytes" by simp
  with False assms show ?thesis
    by (subst feed_content_length.simps) (simp add: Let_def)
qed (simp)

lemma feed_body_complete:
  assumes "expected_body_bytes d = Some e" "length (body_buffer d) < e"
    and "needed = e - length (body_buffer d)" "needed \<le> length bytes"
  shows "feed_content_length d bytes =
    prepend [\<lparr>payload = body_buffer d @ take needed bytes, raw = header_buffer d @ body_buffer d @ take needed bytes,
              frame_mode = ContentLength\<rparr>]
      (feed_content_length (d\<lparr>body_buffer := [], header_buffer := [], expected_body_bytes := None\<rparr>)
         (drop needed bytes))"
proof -
  have "bytes \<noteq> []" "min needed (length bytes) = needed" using assms by auto
  with assms show ?thesis
    by (subst feed_content_length.simps) (simp add: Let_def)
qed

definition body_ok :: "FrameDecoder \<Rightarrow> bool" where
  "body_ok d \<longleftrightarrow> (case expected_body_bytes d of None \<Rightarrow> body_buffer d = []
     | Some e \<Rightarrow> length (body_buffer d) < e \<and> e \<le> max_frame_bytes d)"

lemma body_ok_frame [simp]:
  "body_ok (d\<lparr>newline_buffer := x\<rparr>) = body_ok d" "body_ok (d\<lparr>header_buffer := x\<rparr>) = body_ok d"
  "body_ok (d\<lparr>auto_buffer := x\<rparr>) = body_ok d" "body_ok (d\<lparr>active_mode := m\<rparr>) = body_ok d"
  by (simp_all add: body_ok_def split: option.splits)

lemma feed_content_length_append:
  assumes "body_ok d"
  shows "feed_content_length d (a @ b) = then_feed feed_content_length (feed_content_length d a) b"
  using assms
proof (induction "length a" arbitrary: d a rule: less_induct)
  case less
  show ?case
  proof (cases "a = []")
    case ne: False
    show ?thesis
    proof (cases "expected_body_bytes d")
      case None
      have IH: "feed_content_length d' (tl a @ b) = then_feed feed_content_length (feed_content_length d' (tl a)) b"
        if "body_ok d'" for d'
        using less.hyps [of "tl a" d'] ne that by simp
      have "hd (a @ b) = hd a" "tl (a @ b) = tl a @ b" using ne by auto
      moreover have "body_buffer d = []" using less.prems None by (simp add: body_ok_def)
      ultimately show ?thesis
        using ne None
        unfolding feed_content_length.simps [of d "a @ b"] feed_content_length.simps [of d a]
        by (auto simp: Let_def IH body_ok_def then_feed_def [of _ "(_, Inl _)"] split: sum.splits)
    next
      case (Some e)
      then have lt: "length (body_buffer d) < e" using less.prems by (simp add: body_ok_def)
      let ?n = "e - length (body_buffer d)"
      show ?thesis
      proof (cases "?n \<le> length a")
        case True
        moreover have "length (drop ?n a) < length a" using lt ne by (cases a) auto
        ultimately show ?thesis
          using Some lt
          by (simp add: feed_body_complete [OF Some lt refl] less.hyps body_ok_def)
      next
        case False
        let ?d = "d\<lparr>body_buffer := body_buffer d @ a\<rparr>"
        have a: "feed_content_length d a = (?d, Inr [])"
          using feed_body_partial [OF Some] False lt by simp
        have d: "expected_body_bytes ?d = Some e" "length (body_buffer ?d) < e"
          using Some False lt by simp_all
        show ?thesis
        proof (cases "?n \<le> length a + length b")
          case True
          then have "e - length (body_buffer ?d) \<le> length b" by simp
          with True False show ?thesis
            by (simp add: a then_feed_def feed_body_complete [OF Some lt refl] feed_body_complete [OF d refl])
        next
          case False
          then show ?thesis
            by (simp add: a then_feed_def feed_body_partial [OF Some] feed_body_partial [OF d(1)])
        qed
      qed
    qed
  qed (simp add: then_feed_def)
qed

text \<open>A completed line is refused exactly when its payload is too long.\<close>

lemma newline_payload_snoc:
  "newline_payload (x @ [LF]) = (if x \<noteq> [] \<and> last x = CR then butlast x else x)"
  by (auto simp: newline_payload_def Let_def nth_append last_conv_nth butlast_conv_take)

lemma check_completed_eq:
  "check_completed_newline_frame d (p @ [LF]) =
     (if length (newline_payload (newline_buffer d @ p @ [LF])) > max_frame_bytes d
      then Inl (FrameTooLarge (max_frame_bytes d)) else Inr ())"
proof -
  let ?x = "newline_buffer d @ p"
  have "before_newline (newline_buffer d) (p @ [LF]) = (if ?x = [] then None else Some (last ?x))"
    by (cases p rule: rev_cases) (auto simp: before_newline_def nth_append)
  moreover have "length (newline_payload (newline_buffer d @ p @ [LF])) =
      length ?x - (if ?x \<noteq> [] \<and> last ?x = CR then 1 else 0)"
    using newline_payload_snoc [of ?x] by simp
  ultimately show ?thesis
    by (auto simp: check_completed_newline_frame_def Let_def)
qed

definition newline_frame :: "bytes \<Rightarrow> DecodedFrame" where
  "newline_frame r = \<lparr>payload = newline_payload r, raw = r, frame_mode = Newline\<rparr>"

lemma feed_newline_line:
  assumes "LF \<notin> set p"
  shows "feed_newline d (p @ LF # rest) =
    (if length (newline_payload (newline_buffer d @ p @ [LF])) > max_frame_bytes d
     then (d, Inl (FrameTooLarge (max_frame_bytes d)))
     else prepend [newline_frame (newline_buffer d @ p @ [LF])] (feed_newline (d\<lparr>newline_buffer := []\<rparr>) rest))"
proof -
  have "takeWhile (\<lambda>b. b \<noteq> LF) (p @ LF # rest) = p"
    using assms by (induction p) auto
  then show ?thesis
    by (subst feed_newline.simps) (auto simp: Let_def check_completed_eq newline_frame_def)
qed

lemma feed_newline_partial:
  assumes "LF \<notin> set p" "length (newline_buffer d) \<le> max_frame_bytes d + 1"
  shows "feed_newline d p =
    (if length (newline_buffer d @ p) > max_frame_bytes d + 1 then (d, Inl (FrameTooLarge (max_frame_bytes d)))
     else (d\<lparr>newline_buffer := newline_buffer d @ p\<rparr>, Inr []))"
  using assms by (subst feed_newline.simps) auto

lemma newline_payload_long: "n + 1 < length x \<Longrightarrow> n < length (newline_payload (x @ [LF]))"
  by (auto simp: newline_payload_snoc)

lemma feed_newline_append:
  assumes "length (newline_buffer d) \<le> max_frame_bytes d + 1"
  shows "feed_newline d (a @ b) = (d', Inr fs) \<longleftrightarrow> then_feed feed_newline (feed_newline d a) b = (d', Inr fs)"
  using assms
proof (induction "length a" arbitrary: d a fs rule: less_induct)
  case less
  show ?case
  proof (cases "LF \<in> set a")
    case True
    then obtain p r where a: "a = p @ LF # r" and p: "LF \<notin> set p" by (meson split_list_first)
    let ?d = "d\<lparr>newline_buffer := []\<rparr>"
    have "feed_newline ?d (r @ b) = (d', Inr gs) \<longleftrightarrow> then_feed feed_newline (feed_newline ?d r) b = (d', Inr gs)" for gs
      by (rule less.hyps) (simp_all add: a)
    then show ?thesis
      by (simp add: a feed_newline_line [OF p] prepend_Inr then_feed_def [of _ "(_, Inl _)"])
  next
    case False
    note pa = feed_newline_partial [OF False less.prems]
    let ?d = "d\<lparr>newline_buffer := newline_buffer d @ a\<rparr>"
    show ?thesis
    proof (cases "LF \<in> set b")
      case True
      then obtain q r where b: "b = q @ LF # r" and q: "LF \<notin> set q" by (meson split_list_first)
      have "LF \<notin> set (a @ q)" using False q by simp
      from feed_newline_line [OF this, of d r] show ?thesis
        using newline_payload_long [of "max_frame_bytes d" "newline_buffer d @ a @ q"]
        by (auto simp: b pa then_feed_def feed_newline_line [OF q])
    next
      case b: False
      have "LF \<notin> set (a @ b)" using False b by simp
      from feed_newline_partial [OF this less.prems] show ?thesis
        by (auto simp: pa then_feed_def feed_newline_partial [OF b])
    qed
  qed
qed

subsection \<open>The invariant of the decoder\<close>

definition auto_pending :: "FrameDecoder \<Rightarrow> bool" where
  "auto_pending d \<longleftrightarrow> configured_mode d = Auto \<and> length (auto_buffer d) < length CONTENT_LENGTH_PREFIX
     \<and> is_prefix_bytes (map byte_lower (auto_buffer d)) CONTENT_LENGTH_PREFIX"

definition decoder_ok :: "FrameDecoder \<Rightarrow> bool" where
  "decoder_ok d \<longleftrightarrow> 32 \<le> max_header_bytes d \<and> body_ok d
     \<and> length (newline_buffer d) \<le> max_frame_bytes d + 1
     \<and> (case active_mode d of
          None \<Rightarrow> auto_pending d \<and> newline_buffer d = [] \<and> header_buffer d = [] \<and> expected_body_bytes d = None
        | Some m \<Rightarrow> m \<noteq> Auto \<and> auto_buffer d = [])"

text \<open>The bytes received that belong to no frame yet.\<close>

definition pending :: "FrameDecoder \<Rightarrow> bytes" where
  "pending d = (case active_mode d of
     None \<Rightarrow> auto_buffer d | Some Newline \<Rightarrow> newline_buffer d | _ \<Rightarrow> header_buffer d @ body_buffer d)"

definition same_settings :: "FrameDecoder \<Rightarrow> FrameDecoder \<Rightarrow> bool" where
  "same_settings d d' \<longleftrightarrow> configured_mode d' = configured_mode d \<and> max_frame_bytes d' = max_frame_bytes d
     \<and> max_header_bytes d' = max_header_bytes d"

text \<open>
  What a call promises: the settings stay, the invariant holds again, the frames and the pending bytes
  are exactly the bytes received, and no payload is larger than the limit.
\<close>

definition feed_promise :: "FrameDecoder \<Rightarrow> bytes \<Rightarrow> decoded \<Rightarrow> bool" where
  "feed_promise d bytes r \<longleftrightarrow>
     same_settings d (fst r) \<and> (active_mode d \<noteq> None \<longrightarrow> active_mode (fst r) = active_mode d)
     \<and> (case snd r of
          Inl e \<Rightarrow> True
        | Inr fs \<Rightarrow> decoder_ok (fst r) \<and> concat (map raw fs) @ pending (fst r) = pending d @ bytes
            \<and> (\<forall>f \<in> set fs. length (payload f) \<le> max_frame_bytes d))"

lemma feed_promise_prepend:
  assumes "feed_promise d' rest r" "same_settings d d'" "active_mode d' = active_mode d" "active_mode d \<noteq> None"
    and "pending d @ bytes = concat (map raw fs) @ pending d' @ rest"
    and "\<forall>f \<in> set fs. length (payload f) \<le> max_frame_bytes d"
  shows "feed_promise d bytes (prepend fs r)"
  using assms by (cases r; cases "snd r") (auto simp: feed_promise_def prepend_def same_settings_def)

lemmas feed_promise_step = feed_promise_prepend [where fs = "[]", simplified]

lemma feed_newline_promise:
  assumes "decoder_ok d" "active_mode d = Some Newline"
  shows "feed_promise d bytes (feed_newline d bytes)"
  using assms
proof (induction "length bytes" arbitrary: d bytes rule: less_induct)
  case less
  have le: "length (newline_buffer d) \<le> max_frame_bytes d + 1" using less.prems by (simp add: decoder_ok_def)
  show ?case
  proof (cases "LF \<in> set bytes")
    case True
    then obtain p r where b: "bytes = p @ LF # r" and p: "LF \<notin> set p" by (meson split_list_first)
    let ?d = "d\<lparr>newline_buffer := []\<rparr>"
    have "feed_promise ?d r (feed_newline ?d r)"
      by (rule less.hyps) (use less.prems in \<open>simp_all add: b decoder_ok_def\<close>)
    then have "feed_promise d bytes (prepend [newline_frame (newline_buffer d @ p @ [LF])] (feed_newline ?d r))"
      if "length (newline_payload (newline_buffer d @ p @ [LF])) \<le> max_frame_bytes d"
      by (rule feed_promise_prepend)
         (use that less.prems in \<open>simp_all add: same_settings_def b pending_def newline_frame_def\<close>)
    then show ?thesis
      by (auto simp: b feed_newline_line [OF p] feed_promise_def [of _ _ "(_, Inl _)"] same_settings_def)
  next
    case False
    from feed_newline_partial [OF this le] show ?thesis
      using less.prems
      by (auto simp: feed_promise_def same_settings_def pending_def decoder_ok_def)
  qed
qed

lemma feed_promise_Inl [simp]:
  "feed_promise d bytes (d', Inl e) \<longleftrightarrow>
     same_settings d d' \<and> (active_mode d \<noteq> None \<longrightarrow> active_mode d' = active_mode d)"
  by (simp add: feed_promise_def)

lemma feed_header_promise:
  assumes d: "decoder_ok d" "active_mode d = Some ContentLength" and None: "expected_body_bytes d = None"
    and bytes: "bytes = b # rest"
    and IH: "\<And>d'. decoder_ok d' \<Longrightarrow> active_mode d' = Some ContentLength \<Longrightarrow>
               feed_promise d' rest (feed_content_length d' rest)"
  shows "feed_promise d bytes (feed_content_length d bytes)"
proof -
  let ?h = "header_buffer d @ [b]"
  have body: "body_buffer d = []" using d None by (simp add: decoder_ok_def body_ok_def)
  note facts = d None bytes body decoder_ok_def same_settings_def pending_def
  have skip: "feed_promise d bytes (feed_content_length (d\<lparr>header_buffer := ?h\<rparr>) rest)"
    by (rule feed_promise_step [OF IH]) (use d body in \<open>simp_all add: facts\<close>)
  have body_next: "feed_promise d bytes
      (feed_content_length (d\<lparr>header_buffer := ?h, body_buffer := [], expected_body_bytes := Some n\<rparr>) rest)"
    if "0 < n" "n \<le> max_frame_bytes d" for n
    by (rule feed_promise_step [OF IH]) (use d body that in \<open>simp_all add: facts body_ok_def\<close>)
  have empty: "feed_promise d bytes
      (prepend [\<lparr>payload = [], raw = ?h, frame_mode = ContentLength\<rparr>]
         (feed_content_length (d\<lparr>header_buffer := [], body_buffer := [], expected_body_bytes := None\<rparr>) rest))"
    by (rule feed_promise_prepend [OF IH]) (use d body in \<open>simp_all add: facts body_ok_def\<close>)
  show ?thesis
    using skip body_next empty None bytes
    by (subst feed_content_length.simps) (auto simp: Let_def same_settings_def split: sum.splits)
qed

lemma feed_content_length_promise:
  assumes "decoder_ok d" "active_mode d = Some ContentLength"
  shows "feed_promise d bytes (feed_content_length d bytes)"
  using assms
proof (induction "length bytes" arbitrary: d bytes rule: less_induct)
  case less
  show ?case
  proof (cases "expected_body_bytes d")
    case None
    show ?thesis
    proof (cases bytes)
      case (Cons b rest)
      then show ?thesis
        using less by (intro feed_header_promise [OF less.prems None]) auto
    qed (use less.prems in \<open>simp add: feed_promise_def same_settings_def\<close>)
  next
    case (Some e)
    then have e: "length (body_buffer d) < e" "e \<le> max_frame_bytes d"
      using less.prems by (simp_all add: decoder_ok_def body_ok_def)
    let ?n = "e - length (body_buffer d)"
    let ?d = "d\<lparr>body_buffer := [], header_buffer := [], expected_body_bytes := None\<rparr>"
    show ?thesis
    proof (cases "?n \<le> length bytes")
      case True
      then have "feed_promise ?d (drop ?n bytes) (feed_content_length ?d (drop ?n bytes))"
        using less.prems e by (intro less.hyps) (auto simp: decoder_ok_def body_ok_def)
      then show ?thesis
        unfolding feed_body_complete [OF Some e(1) refl True]
        by (rule feed_promise_prepend)
           (use less.prems e True in \<open>simp_all add: same_settings_def pending_def\<close>)
    next
      case False
      with feed_body_partial [OF Some, of bytes] less.prems e Some show ?thesis
        by (simp add: feed_promise_def same_settings_def decoder_ok_def body_ok_def pending_def)
    qed
  qed
qed

lemma feed_active_promise:
  assumes "decoder_ok d" "active_mode d \<noteq> None"
  shows "feed_promise d bytes (feed_active d bytes)"
proof -
  from assms obtain m where "active_mode d = Some m" "m \<noteq> Auto" by (auto simp: decoder_ok_def)
  with assms feed_newline_promise feed_content_length_promise show ?thesis
    by (cases m) (auto simp: feed_active_def)
qed

lemma then_feed_Inr:
  "then_feed f r b = (d', Inr fs) \<longleftrightarrow>
     (\<exists>d1 f1 f2. r = (d1, Inr f1) \<and> f d1 b = (d', Inr f2) \<and> fs = f1 @ f2)"
  by (cases r; cases "snd r") (auto simp: then_feed_def prepend_Inr)

lemma feed_active_append:
  assumes "decoder_ok d" "active_mode d \<noteq> None"
  shows "feed_active d (a @ b) = (d', Inr fs) \<longleftrightarrow> then_feed feed_active (feed_active d a) b = (d', Inr fs)"
proof -
  have "active_mode (fst (feed_active d a)) = active_mode d"
    using feed_active_promise [OF assms, of a] assms(2) by (auto simp: feed_promise_def)
  moreover have "length (newline_buffer d) \<le> max_frame_bytes d + 1" "body_ok d"
    using assms by (simp_all add: decoder_ok_def)
  moreover from assms obtain m where "active_mode d = Some m" "m \<noteq> Auto" by (auto simp: decoder_ok_def)
  ultimately show ?thesis
    by (cases m) (auto simp: feed_active_def then_feed_Inr feed_newline_append feed_content_length_append)
qed

subsection \<open>Detection of the mode\<close>

definition undecided :: "bytes \<Rightarrow> bool" where
  "undecided bytes \<longleftrightarrow> length bytes < length CONTENT_LENGTH_PREFIX
     \<and> is_prefix_bytes (map byte_lower bytes) CONTENT_LENGTH_PREFIX"

definition detected_mode :: "bytes \<Rightarrow> FramingMode" where
  "detected_mode bytes =
     (if is_prefix_bytes CONTENT_LENGTH_PREFIX (map byte_lower bytes) then ContentLength else Newline)"

lemma length_CONTENT_LENGTH_PREFIX [simp]: "length CONTENT_LENGTH_PREFIX = 15"
  by (simp add: CONTENT_LENGTH_PREFIX_def length_as_bytes)

lemma detect_mode_pending:
  fixes d bytes
  assumes "auto_pending d" "32 \<le> max_header_bytes d"
  defines "buffer \<equiv> take 15 (auto_buffer d @ bytes)"
  shows "detect_mode d bytes =
    (if undecided buffer then (d\<lparr>auto_buffer := buffer\<rparr>, Inr (length bytes))
     else (d\<lparr>auto_buffer := buffer, active_mode := Some (detected_mode buffer)\<rparr>,
           Inr (length buffer - length (auto_buffer d))))"
proof -
  define n where "n = min (15 - length (auto_buffer d)) (length bytes)"
  have lt: "length (auto_buffer d) < 15" "configured_mode d = Auto"
    using assms(1) by (simp_all add: auto_pending_def)
  then have "take n bytes = take (15 - length (auto_buffer d)) bytes" by (simp add: n_def min_def)
  then have b: "auto_buffer d @ take n bytes = buffer" using lt by (simp add: buffer_def)
  have n: "n = length buffer - length (auto_buffer d)" by (auto simp: buffer_def n_def)
  have "\<not> max_header_bytes d < length (auto_buffer d) + n" using assms(2) lt by (auto simp: n_def)
  moreover have "n = length bytes" if "undecided buffer"
    using that lt by (auto simp: n_def undecided_def buffer_def)
  ultimately show ?thesis
    using lt(2) b n
    by (auto simp: detect_mode_def Let_def undecided_def detected_mode_def n_def [symmetric])
qed

lemma undecided_take: "undecided (take 15 xs) \<longleftrightarrow> undecided xs"
  by (cases "length xs < 15") (auto simp: undecided_def)

lemma detected_mode_take: "detected_mode (take 15 xs) = detected_mode xs"
  by (simp add: detected_mode_def is_prefix_bytes_def take_map [symmetric])

lemma feed_pending:
  fixes d bytes
  assumes "decoder_ok d" "active_mode d = None"
  defines "all \<equiv> auto_buffer d @ bytes"
  defines "d1 \<equiv> d\<lparr>active_mode := Some (detected_mode all), auto_buffer := []\<rparr>"
  shows "feed d bytes =
    (if undecided all then (d\<lparr>auto_buffer := all\<rparr>, Inr [])
     else then_feed feed_active (feed_active d1 (take 15 all)) (drop 15 all))"
proof -
  have lt: "auto_pending d" "32 \<le> max_header_bytes d" "length (auto_buffer d) < 15"
    using assms(1,2) by (auto simp: decoder_ok_def auto_pending_def)
  have "take 15 all = all" if "undecided all" using that by (simp add: undecided_def)
  moreover have "drop (length (take 15 all) - length (auto_buffer d)) bytes = drop 15 all"
    using lt(3) by (auto simp: all_def min_def)
  ultimately show ?thesis
    using assms(2) detect_mode_pending [OF lt(1,2), of bytes, folded all_def]
    by (auto simp: feed_def undecided_take detected_mode_take d1_def then_feed_def split: prod.splits sum.splits)
qed

lemma decoder_ok_decided:
  assumes "decoder_ok d" "active_mode d = None"
  shows "decoder_ok (d\<lparr>active_mode := Some (detected_mode all), auto_buffer := []\<rparr>)"
  using assms by (simp add: decoder_ok_def detected_mode_def)

lemma feed_pending_Inr:
  assumes "decoder_ok d" "active_mode d = None" "\<not> undecided (auto_buffer d @ bytes)"
  shows "feed d bytes = (d', Inr fs) \<longleftrightarrow>
    feed_active (d\<lparr>active_mode := Some (detected_mode (auto_buffer d @ bytes)), auto_buffer := []\<rparr>)
      (auto_buffer d @ bytes) = (d', Inr fs)"
  using assms(3) feed_active_append [OF decoder_ok_decided [OF assms(1,2)],
      of _ "take 15 (auto_buffer d @ bytes)" "drop 15 (auto_buffer d @ bytes)"]
  unfolding feed_pending [OF assms(1,2)] by (simp del: take_append drop_append)

text \<open>A decision taken on a prefix is the decision on every extension.\<close>

lemma undecided_append: "undecided (a @ b) \<Longrightarrow> undecided a"
proof -
  assume "undecided (a @ b)"
  then have "map byte_lower (a @ b) = take (length (a @ b)) CONTENT_LENGTH_PREFIX" "length (a @ b) < 15"
    by (simp_all add: undecided_def is_prefix_bytes_def)
  then have "take (length a) (map byte_lower (a @ b)) = take (length a) CONTENT_LENGTH_PREFIX"
    by (simp only: take_take) (simp add: min_def)
  then show "undecided a" using \<open>length (a @ b) < 15\<close> by (simp add: undecided_def is_prefix_bytes_def)
qed

lemma detected_mode_append:
  assumes "\<not> undecided a"
  shows "detected_mode (a @ b) = detected_mode a"
proof (cases "15 \<le> length a")
  case True
  then show ?thesis by (simp add: detected_mode_def is_prefix_bytes_def)
next
  case False
  have "\<not> is_prefix_bytes CONTENT_LENGTH_PREFIX (map byte_lower (a @ b))"
  proof
    assume "is_prefix_bytes CONTENT_LENGTH_PREFIX (map byte_lower (a @ b))"
    then have "take (length a) CONTENT_LENGTH_PREFIX = take (length a) (take 15 (map byte_lower (a @ b)))"
      by (simp only: is_prefix_bytes_def length_CONTENT_LENGTH_PREFIX)
    then have "take (length a) CONTENT_LENGTH_PREFIX = map byte_lower a"
      using False by (simp add: take_map)
    with False assms show False by (simp add: undecided_def is_prefix_bytes_def)
  qed
  with False show ?thesis by (simp add: detected_mode_def is_prefix_bytes_def)
qed

lemma feed_decided: "active_mode d \<noteq> None \<Longrightarrow> feed d bytes = feed_active d bytes"
  by (auto simp: feed_def)

lemma then_feed_promise:
  assumes "feed_promise d a r" "active_mode d \<noteq> None"
    and "\<And>d1. decoder_ok d1 \<Longrightarrow> active_mode d1 \<noteq> None \<Longrightarrow> feed_promise d1 b (f d1 b)"
  shows "feed_promise d (a @ b) (then_feed f r b)"
proof (cases "snd r")
  case (Inl e)
  then have "then_feed f r b = r" by (cases r) (simp add: then_feed_def)
  with Inl assms(1) show ?thesis by (simp add: feed_promise_def)
next
  case (Inr fs)
  then have "then_feed f r b = prepend fs (f (fst r) b)" by (cases r) (simp add: then_feed_def)
  moreover have "feed_promise d (a @ b) (prepend fs (f (fst r) b))"
    by (rule feed_promise_prepend [OF assms(3)]) (use assms Inr in \<open>auto simp: feed_promise_def\<close>)
  ultimately show ?thesis by simp
qed

lemma feed_keeps:
  assumes "decoder_ok d"
  shows "feed_promise d bytes (feed d bytes)"
proof (cases "active_mode d = None")
  case True
  let ?all = "auto_buffer d @ bytes"
  let ?d = "d\<lparr>active_mode := Some (detected_mode ?all), auto_buffer := []\<rparr>"
  show ?thesis
  proof (cases "undecided ?all")
    case u: True
    then have "feed d bytes = (d\<lparr>auto_buffer := ?all\<rparr>, Inr [])"
      by (simp add: feed_pending [OF assms True])
    with u True assms show ?thesis
      by (auto simp: feed_promise_def same_settings_def decoder_ok_def pending_def auto_pending_def undecided_def)
  next
    case u: False
    note ok = decoder_ok_decided [OF assms True, of ?all]
    have "body_buffer d = []" using assms True by (auto simp: decoder_ok_def body_ok_def)
    then have lift: "feed_promise d bytes r" if "feed_promise ?d ?all r" for r
      using that True assms
      by (auto simp: feed_promise_def same_settings_def pending_def decoder_ok_def detected_mode_def split: sum.splits)
    have "feed_promise ?d (take 15 ?all @ drop 15 ?all)
        (then_feed feed_active (feed_active ?d (take 15 ?all)) (drop 15 ?all))"
      by (rule then_feed_promise) (simp_all del: take_append drop_append add: feed_active_promise ok)
    with u show ?thesis
      unfolding feed_pending [OF assms True] append_take_drop_id by (simp add: lift)
  qed
next
  case False
  then show ?thesis by (simp only: feed_decided feed_active_promise [OF assms False] not_False_eq_True)
qed

lemma feed_append:
  assumes ok: "decoder_ok d"
  shows "feed d (a @ b) = (d', Inr fs) \<longleftrightarrow> then_feed feed (feed d a) b = (d', Inr fs)"
proof (cases "active_mode d = None")
  case None: True
  let ?x = "auto_buffer d @ a"
  let ?d = "d\<lparr>active_mode := Some (detected_mode ?x), auto_buffer := []\<rparr>"
  show ?thesis
  proof (cases "undecided ?x")
    case True
    then have a: "feed d a = (d\<lparr>auto_buffer := ?x\<rparr>, Inr [])" by (simp add: feed_pending [OF ok None])
    have "decoder_ok (d\<lparr>auto_buffer := ?x\<rparr>)" using feed_keeps [OF ok, of a] by (simp add: a feed_promise_def)
    then have "feed (d\<lparr>auto_buffer := ?x\<rparr>) b = feed d (a @ b)"
      using None by (simp add: feed_pending [OF ok None] feed_pending)
    with a show ?thesis by (simp add: then_feed_def)
  next
    case False
    then have ab: "\<not> undecided (auto_buffer d @ a @ b)" using undecided_append [of ?x b] by auto
    have same: "feed d1 b = feed_active d1 b" if "feed_active ?d ?x = (d1, Inr f1)" for d1 f1
      using feed_active_promise [OF decoder_ok_decided [OF ok None, of ?x], of ?x] that
      by (simp add: feed_promise_def feed_decided)
    have "feed d (a @ b) = (d', Inr fs) \<longleftrightarrow> feed_active ?d (?x @ b) = (d', Inr fs)"
      using feed_pending_Inr [OF ok None ab] detected_mode_append [OF False, of b] by simp
    also have "\<dots> \<longleftrightarrow> then_feed feed_active (feed_active ?d ?x) b = (d', Inr fs)"
      by (rule feed_active_append [OF decoder_ok_decided [OF ok None]]) simp
    also have "\<dots> \<longleftrightarrow> then_feed feed (feed d a) b = (d', Inr fs)"
      unfolding then_feed_Inr feed_pending_Inr [OF ok None False] using same by auto
    finally show ?thesis .
  qed
next
  case False
  have same: "feed d1 b = feed_active d1 b" if "feed_active d a = (d1, Inr f1)" for d1 f1
    using feed_active_promise [OF ok False, of a] False that by (auto simp: feed_promise_def feed_decided)
  have "feed d (a @ b) = (d', Inr fs) \<longleftrightarrow> then_feed feed_active (feed_active d a) b = (d', Inr fs)"
    using feed_active_append [OF ok False] False by (simp add: feed_decided)
  also have "\<dots> \<longleftrightarrow> then_feed feed (feed d a) b = (d', Inr fs)"
    using same feed_decided [OF False, of a] by (auto simp: then_feed_Inr)
  finally show ?thesis .
qed

text \<open>A stream in the chunks in which it happens to arrive.\<close>

fun feed_chunks :: "FrameDecoder \<Rightarrow> bytes list \<Rightarrow> decoded" where
  "feed_chunks d [] = (d, Inr [])"
| "feed_chunks d (c # cs) =
     (case feed d c of (d1, Inl e) \<Rightarrow> (d1, Inl e) | (d1, Inr fs) \<Rightarrow> prepend fs (feed_chunks d1 cs))"

lemma feed_Nil: "decoder_ok d \<Longrightarrow> feed d [] = (d, Inr [])"
proof (cases "active_mode d = None")
  case True
  assume ok: "decoder_ok d"
  with True have "undecided (auto_buffer d)" by (simp add: decoder_ok_def auto_pending_def undecided_def)
  then show ?thesis by (simp add: feed_pending [OF ok True])
qed (auto simp: feed_def feed_active_def decoder_ok_def split: FramingMode.splits)

lemma feed_chunks_feed:
  assumes "decoder_ok d"
  shows "feed_chunks d cs = (d', Inr fs) \<longleftrightarrow> feed d (concat cs) = (d', Inr fs)"
  using assms
proof (induction cs arbitrary: d fs)
  case (Cons c cs)
  have "feed_chunks d1 cs = (d', Inr gs) \<longleftrightarrow> feed d1 (concat cs) = (d', Inr gs)"
    if "feed d c = (d1, Inr f1)" for d1 f1 gs
    using Cons.IH feed_keeps [OF Cons.prems, of c] that by (simp add: feed_promise_def)
  then have "feed_chunks d (c # cs) = (d', Inr fs) \<longleftrightarrow> then_feed feed (feed d c) (concat cs) = (d', Inr fs)"
    by (cases "feed d c"; cases "snd (feed d c)") (auto simp: then_feed_Inr prepend_Inr)
  with feed_append [OF Cons.prems] show ?case by simp
qed (simp add: feed_Nil)

lemma decoder_ok_new: "decoder_ok (with_header_limit m max_frame max_header)"
  by (simp add: decoder_ok_def with_header_limit_def body_ok_def auto_pending_def is_prefix_bytes_def)

subsection \<open>What is encoded is decoded\<close>

lemma trim_blanks_id: "s \<noteq> [] \<Longrightarrow> hd s \<notin> {32, 9} \<Longrightarrow> last s \<notin> {32, 9} \<Longrightarrow> trim_blanks s = s"
  by (simp add: trim_blanks_def dropWhile_hd hd_rev)

lemma scan_content_length:
  assumes "n < 2 ^ 64"
  shows "scan_header_lines [str ''Content-Length: '' @ show_nat n] None = Inr (Some n)"
proof -
  have "hd (show_nat n) \<in> set (show_nat n)" "last (show_nat n) \<in> set (show_nat n)" by simp_all
  then have "trim_blanks (32 # show_nat n) = show_nat n"
    using trim_blanks_id [of "show_nat n"] show_nat_digits [of _ n] by (fastforce simp: trim_blanks_def)
  moreover have "split_once 58 (str ''Content-Length: '' @ show_nat n) = Some (str ''Content-Length'', 32 # show_nat n)"
    by (simp add: split_once_Some_iff)
  moreover have "eq_ignore_ascii_case (str ''Content-Length'') (str ''content-length'')"
    by (simp add: eq_ignore_ascii_case_def ascii_lower_def)
  moreover have "\<not> (1 < rlen (show_nat n) \<and> starts_with (show_nat n) (str ''0''))"
    using show_nat_canonical [of n] by (auto simp: starts_with_iff)
  moreover have "list_all is_ascii_digit (show_nat n)"
    using show_nat_digits by (auto simp: list_all_iff is_ascii_digit_def)
  ultimately show ?thesis using assms by (simp del: str_simps add: Let_def)
qed

lemma trim_end_newlines_two: "t \<noteq> [] \<Longrightarrow> last t \<noteq> 10 \<Longrightarrow> trim_end_newlines (t @ [10, 10]) = t"
  by (simp add: trim_end_newlines_def dropWhile_hd hd_rev)

lemma parse_content_length_header:
  assumes "n < 2 ^ 64"
  shows "parse_content_length (content_length_header n) = Inr n"
proof -
  let ?t = "str ''Content-Length: '' @ show_nat n"
  have plain: "13 \<notin> set ?t" "10 \<notin> set ?t" using show_nat_digits [of _ n] by force+
  have "from_utf8 (content_length_header n) = Some (?t @ [13, 10, 13, 10])"
    unfolding content_length_header_def append_assoc [symmetric]
    by (rule from_utf8_as_bytes) (use show_nat_digits [of _ n] in \<open>force simp: scalar_def\<close>)
  moreover have "str_replace [13, 10] [10] (?t @ [13, 10, 13, 10]) = ?t @ [10, 10]"
    using plain str_replace_hit [of "[13, 10]" "[10]" "[13, 10]"] str_replace_hit [of "[13, 10]" "[10]" "[]"]
    by (subst str_replace_skip) (simp_all del: str_simps)
  moreover have "trim_end_newlines (?t @ [10, 10]) = ?t"
    by (rule trim_end_newlines_two) (use plain(2) last_in_set [of ?t] in \<open>auto simp del: str_simps last_append last_appendR\<close>)
  moreover have "split_on 10 ?t = [?t]" using plain(2) by (rule split_on_singleton)
  ultimately show ?thesis
    using scan_content_length [OF assms] by (simp del: str_simps add: parse_content_length_def)
qed

text \<open>A header is complete only with its second line feed.\<close>

lemma ends_with_bytes_iff: "ends_with_bytes s p \<longleftrightarrow> (\<exists>r. s = r @ p)"
proof
  assume "ends_with_bytes s p"
  then have "s = take (length s - length p) s @ p"
    by (metis append_take_drop_id ends_with_bytes_def)
  then show "\<exists>r. s = r @ p" by blast
qed (auto simp: ends_with_bytes_def)

lemma header_complete_count: "header_complete h \<Longrightarrow> 2 \<le> count_list h LF"
proof -
  assume "header_complete h"
  then have "\<exists>p. h = p @ [CR, LF, CR, LF] \<or> h = p @ [LF, LF]"
    unfolding header_complete_def ends_with_bytes_iff by blast
  then show ?thesis by auto
qed

lemma feed_header_bytes:
  assumes "expected_body_bytes d = None" "count_list (header_buffer d @ q) LF < 2"
    and "length (header_buffer d @ q) \<le> max_header_bytes d"
  shows "feed_content_length d (q @ rest) = feed_content_length (d\<lparr>header_buffer := header_buffer d @ q\<rparr>) rest"
  using assms
proof (induction q arbitrary: d)
  case (Cons b q)
  let ?d = "d\<lparr>header_buffer := header_buffer d @ [b]\<rparr>"
  have "\<not> header_complete (header_buffer d @ [b])"
    using header_complete_count [of "header_buffer d @ [b]"] Cons.prems(2) by (auto split: if_splits)
  with Cons.prems have "feed_content_length d ((b # q) @ rest) = feed_content_length ?d (q @ rest)"
    by (subst feed_content_length.simps) simp
  also have "\<dots> = feed_content_length (?d\<lparr>header_buffer := header_buffer ?d @ q\<rparr>) rest"
    using Cons.prems by (intro Cons.IH) (auto split: if_splits)
  finally show ?case by simp
qed simp

lemma as_bytes_append: "as_bytes (a @ b) = as_bytes a @ as_bytes b"
  by (simp add: as_bytes_def)

lemma as_bytes_ascii: "\<forall>c \<in> set s. c < 128 \<Longrightarrow> as_bytes s = map word_of_int s"
  by (induction s) (auto simp: as_bytes_def encode_char_def)

lemma as_bytes_no_LF:
  assumes "\<forall>c \<in> set t. 32 \<le> c \<and> c < 128"
  shows "LF \<notin> set (as_bytes t)"
proof -
  have "word_of_int c \<noteq> LF" if "c \<in> set t" for c
  proof
    assume "word_of_int c = LF"
    then have "uint (word_of_int c :: u8) = 10" by simp
    moreover have "uint (word_of_int c :: u8) = c" using assms that
      by (auto simp: uint_word_of_int take_bit_int_eq_self)
    ultimately show False using assms that by auto
  qed
  moreover have "as_bytes t = map word_of_int t" using assms by (intro as_bytes_ascii) auto
  ultimately show ?thesis by auto
qed

lemma content_length_header_split:
  "\<exists>q. content_length_header n = q @ [LF] \<and> count_list q LF = 1 \<and> header_complete (q @ [LF])
     \<and> length q = 19 + length (show_nat n)"
proof -
  define t where "t = str ''Content-Length: '' @ show_nat n"
  have t: "\<forall>c \<in> set t. 32 \<le> c \<and> c < 128" using show_nat_digits [of _ n] by (force simp: t_def)
  then have "count_list (as_bytes t) LF = 0" by (simp add: count_list_0_iff as_bytes_no_LF)
  moreover have "as_bytes [13, 10, 13, 10] = [CR, LF, CR, LF]" by (simp add: as_bytes_def encode_char_def)
  moreover have "length (as_bytes t) = length t"
    using t by (simp add: as_bytes_ascii)
  moreover have "length t = 16 + length (show_nat n)" by (simp add: t_def)
  moreover have "content_length_header n = as_bytes t @ as_bytes [13, 10, 13, 10]"
    by (simp add: content_length_header_def t_def as_bytes_append del: str_simps)
  ultimately show ?thesis
    by (intro exI [of _ "as_bytes t @ [CR, LF, CR]"]) (simp add: header_complete_def ends_with_bytes_def)
qed

lemma feed_encoded_content_length:
  assumes d: "expected_body_bytes d = None" "header_buffer d = []" "body_buffer d = []"
    and n: "length body \<le> max_frame_bytes d" "length body < 2 ^ 64"
    and h: "20 + length (show_nat (length body)) \<le> max_header_bytes d"
  shows "feed_content_length d (encode_frame body ContentLength) =
    (d, Inr [\<lparr>payload = body, raw = encode_frame body ContentLength, frame_mode = ContentLength\<rparr>])"
proof -
  let ?h = "content_length_header (length body)"
  obtain q where q: "?h = q @ [LF]" "count_list q LF = 1" "header_complete (q @ [LF])"
      "length q = 19 + length (show_nat (length body))"
    using content_length_header_split by blast
  have "feed_content_length d (q @ LF # body) = feed_content_length (d\<lparr>header_buffer := q\<rparr>) (LF # body)"
    using d q h by (subst feed_header_bytes) simp_all
  also have "\<dots> = (d, Inr [\<lparr>payload = body, raw = ?h @ body, frame_mode = ContentLength\<rparr>])"
  proof (cases "body = []")
    case True
    with d q h n parse_content_length_header [OF n(2)] show ?thesis
      by (subst feed_content_length.simps) (simp add: Let_def prepend_def)
  next
    case False
    let ?d = "d\<lparr>header_buffer := q @ [LF], body_buffer := [], expected_body_bytes := Some (length body)\<rparr>"
    from False d q h n parse_content_length_header [OF n(2)]
    have "feed_content_length (d\<lparr>header_buffer := q\<rparr>) (LF # body) = feed_content_length ?d body"
      by (subst feed_content_length.simps) (simp add: Let_def)
    also have "\<dots> = (d, Inr [\<lparr>payload = body, raw = ?h @ body, frame_mode = ContentLength\<rparr>])"
      using False d q feed_body_complete [of ?d "length body" "length body" body] by (simp add: prepend_def)
    finally show ?thesis .
  qed
  finally show ?thesis by (simp add: encode_frame_def q(1))
qed

text \<open>The payloads that survive their own framing.\<close>

definition encodable :: "FramingMode \<Rightarrow> nat \<Rightarrow> nat \<Rightarrow> bytes \<Rightarrow> bool" where
  "encodable mode max_frame max_header body \<longleftrightarrow> length body \<le> max max_frame 1 \<and>
     (case mode of
        Newline \<Rightarrow> LF \<notin> set body \<and> (body = [] \<or> last body \<noteq> CR)
      | ContentLength \<Rightarrow> length body < 2 ^ 64 \<and> 20 + length (show_nat (length body)) \<le> max max_header 32
      | Auto \<Rightarrow> False)"

lemma feed_encoded:
  assumes "encodable mode max_frame max_header body"
  shows "feed (with_header_limit mode max_frame max_header) (encode_frame body mode) =
    (with_header_limit mode max_frame max_header,
     Inr [\<lparr>payload = body, raw = encode_frame body mode, frame_mode = mode\<rparr>])"
proof (cases mode)
  case Newline
  with assms have body: "LF \<notin> set body" "newline_payload (body @ [LF]) = body" "length body \<le> max max_frame 1"
    by (auto simp: encodable_def newline_payload_snoc)
  then show ?thesis
    using Newline feed_newline_line [OF body(1), of _ "[]"]
    by (auto simp: feed_decided feed_active_def with_header_limit_def encode_frame_def newline_frame_def prepend_def)
next
  case ContentLength
  let ?d = "with_header_limit mode max_frame max_header"
  have "feed_content_length ?d (encode_frame body ContentLength) =
      (?d, Inr [\<lparr>payload = body, raw = encode_frame body ContentLength, frame_mode = ContentLength\<rparr>])"
    by (rule feed_encoded_content_length)
       (use assms ContentLength in \<open>simp_all add: encodable_def with_header_limit_def\<close>)
  then show ?thesis
    using ContentLength by (simp add: feed_decided feed_active_def with_header_limit_def)
qed (use assms in \<open>simp add: encodable_def\<close>)

lemma feed_chunks_encoded:
  assumes "\<forall>body \<in> set bodies. encodable mode max_frame max_header body"
  shows "feed_chunks (with_header_limit mode max_frame max_header) (map (\<lambda>body. encode_frame body mode) bodies) =
    (with_header_limit mode max_frame max_header,
     Inr (map (\<lambda>body. \<lparr>payload = body, raw = encode_frame body mode, frame_mode = mode\<rparr>) bodies))"
  using assms by (induction bodies) (simp_all add: feed_encoded prepend_def)

subsection \<open>Properties\<close>

text \<open>
  C28: Feeding a decoder a stream in pieces, cut anywhere (inside a header, a length, a body, the bytes
  from which the mode is detected), succeeds exactly when feeding it at once succeeds, with the same
  frames and the same decoder afterwards.
\<close>

theorem feed_chunks_concat:
  "feed_chunks (with_header_limit mode max_frame max_header) chunks = (d, Inr fs)
   \<longleftrightarrow> feed (with_header_limit mode max_frame max_header) (concat chunks) = (d, Inr fs)"
  by (rule feed_chunks_feed [OF decoder_ok_new])

text \<open>
  No byte of a stream is lost, duplicated or reordered: the raw bytes of the frames followed by the
  bytes still pending are the bytes received, and no payload handed out is larger than the limit.
\<close>

theorem feed_chunks_conserve:
  assumes "feed_chunks (with_header_limit mode max_frame max_header) chunks = (d, Inr fs)"
  shows "concat (map raw fs) @ pending d = concat chunks \<and> (\<forall>f \<in> set fs. length (payload f) \<le> max max_frame 1)"
proof -
  let ?d = "with_header_limit mode max_frame max_header"
  have "feed ?d (concat chunks) = (d, Inr fs)" using assms by (simp add: feed_chunks_feed [OF decoder_ok_new])
  moreover have "pending ?d = []" "max_frame_bytes ?d = max max_frame 1"
    by (auto simp: pending_def with_header_limit_def split: FramingMode.splits)
  ultimately show ?thesis
    using feed_keeps [OF decoder_ok_new, of mode max_frame max_header "concat chunks"]
    by (simp add: feed_promise_def)
qed

theorem feed_chunks_conserve_witness:
  "concat (map raw [\<lparr>payload = [7], raw = [7, 13, 10], frame_mode = Newline\<rparr>])
     @ pending (with_header_limit Auto 8 64\<lparr>active_mode := Some Newline, newline_buffer := [9]\<rparr>)
     = concat [[7, 13], [10, 9]]
   \<and> length (payload \<lparr>payload = [7], raw = [7, 13, 10], frame_mode = Newline\<rparr>) \<le> max 8 1"
proof -
  have "feed_chunks (with_header_limit Auto 8 64) [[7, 13], [10, 9]] =
      (with_header_limit Auto 8 64\<lparr>active_mode := Some Newline, newline_buffer := [9]\<rparr>,
       Inr [\<lparr>payload = [7], raw = [7, 13, 10], frame_mode = Newline\<rparr>])"
    by code_simp
  from feed_chunks_conserve [OF this] show ?thesis by simp
qed

text \<open>
  C29: Payloads written by the encoder, concatenated and delivered in arbitrary pieces, are read back one
  by one, in order and unchanged, and leave the decoder as it was, with nothing pending.  For newline
  frames the payload must not hold a line feed or end in a carriage return; for \<^verbatim>\<open>Content-Length\<close> frames
  every payload within the limits qualifies.
\<close>

theorem feed_encode_roundtrip:
  assumes "\<forall>body \<in> set bodies. encodable mode max_frame max_header body"
    and "concat chunks = concat (map (\<lambda>body. encode_frame body mode) bodies)"
  shows "\<exists>fs. feed_chunks (with_header_limit mode max_frame max_header) chunks
              = (with_header_limit mode max_frame max_header, Inr fs)
           \<and> map payload fs = bodies
           \<and> finish (with_header_limit mode max_frame max_header) = Inr ()"
proof -
  let ?d = "with_header_limit mode max_frame max_header"
  from feed_chunks_encoded [OF assms(1)]
  have "feed_chunks ?d chunks = (?d, Inr (map (\<lambda>body. \<lparr>payload = body, raw = encode_frame body mode, frame_mode = mode\<rparr>) bodies))"
    unfolding feed_chunks_feed [OF decoder_ok_new] assms(2) .
  moreover have "finish ?d = Inr ()" by (simp add: finish_def with_header_limit_def)
  ultimately show ?thesis by (auto simp: comp_def)
qed

theorem feed_encode_roundtrip_witness:
  "\<exists>fs. feed_chunks (with_header_limit Newline 16 64) [[1, 2], [], [10, 3], [4, 10]]
              = (with_header_limit Newline 16 64, Inr fs)
           \<and> map payload fs = [[1, 2], [3, 4]]
           \<and> finish (with_header_limit Newline 16 64) = Inr ()"
  by (rule feed_encode_roundtrip) (simp_all add: encodable_def encode_frame_def)

end
