(* ===== verification/Wire.thy ===== *)
theory Wire
  imports Utf8
begin

section \<open>Bytes on the wire\<close>

text \<open>
  What the wire formats share: big-endian integers (\<^verbatim>\<open>to_be_bytes\<close>, \<^verbatim>\<open>from_be_bytes\<close>), decoders that
  consume a prefix of their input, and the primitive items of CBOR.  The crate \<^verbatim>\<open>minicbor\<close> is not part of
  the sources: its encoder and decoder are the fields of \<open>cbor_ops\<close>, what the codecs rely on is the locale
  \<open>cbor_laws\<close> (every item is read back, whatever follows it), and \<open>wire_cbor\<close> is an instance that
  implements RFC 8949 with shortest heads.
\<close>

type_synonym u64 = "64 word"

subsection \<open>Big-endian integers\<close>

primrec to_be :: "nat \<Rightarrow> nat \<Rightarrow> bytes" where
  "to_be 0 n = []"
| "to_be (Suc k) n = to_be k (n div 256) @ [word_of_nat (n mod 256)]"

definition from_be :: "bytes \<Rightarrow> nat" where
  "from_be bs = foldl (\<lambda>v b. v * 256 + unat b) 0 bs"

lemma length_to_be [simp]: "length (to_be k n) = k"
  by (induction k arbitrary: n) simp_all

lemma to_be_Nil_iff [simp]: "to_be k n = [] \<longleftrightarrow> k = 0"
  by (cases k) simp_all

lemma from_be_Nil [simp]: "from_be [] = 0"
  by (simp add: from_be_def)

lemma from_be_snoc [simp]: "from_be (bs @ [b]) = from_be bs * 256 + unat b"
  by (simp add: from_be_def)

lemma from_be_to_be: "n < 256 ^ k \<Longrightarrow> from_be (to_be k n) = n"
proof (induction k arbitrary: n)
  case (Suc k)
  then have "n div 256 < 256 ^ k" by (simp add: less_mult_imp_div_less mult.commute)
  moreover have "unat (word_of_nat (n mod 256) :: u8) = n mod 256"
    by (simp add: unat_of_nat take_bit_nat_def)
  ultimately show ?case using Suc.IH by simp
qed simp

lemma from_be_less: "from_be bs < 256 ^ length bs"
proof (induction bs rule: rev_induct)
  case (snoc b bs)
  have "unat b < 256" using unat_less [of b] by simp
  with snoc show ?case by simp
qed simp

lemma to_be_from_be: "length bs = k \<Longrightarrow> to_be k (from_be bs) = bs"
proof (induction bs arbitrary: k rule: rev_induct)
  case (snoc b bs)
  have "unat b < 256" using unat_less [of b] by simp
  then have "(from_be bs * 256 + unat b) div 256 = from_be bs" "(from_be bs * 256 + unat b) mod 256 = unat b"
    by simp_all
  with snoc show ?case by (auto simp: word_of_nat_eq_iff)
qed simp

subsection \<open>Decoders\<close>

text \<open>A decoder returns a value and the bytes after it, or an error; \<open>and_then\<close> is \<^verbatim>\<open>?\<close> in sequence.\<close>

type_synonym ('e, 'a) decoder = "bytes \<Rightarrow> 'e + 'a \<times> bytes"

definition yield :: "'a \<Rightarrow> ('e, 'a) decoder" where
  "yield v bs = Inr (v, bs)"

definition throw :: "'e \<Rightarrow> ('e, 'a) decoder" where
  "throw e bs = Inl e"

definition and_then :: "('e, 'a) decoder \<Rightarrow> ('a \<Rightarrow> ('e, 'b) decoder) \<Rightarrow> ('e, 'b) decoder" where
  "and_then d f bs = (case d bs of Inl e \<Rightarrow> Inl e | Inr (v, rest) \<Rightarrow> f v rest)"

definition map_err :: "('e \<Rightarrow> 'f) \<Rightarrow> ('e, 'a) decoder \<Rightarrow> ('f, 'a) decoder" where
  "map_err g d bs = (case d bs of Inl e \<Rightarrow> Inl (g e) | Inr r \<Rightarrow> Inr r)"

lemma and_then_hit: "d bs = Inr (v, rest) \<Longrightarrow> and_then d f bs = f v rest"
  by (simp add: and_then_def)

lemma map_err_hit: "d bs = Inr r \<Longrightarrow> map_err g d bs = Inr r"
  by (simp add: map_err_def)

lemma and_then_Inr: "and_then d f bs = Inr r \<longleftrightarrow> (\<exists>v rest. d bs = Inr (v, rest) \<and> f v rest = Inr r)"
  by (auto simp: and_then_def split: sum.splits)

lemma map_err_Inr: "map_err g d bs = Inr r \<longleftrightarrow> d bs = Inr r"
  by (auto simp: map_err_def split: sum.splits)

lemma yield_Inr: "yield v bs = Inr r \<longleftrightarrow> r = (v, bs)"
  by (auto simp: yield_def)

lemma throw_Inr: "throw e bs \<noteq> Inr r"
  by (simp add: throw_def)

lemmas decoder_Inr = and_then_Inr map_err_Inr yield_Inr throw_Inr

subsection \<open>CBOR items\<close>

datatype cbor_type = TNull | TString | TOther rstr

record cbor_ops =
  enc_array :: "u64 \<Rightarrow> bytes"
  enc_bytes :: "bytes \<Rightarrow> bytes"
  enc_str :: "rstr \<Rightarrow> bytes"
  enc_u8 :: "u8 \<Rightarrow> bytes"
  enc_u16 :: "u16 \<Rightarrow> bytes"
  enc_u32 :: "u32 \<Rightarrow> bytes"
  enc_u64 :: "u64 \<Rightarrow> bytes"
  enc_null :: bytes
  dec_array :: "(rstr, u64 option) decoder"
  dec_bytes :: "(rstr, bytes) decoder"
  dec_str :: "(rstr, rstr) decoder"
  dec_u8 :: "(rstr, u8) decoder"
  dec_u16 :: "(rstr, u16) decoder"
  dec_u32 :: "(rstr, u32) decoder"
  dec_u64 :: "(rstr, u64) decoder"
  dec_null :: "(rstr, unit) decoder"
  peek_type :: "bytes \<Rightarrow> rstr + cbor_type"

text \<open>A \<^verbatim>\<open>String\<close> and a \<^verbatim>\<open>Vec<u8>\<close> that a 64-bit address space can hold.\<close>

definition valid_str :: "rstr \<Rightarrow> bool" where
  "valid_str s \<longleftrightarrow> (\<forall>c \<in> set s. scalar c) \<and> rlen s < 2 ^ 64"

definition valid_bytes :: "bytes \<Rightarrow> bool" where
  "valid_bytes bs \<longleftrightarrow> length bs < 2 ^ 64"

locale cbor_laws =
  fixes ops :: cbor_ops
  assumes array_law: "dec_array ops (enc_array ops n @ rest) = Inr (Some n, rest)"
    and bytes_law: "valid_bytes v \<Longrightarrow> dec_bytes ops (enc_bytes ops v @ rest) = Inr (v, rest)"
    and str_law: "valid_str s \<Longrightarrow> dec_str ops (enc_str ops s @ rest) = Inr (s, rest)"
    and u8_law: "dec_u8 ops (enc_u8 ops a @ rest) = Inr (a, rest)"
    and u16_law: "dec_u16 ops (enc_u16 ops b @ rest) = Inr (b, rest)"
    and u32_law: "dec_u32 ops (enc_u32 ops c @ rest) = Inr (c, rest)"
    and u64_law: "dec_u64 ops (enc_u64 ops d @ rest) = Inr (d, rest)"
    and null_law: "dec_null ops (enc_null ops @ rest) = Inr ((), rest)"
    and null_type: "peek_type ops (enc_null ops @ rest) = Inr TNull"
    and str_type: "valid_str s \<Longrightarrow> peek_type ops (enc_str ops s @ rest) = Inr TString"
    and bytes_valid: "dec_bytes ops bs = Inr (v, rest) \<Longrightarrow> valid_bytes v"
    and str_valid: "dec_str ops bs = Inr (s, rest) \<Longrightarrow> valid_str s"
begin

lemmas round_trips = array_law bytes_law str_law u8_law u16_law u32_law u64_law null_law null_type str_type

end

subsection \<open>An instance\<close>

definition cbor_head :: "nat \<Rightarrow> nat \<Rightarrow> bytes" where
  "cbor_head m n =
     (if n < 24 then [word_of_nat (32 * m + n)]
      else if n < 2 ^ 8 then word_of_nat (32 * m + 24) # to_be 1 n
      else if n < 2 ^ 16 then word_of_nat (32 * m + 25) # to_be 2 n
      else if n < 2 ^ 32 then word_of_nat (32 * m + 26) # to_be 4 n
      else word_of_nat (32 * m + 27) # to_be 8 n)"

text \<open>The major type, the argument (none for an indefinite length) and the rest.\<close>

definition read_head :: "(rstr, nat \<times> nat option) decoder" where
  "read_head bs =
     (case bs of
        [] \<Rightarrow> Inl (str ''end of input bytes'')
      | b # rest \<Rightarrow>
          (let m = unat b div 32; a = unat b mod 32; k = 2 ^ (a - 24)
           in if a < 24 then Inr ((m, Some a), rest)
              else if a \<le> 27 then
                (if length rest < k then Inl (str ''end of input bytes'')
                 else Inr ((m, Some (from_be (take k rest))), drop k rest))
              else if a = 31 then Inr ((m, None), rest)
              else Inl (str ''unexpected type'')))"

definition read_uint :: "nat \<Rightarrow> (rstr, nat) decoder" where
  "read_uint w = and_then read_head (\<lambda>h. case h of
     (m, Some n) \<Rightarrow> if m = 0 \<and> n < 2 ^ w then yield n else throw (str ''unexpected type'')
   | _ \<Rightarrow> throw (str ''unexpected type''))"

definition read_block :: "nat \<Rightarrow> (rstr, bytes) decoder" where
  "read_block major = and_then read_head (\<lambda>h. case h of
     (m, Some n) \<Rightarrow> (\<lambda>rest. if m = major \<and> n \<le> length rest then Inr (take n rest, drop n rest)
                             else Inl (str ''end of input bytes''))
   | _ \<Rightarrow> throw (str ''unexpected type''))"

definition map_val :: "('a \<Rightarrow> 'b) \<Rightarrow> ('e, 'a) decoder \<Rightarrow> ('e, 'b) decoder" where
  "map_val f d = and_then d (\<lambda>v. yield (f v))"

definition wire_cbor :: cbor_ops where
  "wire_cbor =
     \<lparr>enc_array = (\<lambda>n. cbor_head 4 (unat n)),
      enc_bytes = (\<lambda>v. cbor_head 2 (length v) @ v),
      enc_str = (\<lambda>s. cbor_head 3 (rlen s) @ as_bytes s),
      enc_u8 = (\<lambda>n. cbor_head 0 (unat n)), enc_u16 = (\<lambda>n. cbor_head 0 (unat n)),
      enc_u32 = (\<lambda>n. cbor_head 0 (unat n)), enc_u64 = (\<lambda>n. cbor_head 0 (unat n)),
      enc_null = [0xF6],
      dec_array = and_then read_head (\<lambda>h. case h of
        (m, n) \<Rightarrow> if m = 4 then yield (map_option word_of_nat n) else throw (str ''unexpected type'')),
      dec_bytes = read_block 2,
      dec_str = and_then (read_block 3) (\<lambda>v. case from_utf8 v of
        Some s \<Rightarrow> yield s | None \<Rightarrow> throw (str ''invalid UTF-8'')),
      dec_u8 = map_val word_of_nat (read_uint 8), dec_u16 = map_val word_of_nat (read_uint 16),
      dec_u32 = map_val word_of_nat (read_uint 32), dec_u64 = map_val word_of_nat (read_uint 64),
      dec_null = (\<lambda>bs. case bs of b # rest \<Rightarrow> if b = 0xF6 then Inr ((), rest) else Inl (str ''unexpected type'')
                       | [] \<Rightarrow> Inl (str ''end of input bytes'')),
      peek_type = (\<lambda>bs. case bs of [] \<Rightarrow> Inl (str ''end of input bytes'')
                        | b # _ \<Rightarrow> Inr (if b = 0xF6 then TNull else if unat b div 32 = 3 then TString else TOther []))\<rparr>"

lemma read_cbor_head:
  assumes "m < 8" "n < 2 ^ 64"
  shows "read_head (cbor_head m n @ rest) = Inr ((m, Some n), rest)"
proof -
  have u: "unat (word_of_nat (32 * m + a) :: u8) = 32 * m + a" if "a < 32" for a
    using that assms(1) unat_of_nat [where ?'a = 8, of "32 * m + a"]
    by (simp add: take_bit_nat_def del: of_nat_add of_nat_mult)
  note defs = cbor_head_def read_head_def Let_def u
  consider "n < 24" | "24 \<le> n" "n < 2 ^ 8" | "2 ^ 8 \<le> n" "n < 2 ^ 16" | "2 ^ 16 \<le> n" "n < 2 ^ 32" | "2 ^ 32 \<le> n"
    by linarith
  then show ?thesis
  proof cases
    case 1
    with u [of n] show ?thesis by (simp add: defs del: of_nat_add of_nat_mult)
  next
    case 2
    with u [of 24] from_be_to_be [of n 1] show ?thesis
      by (simp add: defs del: of_nat_add of_nat_mult to_be.simps)
  next
    case 3
    with u [of 25] from_be_to_be [of n 2] show ?thesis
      by (simp add: defs del: of_nat_add of_nat_mult to_be.simps)
  next
    case 4
    with u [of 26] from_be_to_be [of n 4] show ?thesis
      by (simp add: defs del: of_nat_add of_nat_mult to_be.simps)
  next
    case 5
    with u [of 27] from_be_to_be [of n 8] assms(2) show ?thesis
      by (simp add: defs del: of_nat_add of_nat_mult to_be.simps)
  qed
qed

lemma read_uint_head: "w \<le> 64 \<Longrightarrow> n < 2 ^ w \<Longrightarrow> read_uint w (cbor_head 0 n @ rest) = Inr (n, rest)"
proof -
  assume "w \<le> 64" "n < 2 ^ w"
  moreover have "(2::nat) ^ w \<le> 2 ^ 64" using \<open>w \<le> 64\<close> by (rule power_increasing) simp
  ultimately show ?thesis
    using read_cbor_head [of 0 n rest] by (simp add: read_uint_def and_then_def yield_def)
qed

lemma read_block_head: "m < 8 \<Longrightarrow> length v < 2 ^ 64 \<Longrightarrow> read_block m (cbor_head m (length v) @ v @ rest) = Inr (v, rest)"
  using read_cbor_head [of m "length v" "v @ rest"] by (simp add: read_block_def and_then_def)

lemma read_word:
  "LENGTH('a) \<le> 64 \<Longrightarrow> map_val word_of_nat (read_uint LENGTH('a)) (cbor_head 0 (unat w) @ rest) = Inr (w, rest)"
  for w :: "'a::len word"
  by (simp add: map_val_def and_then_def read_uint_head unat_less yield_def)

lemma read_head_less:
  assumes "read_head bs = Inr ((m, Some n), rest)"
  shows "n < 2 ^ 64"
proof -
  obtain b r where b: "bs = b # r" using assms by (cases bs) (auto simp: read_head_def)
  show ?thesis
  proof (cases "unat b mod 32 < 24")
    case True
    with assms b show ?thesis by (auto simp: read_head_def Let_def)
  next
    case False
    with assms b have a: "unat b mod 32 \<le> 27" "n = from_be (take (2 ^ (unat b mod 32 - 24)) r)"
      by (auto simp: read_head_def Let_def split: if_splits)
    let ?k = "2 ^ (unat b mod 32 - 24) :: nat"
    have "unat b mod 32 - 24 \<le> 3" using a(1) by simp
    then have k: "?k \<le> 2 ^ 3" by (rule power_increasing) simp
    have "from_be (take ?k r) < 256 ^ length (take ?k r)" by (rule from_be_less)
    also have "\<dots> \<le> 256 ^ 8" using k by (intro power_increasing) auto
    finally show ?thesis using a(2) by simp
  qed
qed

lemma read_block_valid: "read_block m bs = Inr (v, rest) \<Longrightarrow> length v < 2 ^ 64"
  by (auto simp: read_block_def decoder_Inr dest!: read_head_less split: option.splits if_splits)

lemma decode_values_Cons:
  assumes "decode_values (b # bs) = Some s"
  obtains v z used rest where "s = v # z" "bs = used @ rest" "decode_values rest = Some z"
    "scalar v" "utf8_width v \<le> Suc (length used)"
proof -
  consider "0 \<le> b" "b < 0x80" | "0xC2 \<le> b" "b < 0xE0" | "0xE0 \<le> b" "b < 0xF0" | "0xF0 \<le> b" "b < 0xF5"
    using assms by (auto split: if_splits)
  then show thesis
  proof cases
    case 1
    then have "scalar b" "utf8_width b = 1" by (simp_all add: scalar_def)
    with 1 assms that [of b _ "[]" bs] show thesis by auto
  next
    case 2
    with assms obtain c1 rest z where *: "bs = c1 # rest" "continuation c1" "decode_values rest = Some z"
        "s = ((b - 0xC0) * 64 + (c1 - 0x80)) # z"
      by (auto split: list.splits if_splits)
    have "scalar ((b - 0xC0) * 64 + (c1 - 0x80))" "utf8_width ((b - 0xC0) * 64 + (c1 - 0x80)) \<le> 2"
      using 2 *(2) by (auto simp: scalar_def continuation_def utf8_width_def)
    with * that [of _ z "[c1]" rest] show thesis by auto
  next
    case 3
    with assms obtain c1 c2 rest z where *: "bs = c1 # c2 # rest" "continuation c1" "continuation c2"
        "decode_values rest = Some z" "scalar ((b - 0xE0) * 4096 + (c1 - 0x80) * 64 + (c2 - 0x80))"
        "s = ((b - 0xE0) * 4096 + (c1 - 0x80) * 64 + (c2 - 0x80)) # z"
      by (auto simp: Let_def split: list.splits if_splits)
    have "utf8_width ((b - 0xE0) * 4096 + (c1 - 0x80) * 64 + (c2 - 0x80)) \<le> 3"
      using 3 *(2,3) by (auto simp: continuation_def utf8_width_def)
    with * that [of _ z "[c1, c2]" rest] show thesis by auto
  next
    case 4
    with assms obtain c1 c2 c3 rest z where *: "bs = c1 # c2 # c3 # rest" "decode_values rest = Some z"
        "scalar ((b - 0xF0) * 262144 + (c1 - 0x80) * 4096 + (c2 - 0x80) * 64 + (c3 - 0x80))"
        "s = ((b - 0xF0) * 262144 + (c1 - 0x80) * 4096 + (c2 - 0x80) * 64 + (c3 - 0x80)) # z"
      by (auto simp: Let_def split: list.splits if_splits)
    have "utf8_width v \<le> Suc (length [c1, c2, c3])" for v by (simp add: utf8_width_def)
    with * that [of _ z "[c1, c2, c3]" rest] show thesis by auto
  qed
qed

lemma decode_values_scalar: "decode_values bs = Some s \<Longrightarrow> (\<forall>c \<in> set s. scalar c) \<and> rlen s \<le> length bs"
proof (induction "length bs" arbitrary: bs s rule: less_induct)
  case less
  show ?case
  proof (cases bs)
    case (Cons b bs')
    from less.prems [unfolded Cons] obtain v z used rest where
      *: "s = v # z" "bs' = used @ rest" "decode_values rest = Some z" "scalar v" "utf8_width v \<le> Suc (length used)"
      by (rule decode_values_Cons)
    moreover have "(\<forall>c \<in> set z. scalar c) \<and> rlen z \<le> length rest"
      using less.hyps [OF _ *(3)] *(2) Cons by simp
    ultimately show ?thesis by (simp add: Cons)
  qed (use less.prems in simp)
qed

lemma wire_items:
  "dec_u8 wire_cbor (enc_u8 wire_cbor a @ rest) = Inr (a, rest)"
  "dec_u16 wire_cbor (enc_u16 wire_cbor b @ rest) = Inr (b, rest)"
  "dec_u32 wire_cbor (enc_u32 wire_cbor c @ rest) = Inr (c, rest)"
  "dec_u64 wire_cbor (enc_u64 wire_cbor d @ rest) = Inr (d, rest)"
  using read_word [of a rest] read_word [of b rest] read_word [of c rest] read_word [of d rest]
  by (simp_all add: wire_cbor_def)

lemma wire_blocks:
  "valid_bytes v \<Longrightarrow> dec_bytes wire_cbor (enc_bytes wire_cbor v @ rest) = Inr (v, rest)"
  "valid_str s \<Longrightarrow> dec_str wire_cbor (enc_str wire_cbor s @ rest) = Inr (s, rest)"
proof -
  show "valid_bytes v \<Longrightarrow> dec_bytes wire_cbor (enc_bytes wire_cbor v @ rest) = Inr (v, rest)"
    using read_block_head [of 2 v rest] by (simp add: wire_cbor_def valid_bytes_def)
  assume "valid_str s"
  then have "read_block 3 (cbor_head 3 (rlen s) @ as_bytes s @ rest) = Inr (as_bytes s, rest)"
    using read_block_head [of 3 "as_bytes s" rest] by (simp add: valid_str_def length_as_bytes)
  with \<open>valid_str s\<close> show "dec_str wire_cbor (enc_str wire_cbor s @ rest) = Inr (s, rest)"
    by (simp add: wire_cbor_def and_then_def from_utf8_as_bytes valid_str_def yield_def)
qed

lemma read_head_major: "read_head (b # bs) = Inr ((m, n), rest) \<Longrightarrow> unat b div 32 = m"
  by (auto simp: read_head_def Let_def split: if_splits)

lemma wire_str_type:
  assumes "valid_str s"
  shows "peek_type wire_cbor (enc_str wire_cbor s @ rest) = Inr TString"
proof -
  have "cbor_head 3 (rlen s) \<noteq> []" by (simp add: cbor_head_def)
  then obtain b bs where b: "cbor_head 3 (rlen s) = b # bs" by (meson neq_Nil_conv)
  then have "unat b div 32 = 3"
    using read_cbor_head [of 3 "rlen s" "[]"] assms by (auto simp: valid_str_def dest: read_head_major)
  moreover from this have "b \<noteq> 0xF6" by auto
  ultimately show ?thesis by (simp add: wire_cbor_def b)
qed

lemma wire_str_valid:
  assumes "dec_str wire_cbor bs = Inr (s, rest)"
  shows "valid_str s"
proof -
  from assms obtain v r where v: "read_block 3 bs = Inr (v, r)" "from_utf8 v = Some s"
    by (auto simp: wire_cbor_def decoder_Inr split: option.splits)
  from v(2) have "(\<forall>c \<in> set s. scalar c) \<and> rlen s \<le> length v"
    using decode_values_scalar [of "map uint v" s] by (simp add: from_utf8_def)
  with read_block_valid [OF v(1)] show ?thesis by (simp add: valid_str_def)
qed

interpretation wire: cbor_laws wire_cbor
proof unfold_locales
  show "dec_array wire_cbor (enc_array wire_cbor n @ rest) = Inr (Some n, rest)" for n rest
    using read_cbor_head [of 4 "unat n" rest] unat_less [of n] by (simp add: wire_cbor_def and_then_def yield_def)
  show "dec_bytes wire_cbor bs = Inr (v, rest) \<Longrightarrow> valid_bytes v" for bs v rest
    by (auto simp: wire_cbor_def valid_bytes_def dest: read_block_valid)
  show "dec_null wire_cbor (enc_null wire_cbor @ rest) = Inr ((), rest)"
    "peek_type wire_cbor (enc_null wire_cbor @ rest) = Inr TNull" for rest
    by (simp_all add: wire_cbor_def)
qed (fact wire_items wire_blocks wire_str_type wire_str_valid)+

end
