(* ===== verification/Protocol_Codec.thy ===== *)
theory Protocol_Codec
  imports Wire
begin

section \<open>Messages of the control protocol and their encoding (crates/sendbox-protocol/src/types.rs, codec.rs)\<close>

text \<open>
  The messages exchanged between the host and the guest, their canonical CBOR encoding and the decoder,
  over the CBOR items \<open>ops\<close> of \<open>Wire\<close>.  The encoder writes to a \<^verbatim>\<open>Vec\<close>, which cannot fail, so that encoding
  is a total function.  A \<^verbatim>\<open>CapabilitySet\<close> (a \<^verbatim>\<open>BTreeSet\<close>) is a set, read out in the order of the
  discriminants; fixed-size arrays are byte lists whose length the decoder checks.
\<close>

subsection \<open>Types\<close>

type_synonym SessionId = bytes

definition PROTOCOL_MAGIC :: bytes where
  "PROTOCOL_MAGIC = as_bytes (str ''SENDBOX'') @ [0]"

definition PROTOCOL_VERSION :: u16 where
  "PROTOCOL_VERSION = 2"

abbreviation NONCE_BYTES :: nat where "NONCE_BYTES \<equiv> 32"
abbreviation MAC_BYTES :: nat where "MAC_BYTES \<equiv> 32"

record VersionRange =
  minimum :: u16
  maximum :: u16

definition negotiate :: "VersionRange \<Rightarrow> VersionRange \<Rightarrow> u16 option" where
  "negotiate a b =
     (let lo = max (minimum a) (minimum b); hi = min (maximum a) (maximum b)
      in if lo \<le> hi then Some hi else None)"

definition versions_valid :: "VersionRange \<Rightarrow> bool" where
  "versions_valid v \<longleftrightarrow> minimum v > 0 \<and> minimum v \<le> maximum v"

datatype MessageDirection = HostToGuest | GuestToHost

datatype PeerRole = HostClient | GuestServer

fun role_direction :: "PeerRole \<Rightarrow> MessageDirection" where
  "role_direction HostClient = HostToGuest"
| "role_direction GuestServer = GuestToHost"

fun peer :: "PeerRole \<Rightarrow> PeerRole" where
  "peer HostClient = GuestServer"
| "peer GuestServer = HostClient"

datatype Capability = Lifecycle | Exec | StreamedIo | Signals | Mounts | Network | Mcp | Audit | Health

fun capability_u16 :: "Capability \<Rightarrow> u16" where
  "capability_u16 Lifecycle = 1"
| "capability_u16 Exec = 2"
| "capability_u16 StreamedIo = 3"
| "capability_u16 Signals = 4"
| "capability_u16 Mounts = 5"
| "capability_u16 Network = 6"
| "capability_u16 Mcp = 7"
| "capability_u16 Audit = 8"
| "capability_u16 Health = 9"

definition CAPABILITY_COUNT :: u64 where
  "CAPABILITY_COUNT = 9"

type_synonym CapabilitySet = "Capability set"

definition capability_iter :: "CapabilitySet \<Rightarrow> Capability list" where
  "capability_iter s =
     filter (\<lambda>c. c \<in> s) [Lifecycle, Exec, StreamedIo, Signals, Mounts, Network, Mcp, Audit, Health]"

datatype MessageKind =
  KHello | KCapabilityNegotiation | KReadiness | KRequest | KResponse | KEvent | KCancellation | KGracefulClose
| KProtocolError

fun kind_u8 :: "MessageKind \<Rightarrow> u8" where
  "kind_u8 KHello = 1"
| "kind_u8 KCapabilityNegotiation = 2"
| "kind_u8 KReadiness = 3"
| "kind_u8 KRequest = 4"
| "kind_u8 KResponse = 5"
| "kind_u8 KEvent = 6"
| "kind_u8 KCancellation = 7"
| "kind_u8 KGracefulClose = 8"
| "kind_u8 KProtocolError = 9"

record Hello =
  h_magic :: bytes
  h_versions :: VersionRange
  h_session_id :: SessionId
  h_role :: PeerRole
  h_nonce :: bytes
  h_capabilities :: CapabilitySet
  h_required_capabilities :: CapabilitySet
  h_max_frame_bytes :: u32

record Negotiation =
  n_magic :: bytes
  n_versions :: VersionRange
  n_selected_version :: u16
  n_session_id :: SessionId
  n_role :: PeerRole
  n_client_nonce :: bytes
  n_server_nonce :: bytes
  n_capabilities :: CapabilitySet
  n_required_capabilities :: CapabilitySet
  n_negotiated_capabilities :: CapabilitySet
  n_max_frame_bytes :: u32
  n_proof :: bytes

record Readiness =
  r_role :: PeerRole
  r_session_id :: SessionId
  r_selected_version :: u16
  r_negotiated_capabilities :: CapabilitySet
  r_max_frame_bytes :: u32
  r_proof :: bytes

record Request =
  request_id :: u64
  operation :: rstr
  request_payload :: bytes

datatype ResponseStatus = StatusOk | Rejected | Failed

record Response =
  response_request_id :: u64
  status :: ResponseStatus
  response_payload :: bytes

datatype EventKind =
  StandardOutput | StandardError | EvAudit | EvHealth | EvLifecycle | StandardInput | StandardInputEof
| TerminalResize | TerminalInputCredit

definition is_terminal_input :: "EventKind \<Rightarrow> bool" where
  "is_terminal_input k \<longleftrightarrow> k = StandardInput \<or> k = StandardInputEof \<or> k = TerminalResize"

record Event =
  stream_id :: u64
  event_kind :: EventKind
  event_payload :: bytes

record Cancellation =
  cancel_request_id :: u64
  cancel_reason :: "rstr option"

datatype CloseCode = Normal | Shutdown | ProtocolFailure

record GracefulClose =
  close_code :: CloseCode
  close_reason :: rstr

datatype ProtocolErrorCode =
  MalformedFrame | Authentication | CodeUnsupportedVersion | UnsupportedCapability | InvalidState | Internal

record ProtocolErrorMessage =
  error_code :: ProtocolErrorCode
  detail :: rstr

datatype Message =
  MHello Hello
| MCapabilityNegotiation Negotiation
| MReadiness Readiness
| MRequest Request
| MResponse Response
| MEvent Event
| MCancellation Cancellation
| MGracefulClose GracefulClose
| MProtocolError ProtocolErrorMessage

fun message_kind :: "Message \<Rightarrow> MessageKind" where
  "message_kind (MHello _) = KHello"
| "message_kind (MCapabilityNegotiation _) = KCapabilityNegotiation"
| "message_kind (MReadiness _) = KReadiness"
| "message_kind (MRequest _) = KRequest"
| "message_kind (MResponse _) = KResponse"
| "message_kind (MEvent _) = KEvent"
| "message_kind (MCancellation _) = KCancellation"
| "message_kind (MGracefulClose _) = KGracefulClose"
| "message_kind (MProtocolError _) = KProtocolError"

fun is_handshake :: "Message \<Rightarrow> bool" where
  "is_handshake (MHello _) = True"
| "is_handshake (MCapabilityNegotiation _) = True"
| "is_handshake (MReadiness _) = True"
| "is_handshake _ = False"

datatype ProtocolError =
  InvalidFrameLimit nat nat
| BootstrapSecretTooShort
| Randomness rstr
| FrameTooLarge nat nat
| EmptyFrame
| EndOfStream
| IncompleteFrame nat nat
| MalformedEncoding rstr
| NonCanonicalEncoding
| UnsupportedMessageKind u8
| InvalidMagic
| UnsupportedVersion u16 u16
| VersionMismatch u16
| SessionMismatch SessionId SessionId
| RoleMismatch PeerRole PeerRole
| DirectionMismatch MessageDirection MessageDirection
| MissingRequiredCapabilities
| EmptyCapabilityIntersection
| InvalidNegotiatedFrameLimit
| AuthenticationFailed
| Replay u64 u64
| OutOfOrder u64 u64
| SequenceOverflow
| RepeatedHandshake rstr
| UnexpectedHandshakeMessage rstr u8
| HandshakeMessageAfterReady
| ReaderPoisoned
| WriterPoisoned
| Io rstr

subsection \<open>Discriminants\<close>

fun role_u8 :: "PeerRole \<Rightarrow> u8" where
  "role_u8 HostClient = 1"
| "role_u8 GuestServer = 2"

fun direction_u8 :: "MessageDirection \<Rightarrow> u8" where
  "direction_u8 HostToGuest = 1"
| "direction_u8 GuestToHost = 2"

fun status_u8 :: "ResponseStatus \<Rightarrow> u8" where
  "status_u8 StatusOk = 1"
| "status_u8 Rejected = 2"
| "status_u8 Failed = 3"

fun event_kind_u8 :: "EventKind \<Rightarrow> u8" where
  "event_kind_u8 StandardOutput = 1"
| "event_kind_u8 StandardError = 2"
| "event_kind_u8 EvAudit = 3"
| "event_kind_u8 EvHealth = 4"
| "event_kind_u8 EvLifecycle = 5"
| "event_kind_u8 StandardInput = 6"
| "event_kind_u8 StandardInputEof = 7"
| "event_kind_u8 TerminalResize = 8"
| "event_kind_u8 TerminalInputCredit = 9"

fun close_code_u8 :: "CloseCode \<Rightarrow> u8" where
  "close_code_u8 Normal = 1"
| "close_code_u8 Shutdown = 2"
| "close_code_u8 ProtocolFailure = 3"

fun error_code_u16 :: "ProtocolErrorCode \<Rightarrow> u16" where
  "error_code_u16 MalformedFrame = 1"
| "error_code_u16 Authentication = 2"
| "error_code_u16 CodeUnsupportedVersion = 3"
| "error_code_u16 UnsupportedCapability = 4"
| "error_code_u16 InvalidState = 5"
| "error_code_u16 Internal = 6"

subsection \<open>The encoder\<close>

definition encode_capabilities :: "cbor_ops \<Rightarrow> CapabilitySet \<Rightarrow> bytes" where
  "encode_capabilities ops s =
     enc_array ops (word_of_nat (length (capability_iter s)))
       @ concat (map (\<lambda>c. enc_u16 ops (capability_u16 c)) (capability_iter s))"

definition encode_negotiation_core :: "cbor_ops \<Rightarrow> Negotiation \<Rightarrow> bytes" where
  "encode_negotiation_core ops n =
     enc_array ops 13 @ enc_u8 ops (kind_u8 KCapabilityNegotiation) @ enc_bytes ops (n_magic n)
       @ enc_u16 ops (minimum (n_versions n)) @ enc_u16 ops (maximum (n_versions n))
       @ enc_u16 ops (n_selected_version n) @ enc_bytes ops (n_session_id n) @ enc_u8 ops (role_u8 (n_role n))
       @ enc_bytes ops (n_client_nonce n) @ enc_bytes ops (n_server_nonce n)
       @ encode_capabilities ops (n_capabilities n) @ encode_capabilities ops (n_required_capabilities n)
       @ encode_capabilities ops (n_negotiated_capabilities n) @ enc_u32 ops (n_max_frame_bytes n)"

definition encode_readiness_core :: "cbor_ops \<Rightarrow> Readiness \<Rightarrow> bytes" where
  "encode_readiness_core ops r =
     enc_array ops 6 @ enc_u8 ops (kind_u8 KReadiness) @ enc_u8 ops (role_u8 (r_role r))
       @ enc_bytes ops (r_session_id r) @ enc_u16 ops (r_selected_version r)
       @ encode_capabilities ops (r_negotiated_capabilities r) @ enc_u32 ops (r_max_frame_bytes r)"

fun encode_message_to :: "cbor_ops \<Rightarrow> Message \<Rightarrow> bytes" where
  "encode_message_to ops (MHello h) =
     enc_array ops 10 @ enc_u8 ops (kind_u8 KHello) @ enc_bytes ops (h_magic h)
       @ enc_u16 ops (minimum (h_versions h)) @ enc_u16 ops (maximum (h_versions h))
       @ enc_bytes ops (h_session_id h) @ enc_u8 ops (role_u8 (h_role h)) @ enc_bytes ops (h_nonce h)
       @ encode_capabilities ops (h_capabilities h) @ encode_capabilities ops (h_required_capabilities h)
       @ enc_u32 ops (h_max_frame_bytes h)"
| "encode_message_to ops (MCapabilityNegotiation n) =
     enc_array ops 14 @ enc_u8 ops (kind_u8 KCapabilityNegotiation) @ enc_bytes ops (n_magic n)
       @ enc_u16 ops (minimum (n_versions n)) @ enc_u16 ops (maximum (n_versions n))
       @ enc_u16 ops (n_selected_version n) @ enc_bytes ops (n_session_id n) @ enc_u8 ops (role_u8 (n_role n))
       @ enc_bytes ops (n_client_nonce n) @ enc_bytes ops (n_server_nonce n)
       @ encode_capabilities ops (n_capabilities n) @ encode_capabilities ops (n_required_capabilities n)
       @ encode_capabilities ops (n_negotiated_capabilities n) @ enc_u32 ops (n_max_frame_bytes n)
       @ enc_bytes ops (n_proof n)"
| "encode_message_to ops (MReadiness r) =
     enc_array ops 7 @ enc_u8 ops (kind_u8 KReadiness) @ enc_u8 ops (role_u8 (r_role r))
       @ enc_bytes ops (r_session_id r) @ enc_u16 ops (r_selected_version r)
       @ encode_capabilities ops (r_negotiated_capabilities r) @ enc_u32 ops (r_max_frame_bytes r)
       @ enc_bytes ops (r_proof r)"
| "encode_message_to ops (MRequest r) =
     enc_array ops 4 @ enc_u8 ops (kind_u8 KRequest) @ enc_u64 ops (request_id r) @ enc_str ops (operation r)
       @ enc_bytes ops (request_payload r)"
| "encode_message_to ops (MResponse r) =
     enc_array ops 4 @ enc_u8 ops (kind_u8 KResponse) @ enc_u64 ops (response_request_id r)
       @ enc_u8 ops (status_u8 (status r)) @ enc_bytes ops (response_payload r)"
| "encode_message_to ops (MEvent e) =
     enc_array ops 4 @ enc_u8 ops (kind_u8 KEvent) @ enc_u64 ops (stream_id e)
       @ enc_u8 ops (event_kind_u8 (event_kind e)) @ enc_bytes ops (event_payload e)"
| "encode_message_to ops (MCancellation c) =
     enc_array ops 3 @ enc_u8 ops (kind_u8 KCancellation) @ enc_u64 ops (cancel_request_id c)
       @ (case cancel_reason c of Some r \<Rightarrow> enc_str ops r | None \<Rightarrow> enc_null ops)"
| "encode_message_to ops (MGracefulClose c) =
     enc_array ops 3 @ enc_u8 ops (kind_u8 KGracefulClose) @ enc_u8 ops (close_code_u8 (close_code c))
       @ enc_str ops (close_reason c)"
| "encode_message_to ops (MProtocolError e) =
     enc_array ops 3 @ enc_u8 ops (kind_u8 KProtocolError) @ enc_u16 ops (error_code_u16 (error_code e))
       @ enc_str ops (detail e)"

definition encode_message :: "cbor_ops \<Rightarrow> Message \<Rightarrow> bytes" where
  "encode_message ops m = encode_message_to ops m"

subsection \<open>The decoder\<close>

type_synonym 'a pdecoder = "(ProtocolError, 'a) decoder"

abbreviation item :: "(rstr, 'a) decoder \<Rightarrow> 'a pdecoder" where
  "item d \<equiv> map_err MalformedEncoding d"

definition malformed :: "string \<Rightarrow> nat \<Rightarrow> ProtocolError" where
  "malformed what value = MalformedEncoding (str what @ show_nat value)"

definition decode_array_length :: "cbor_ops \<Rightarrow> u64 pdecoder" where
  "decode_array_length ops = and_then (item (dec_array ops)) (\<lambda>n. case n of
     Some k \<Rightarrow> yield k | None \<Rightarrow> throw (MalformedEncoding (str ''indefinite arrays are invalid'')))"

definition require_array_length :: "u64 \<Rightarrow> u64 \<Rightarrow> unit pdecoder" where
  "require_array_length actual expected =
     (if actual \<noteq> expected
      then throw (MalformedEncoding (str ''expected array length '' @ show_nat (unat expected)
                    @ str '', received '' @ show_nat (unat actual)))
      else yield ())"

definition decode_fixed_bytes :: "cbor_ops \<Rightarrow> nat \<Rightarrow> bytes pdecoder" where
  "decode_fixed_bytes ops n = and_then (item (dec_bytes ops)) (\<lambda>v.
     if length v = n then yield v
     else throw (MalformedEncoding (str ''expected '' @ show_nat n @ str '' bytes'')))"

text \<open>The \<^verbatim>\<open>match\<close> of a discriminant, as a search of the variants.\<close>

definition decode_variant ::
  "(rstr, 'w::len word) decoder \<Rightarrow> ('v \<Rightarrow> 'w word) \<Rightarrow> 'v list \<Rightarrow> string \<Rightarrow> 'v pdecoder" where
  "decode_variant d code variants what = and_then (item d) (\<lambda>value.
     case List.find (\<lambda>v. code v = value) variants of
       Some v \<Rightarrow> yield v | None \<Rightarrow> throw (malformed what (unat value)))"

definition decode_capability :: "cbor_ops \<Rightarrow> Capability pdecoder" where
  "decode_capability ops = decode_variant (dec_u16 ops) capability_u16
     [Lifecycle, Exec, StreamedIo, Signals, Mounts, Network, Mcp, Audit, Health] ''unsupported capability ''"

definition decode_role :: "cbor_ops \<Rightarrow> PeerRole pdecoder" where
  "decode_role ops = decode_variant (dec_u8 ops) role_u8 [HostClient, GuestServer] ''unsupported peer role ''"

definition decode_response_status :: "cbor_ops \<Rightarrow> ResponseStatus pdecoder" where
  "decode_response_status ops =
     decode_variant (dec_u8 ops) status_u8 [StatusOk, Rejected, Failed] ''unsupported response status ''"

definition decode_event_kind :: "cbor_ops \<Rightarrow> EventKind pdecoder" where
  "decode_event_kind ops = decode_variant (dec_u8 ops) event_kind_u8
     [StandardOutput, StandardError, EvAudit, EvHealth, EvLifecycle, StandardInput, StandardInputEof,
      TerminalResize, TerminalInputCredit] ''unsupported event kind ''"

definition decode_close_code :: "cbor_ops \<Rightarrow> CloseCode pdecoder" where
  "decode_close_code ops =
     decode_variant (dec_u8 ops) close_code_u8 [Normal, Shutdown, ProtocolFailure] ''unsupported close code ''"

definition decode_protocol_error_code :: "cbor_ops \<Rightarrow> ProtocolErrorCode pdecoder" where
  "decode_protocol_error_code ops = decode_variant (dec_u16 ops) error_code_u16
     [MalformedFrame, Authentication, CodeUnsupportedVersion, UnsupportedCapability, InvalidState, Internal]
     ''unsupported protocol error code ''"

primrec decode_times :: "nat \<Rightarrow> 'a pdecoder \<Rightarrow> 'a list pdecoder" where
  "decode_times 0 d = yield []"
| "decode_times (Suc k) d = and_then d (\<lambda>v. and_then (decode_times k d) (\<lambda>vs. yield (v # vs)))"

definition decode_capabilities :: "cbor_ops \<Rightarrow> CapabilitySet pdecoder" where
  "decode_capabilities ops = and_then (decode_array_length ops) (\<lambda>len.
     if len > CAPABILITY_COUNT
     then throw (MalformedEncoding (str ''capability array length '' @ show_nat (unat len) @ str '' exceeds ''
                   @ show_nat (unat CAPABILITY_COUNT)))
     else and_then (decode_times (unat len) (decode_capability ops)) (\<lambda>caps.
       let s = set caps
       in if length (capability_iter s) \<noteq> length caps
          then throw (MalformedEncoding (str ''duplicate capabilities are invalid''))
          else yield s))"

definition decode_versions :: "cbor_ops \<Rightarrow> VersionRange pdecoder" where
  "decode_versions ops =
     and_then (item (dec_u16 ops)) (\<lambda>lo. and_then (item (dec_u16 ops)) (\<lambda>hi.
       yield \<lparr>minimum = lo, maximum = hi\<rparr>))"

definition decode_hello :: "cbor_ops \<Rightarrow> Hello pdecoder" where
  "decode_hello ops =
     and_then (decode_fixed_bytes ops 8) (\<lambda>magic.
     and_then (decode_versions ops) (\<lambda>versions.
     and_then (decode_fixed_bytes ops 16) (\<lambda>session.
     and_then (decode_role ops) (\<lambda>role.
     and_then (decode_fixed_bytes ops NONCE_BYTES) (\<lambda>nonce.
     and_then (decode_capabilities ops) (\<lambda>caps.
     and_then (decode_capabilities ops) (\<lambda>required.
     and_then (item (dec_u32 ops)) (\<lambda>max_frame.
       yield \<lparr>h_magic = magic, h_versions = versions, h_session_id = session, h_role = role, h_nonce = nonce,
              h_capabilities = caps, h_required_capabilities = required, h_max_frame_bytes = max_frame\<rparr>))))))))"

definition decode_negotiation :: "cbor_ops \<Rightarrow> Negotiation pdecoder" where
  "decode_negotiation ops =
     and_then (decode_fixed_bytes ops 8) (\<lambda>magic.
     and_then (decode_versions ops) (\<lambda>versions.
     and_then (item (dec_u16 ops)) (\<lambda>selected.
     and_then (decode_fixed_bytes ops 16) (\<lambda>session.
     and_then (decode_role ops) (\<lambda>role.
     and_then (decode_fixed_bytes ops NONCE_BYTES) (\<lambda>client_nonce.
     and_then (decode_fixed_bytes ops NONCE_BYTES) (\<lambda>server_nonce.
     and_then (decode_capabilities ops) (\<lambda>caps.
     and_then (decode_capabilities ops) (\<lambda>required.
     and_then (decode_capabilities ops) (\<lambda>negotiated.
     and_then (item (dec_u32 ops)) (\<lambda>max_frame.
     and_then (decode_fixed_bytes ops MAC_BYTES) (\<lambda>proof.
       yield \<lparr>n_magic = magic, n_versions = versions, n_selected_version = selected, n_session_id = session,
              n_role = role, n_client_nonce = client_nonce, n_server_nonce = server_nonce, n_capabilities = caps,
              n_required_capabilities = required, n_negotiated_capabilities = negotiated,
              n_max_frame_bytes = max_frame, n_proof = proof\<rparr>))))))))))))"

definition decode_readiness :: "cbor_ops \<Rightarrow> Readiness pdecoder" where
  "decode_readiness ops =
     and_then (decode_role ops) (\<lambda>role.
     and_then (decode_fixed_bytes ops 16) (\<lambda>session.
     and_then (item (dec_u16 ops)) (\<lambda>selected.
     and_then (decode_capabilities ops) (\<lambda>negotiated.
     and_then (item (dec_u32 ops)) (\<lambda>max_frame.
     and_then (decode_fixed_bytes ops MAC_BYTES) (\<lambda>proof.
       yield \<lparr>r_role = role, r_session_id = session, r_selected_version = selected,
              r_negotiated_capabilities = negotiated, r_max_frame_bytes = max_frame, r_proof = proof\<rparr>))))))"

definition decode_request :: "cbor_ops \<Rightarrow> Request pdecoder" where
  "decode_request ops =
     and_then (item (dec_u64 ops)) (\<lambda>i. and_then (item (dec_str ops)) (\<lambda>operation.
     and_then (item (dec_bytes ops)) (\<lambda>payload.
       yield \<lparr>request_id = i, operation = operation, request_payload = payload\<rparr>)))"

definition decode_response :: "cbor_ops \<Rightarrow> Response pdecoder" where
  "decode_response ops =
     and_then (item (dec_u64 ops)) (\<lambda>i. and_then (decode_response_status ops) (\<lambda>st.
     and_then (item (dec_bytes ops)) (\<lambda>payload.
       yield \<lparr>response_request_id = i, status = st, response_payload = payload\<rparr>)))"

definition decode_event :: "cbor_ops \<Rightarrow> Event pdecoder" where
  "decode_event ops =
     and_then (item (dec_u64 ops)) (\<lambda>i. and_then (decode_event_kind ops) (\<lambda>k.
     and_then (item (dec_bytes ops)) (\<lambda>payload.
       yield \<lparr>stream_id = i, event_kind = k, event_payload = payload\<rparr>)))"

definition decode_cancellation_reason :: "cbor_ops \<Rightarrow> rstr option pdecoder" where
  "decode_cancellation_reason ops bs =
     (case peek_type ops bs of
        Inl e \<Rightarrow> Inl (MalformedEncoding e)
      | Inr TNull \<Rightarrow> and_then (item (dec_null ops)) (\<lambda>_. yield None) bs
      | Inr TString \<Rightarrow> and_then (item (dec_str ops)) (\<lambda>r. yield (Some r)) bs
      | Inr (TOther t) \<Rightarrow> Inl (MalformedEncoding (str ''invalid cancellation reason type '' @ t)))"

definition decode_cancellation :: "cbor_ops \<Rightarrow> Cancellation pdecoder" where
  "decode_cancellation ops =
     and_then (item (dec_u64 ops)) (\<lambda>i. and_then (decode_cancellation_reason ops) (\<lambda>reason.
       yield \<lparr>cancel_request_id = i, cancel_reason = reason\<rparr>))"

definition decode_close :: "cbor_ops \<Rightarrow> GracefulClose pdecoder" where
  "decode_close ops =
     and_then (decode_close_code ops) (\<lambda>code. and_then (item (dec_str ops)) (\<lambda>reason.
       yield \<lparr>close_code = code, close_reason = reason\<rparr>))"

definition decode_protocol_error :: "cbor_ops \<Rightarrow> ProtocolErrorMessage pdecoder" where
  "decode_protocol_error ops =
     and_then (decode_protocol_error_code ops) (\<lambda>code. and_then (item (dec_str ops)) (\<lambda>d.
       yield \<lparr>error_code = code, detail = d\<rparr>))"

definition decode_body :: "u64 \<Rightarrow> u64 \<Rightarrow> 'a pdecoder \<Rightarrow> ('a \<Rightarrow> Message) \<Rightarrow> Message pdecoder" where
  "decode_body len expected d mk =
     and_then (require_array_length len expected) (\<lambda>_. and_then d (\<lambda>v. yield (mk v)))"

definition decode_kind :: "cbor_ops \<Rightarrow> u64 \<Rightarrow> u8 \<Rightarrow> Message pdecoder" where
  "decode_kind ops len kind =
     (if kind = kind_u8 KHello then decode_body len 10 (decode_hello ops) MHello
      else if kind = kind_u8 KCapabilityNegotiation then decode_body len 14 (decode_negotiation ops) MCapabilityNegotiation
      else if kind = kind_u8 KReadiness then decode_body len 7 (decode_readiness ops) MReadiness
      else if kind = kind_u8 KRequest then decode_body len 4 (decode_request ops) MRequest
      else if kind = kind_u8 KResponse then decode_body len 4 (decode_response ops) MResponse
      else if kind = kind_u8 KEvent then decode_body len 4 (decode_event ops) MEvent
      else if kind = kind_u8 KCancellation then decode_body len 3 (decode_cancellation ops) MCancellation
      else if kind = kind_u8 KGracefulClose then decode_body len 3 (decode_close ops) MGracefulClose
      else if kind = kind_u8 KProtocolError then decode_body len 3 (decode_protocol_error ops) MProtocolError
      else throw (UnsupportedMessageKind kind))"

definition decode_message_from :: "cbor_ops \<Rightarrow> Message pdecoder" where
  "decode_message_from ops =
     and_then (decode_array_length ops) (\<lambda>len. and_then (item (dec_u8 ops)) (\<lambda>kind. decode_kind ops len kind))"

definition decode_message :: "cbor_ops \<Rightarrow> bytes \<Rightarrow> ProtocolError + Message" where
  "decode_message ops bs =
     (case decode_message_from ops bs of
        Inl e \<Rightarrow> Inl e
      | Inr (m, rest) \<Rightarrow>
          if rest \<noteq> [] then Inl (MalformedEncoding (str ''trailing bytes after message''))
          else if encode_message ops m \<noteq> bs then Inl NonCanonicalEncoding
          else Inr m)"

subsection \<open>Messages are read back\<close>

text \<open>The messages a Rust value can be: arrays of their size, strings and vectors of the address space.\<close>

fun message_ok :: "Message \<Rightarrow> bool" where
  "message_ok (MHello h) \<longleftrightarrow>
     length (h_magic h) = 8 \<and> length (h_session_id h) = 16 \<and> length (h_nonce h) = NONCE_BYTES"
| "message_ok (MCapabilityNegotiation n) \<longleftrightarrow>
     length (n_magic n) = 8 \<and> length (n_session_id n) = 16 \<and> length (n_client_nonce n) = NONCE_BYTES
     \<and> length (n_server_nonce n) = NONCE_BYTES \<and> length (n_proof n) = MAC_BYTES"
| "message_ok (MReadiness r) \<longleftrightarrow> length (r_session_id r) = 16 \<and> length (r_proof r) = MAC_BYTES"
| "message_ok (MRequest r) \<longleftrightarrow> valid_str (operation r) \<and> valid_bytes (request_payload r)"
| "message_ok (MResponse r) \<longleftrightarrow> valid_bytes (response_payload r)"
| "message_ok (MEvent e) \<longleftrightarrow> valid_bytes (event_payload e)"
| "message_ok (MCancellation c) \<longleftrightarrow> (case cancel_reason c of Some r \<Rightarrow> valid_str r | None \<Rightarrow> True)"
| "message_ok (MGracefulClose c) \<longleftrightarrow> valid_str (close_reason c)"
| "message_ok (MProtocolError e) \<longleftrightarrow> valid_str (detail e)"

lemma capability_iter_set [simp]: "set (capability_iter s) = s"
proof -
  have "c \<in> set [Lifecycle, Exec, StreamedIo, Signals, Mounts, Network, Mcp, Audit, Health]" for c by (cases c) simp_all
  then show ?thesis unfolding capability_iter_def set_filter by blast
qed

lemma capability_iter_le: "length (capability_iter s) \<le> 9"
  unfolding capability_iter_def by (rule order_trans [OF length_filter_le]) simp

context cbor_laws
begin

lemma item_hit: "d bs = Inr r \<Longrightarrow> item d bs = Inr r"
  by (rule map_err_hit)

lemma fixed_bytes: "length v = n \<Longrightarrow> n < 2 ^ 64 \<Longrightarrow> decode_fixed_bytes ops n (enc_bytes ops v @ rest) = Inr (v, rest)"
  by (simp add: decode_fixed_bytes_def and_then_def map_err_def bytes_law valid_bytes_def yield_def)

lemma array_length: "decode_array_length ops (enc_array ops n @ rest) = Inr (n, rest)"
  by (simp add: decode_array_length_def and_then_def map_err_def array_law yield_def)

lemma versions: "decode_versions ops (enc_u16 ops (minimum v) @ enc_u16 ops (maximum v) @ rest) = Inr (v, rest)"
  by (simp add: decode_versions_def and_then_def map_err_def u16_law yield_def)

lemma role: "decode_role ops (enc_u8 ops (role_u8 r) @ rest) = Inr (r, rest)"
  by (cases r) (simp_all add: decode_role_def decode_variant_def and_then_def map_err_def u8_law yield_def)

lemma response_status: "decode_response_status ops (enc_u8 ops (status_u8 r) @ rest) = Inr (r, rest)"
  by (cases r) (simp_all add: decode_response_status_def decode_variant_def and_then_def map_err_def u8_law yield_def)

lemma event_kind: "decode_event_kind ops (enc_u8 ops (event_kind_u8 r) @ rest) = Inr (r, rest)"
  by (cases r) (simp_all add: decode_event_kind_def decode_variant_def and_then_def map_err_def u8_law yield_def)

lemma close_code: "decode_close_code ops (enc_u8 ops (close_code_u8 r) @ rest) = Inr (r, rest)"
  by (cases r) (simp_all add: decode_close_code_def decode_variant_def and_then_def map_err_def u8_law yield_def)

lemma error_code: "decode_protocol_error_code ops (enc_u16 ops (error_code_u16 r) @ rest) = Inr (r, rest)"
  by (cases r) (simp_all add: decode_protocol_error_code_def decode_variant_def and_then_def map_err_def u16_law yield_def)

lemma capability: "decode_capability ops (enc_u16 ops (capability_u16 c) @ rest) = Inr (c, rest)"
  by (cases c) (simp_all add: decode_capability_def decode_variant_def and_then_def map_err_def u16_law yield_def)

lemma capability_list:
  "decode_times (length cs) (decode_capability ops) (concat (map (\<lambda>c. enc_u16 ops (capability_u16 c)) cs) @ rest)
     = Inr (cs, rest)"
  by (induction cs) (simp_all add: yield_def and_then_def capability)

lemma capabilities: "decode_capabilities ops (encode_capabilities ops s @ rest) = Inr (s, rest)"
proof -
  let ?n = "word_of_nat (length (capability_iter s)) :: u64"
  have "unat ?n = length (capability_iter s)"
    using capability_iter_le [of s] by (simp add: unat_of_nat take_bit_nat_def)
  moreover have "\<not> ?n > CAPABILITY_COUNT"
    using capability_iter_le [of s] calculation by (simp add: CAPABILITY_COUNT_def word_less_nat_alt)
  ultimately show ?thesis
    by (simp add: decode_capabilities_def encode_capabilities_def and_then_def array_length capability_list Let_def yield_def)
qed

lemma cancellation_reason:
  "(case r of Some s \<Rightarrow> valid_str s | None \<Rightarrow> True) \<Longrightarrow>
   decode_cancellation_reason ops ((case r of Some s \<Rightarrow> enc_str ops s | None \<Rightarrow> enc_null ops) @ rest) = Inr (r, rest)"
  by (cases r)
     (simp_all add: decode_cancellation_reason_def and_then_def map_err_def round_trips yield_def)

text \<open>One step of a decoder over one encoded part.\<close>

lemma steps:
  "and_then (item (dec_u8 ops)) f (enc_u8 ops a @ rest) = f a rest"
  "and_then (item (dec_u16 ops)) g (enc_u16 ops b @ rest) = g b rest"
  "and_then (item (dec_u32 ops)) h (enc_u32 ops c @ rest) = h c rest"
  "and_then (item (dec_u64 ops)) k (enc_u64 ops d @ rest) = k d rest"
  "and_then (decode_array_length ops) k (enc_array ops d @ rest) = k d rest"
  "and_then (decode_versions ops) fv (enc_u16 ops (minimum v) @ enc_u16 ops (maximum v) @ rest) = fv v rest"
  "and_then (decode_role ops) fr (enc_u8 ops (role_u8 r) @ rest) = fr r rest"
  "and_then (decode_response_status ops) fs (enc_u8 ops (status_u8 s) @ rest) = fs s rest"
  "and_then (decode_event_kind ops) fe (enc_u8 ops (event_kind_u8 e) @ rest) = fe e rest"
  "and_then (decode_close_code ops) fc (enc_u8 ops (close_code_u8 q) @ rest) = fc q rest"
  "and_then (decode_protocol_error_code ops) fp (enc_u16 ops (error_code_u16 p) @ rest) = fp p rest"
  "and_then (decode_capabilities ops) fk (encode_capabilities ops z @ rest) = fk z rest"
  by (simp_all add: and_then_def map_err_def u8_law u16_law u32_law u64_law array_length versions role
      response_status event_kind close_code error_code capabilities)

lemma valid_steps:
  "length x = n \<Longrightarrow> n < 2 ^ 64 \<Longrightarrow> and_then (decode_fixed_bytes ops n) f (enc_bytes ops x @ rest) = f x rest"
  "valid_bytes x \<Longrightarrow> and_then (item (dec_bytes ops)) f (enc_bytes ops x @ rest) = f x rest"
  "valid_str y \<Longrightarrow> and_then (item (dec_str ops)) g (enc_str ops y @ rest) = g y rest"
  "(case w of Some s \<Rightarrow> valid_str s | None \<Rightarrow> True) \<Longrightarrow>
     and_then (decode_cancellation_reason ops) h ((case w of Some s \<Rightarrow> enc_str ops s | None \<Rightarrow> enc_null ops) @ rest) = h w rest"
  by (simp_all add: and_then_def map_err_def fixed_bytes bytes_law str_law cancellation_reason)

lemma decode_body_eq:
  "decode_body n n d mk bs = (case d bs of Inl e \<Rightarrow> Inl e | Inr (v, rest) \<Rightarrow> Inr (mk v, rest))"
  by (auto simp: decode_body_def require_array_length_def and_then_def yield_def split: sum.splits)

lemma message_start:
  "decode_message_from ops (enc_array ops n @ enc_u8 ops k @ rest) = decode_kind ops n k rest"
  by (simp only: decode_message_from_def steps)

lemmas decoders = decode_hello_def decode_negotiation_def decode_readiness_def decode_request_def
  decode_response_def decode_event_def decode_cancellation_def decode_close_def decode_protocol_error_def

lemma decode_encoded:
  "message_ok m \<Longrightarrow> decode_message_from ops (encode_message_to ops m @ rest) = Inr (m, rest)"
  by (cases m)
     ((simp only: encode_message_to.simps append_assoc message_start, simp add: decode_kind_def decode_body_eq,
       simp only: decoders, simp add: steps valid_steps yield_def)+)

lemma decode_fixed_bytes_length: "decode_fixed_bytes ops n bs = Inr (v, rest) \<Longrightarrow> length v = n"
  by (auto simp: decode_fixed_bytes_def decoder_Inr split: if_splits)

lemma decode_reason_valid:
  "decode_cancellation_reason ops bs = Inr (v, rest) \<Longrightarrow> (case v of Some s \<Rightarrow> valid_str s | None \<Rightarrow> True)"
  by (auto simp: decode_cancellation_reason_def decoder_Inr split: sum.splits cbor_type.splits dest: str_valid)

lemmas valid_parts = decode_fixed_bytes_length decode_reason_valid bytes_valid str_valid

lemma body_ok:
  "decode_hello ops bs = Inr (h, rest) \<Longrightarrow> message_ok (MHello h)"
  "decode_negotiation ops bs = Inr (n, rest) \<Longrightarrow> message_ok (MCapabilityNegotiation n)"
  "decode_readiness ops bs = Inr (r, rest) \<Longrightarrow> message_ok (MReadiness r)"
  "decode_request ops bs = Inr (q, rest) \<Longrightarrow> message_ok (MRequest q)"
  "decode_response ops bs = Inr (p, rest) \<Longrightarrow> message_ok (MResponse p)"
  "decode_event ops bs = Inr (e, rest) \<Longrightarrow> message_ok (MEvent e)"
  "decode_cancellation ops bs = Inr (c, rest) \<Longrightarrow> message_ok (MCancellation c)"
  "decode_close ops bs = Inr (g, rest) \<Longrightarrow> message_ok (MGracefulClose g)"
  "decode_protocol_error ops bs = Inr (x, rest) \<Longrightarrow> message_ok (MProtocolError x)"
  unfolding decoders decoder_Inr by ((elim exE conjE, (drule valid_parts)+, simp)+)

lemma decode_body_Inr:
  "decode_body n k d mk bs = Inr (m, rest) \<Longrightarrow> \<exists>v. d bs = Inr (v, rest) \<and> m = mk v"
  by (auto simp: decode_body_def require_array_length_def decoder_Inr split: if_splits)

lemma decode_message_Inr:
  "decode_message ops bs = Inr m \<Longrightarrow> decode_message_from ops bs = Inr (m, []) \<and> encode_message ops m = bs"
  unfolding decode_message_def
  by (cases "decode_message_from ops bs") (simp, simp only: sum.case split: prod.splits if_splits, simp_all)

lemma decode_kind_ok: "decode_kind ops n k bs = Inr (m, rest) \<Longrightarrow> message_ok m"
  unfolding decode_kind_def 
  by (simp only: throw_Inr split: if_splits) ((drule decode_body_Inr, elim exE conjE, drule body_ok, simp only:)+)

lemma decoded_ok: "decode_message_from ops bs = Inr (m, rest) \<Longrightarrow> message_ok m"
  by (auto simp only: decode_message_from_def and_then_Inr dest: decode_kind_ok)

lemma decode_message_iff:
  "decode_message ops bs = Inr m \<longleftrightarrow> message_ok m \<and> bs = encode_message ops m"
proof
  assume "decode_message ops bs = Inr m"
  from decode_message_Inr [OF this] show "message_ok m \<and> bs = encode_message ops m"
    using decoded_ok by blast
next
  assume m: "message_ok m \<and> bs = encode_message ops m"
  then have "decode_message_from ops bs = Inr (m, [])"
    using decode_encoded [of m "[]"] by (simp only: encode_message_def append_Nil2)
  with m show "decode_message ops bs = Inr m" by (simp only: decode_message_def) simp
qed

lemma encode_message_to_inj:
  assumes "message_ok a" "message_ok b" "encode_message_to ops a @ r = encode_message_to ops b @ t"
  shows "a = b \<and> r = t"
  using decode_encoded [OF assms(1), of r] decode_encoded [OF assms(2), of t] unfolding assms(3) by simp

end
subsection \<open>Properties\<close>

text \<open>
  C24: The decoder accepts exactly the canonical encodings of well-formed messages: what is encoded is read
  back, and every other byte string (trailing bytes, longer forms of an integer, unsorted or repeated
  capabilities, indefinite lengths, unknown discriminants) is refused.
\<close>

theorem decode_message_exact:
  assumes "cbor_laws ops"
  shows "decode_message ops bs = Inr m \<longleftrightarrow> message_ok m \<and> bs = encode_message ops m"
  by (rule cbor_laws.decode_message_iff [OF assms])

theorem decode_message_exact_witness:
  "decode_message wire_cbor
     (encode_message wire_cbor (MRequest \<lparr>request_id = 7, operation = str ''health'', request_payload = [1, 2]\<rparr>))
   = Inr (MRequest \<lparr>request_id = 7, operation = str ''health'', request_payload = [1, 2]\<rparr>)"
  by (subst decode_message_exact [OF wire.cbor_laws_axioms]) (simp add: valid_str_def valid_bytes_def scalar_def)

end
