(* ===== verification/Protocol_Frame.thy ===== *)
theory Protocol_Frame
  imports Protocol_Codec
begin

section \<open>Authenticated frames (crates/sendbox-protocol/src/limits.rs, crypto.rs, frame.rs)\<close>

text \<open>
  Session keys, message authentication and the two halves of an authenticated connection.  HMAC-SHA-256,
  SHA-256 and HKDF come from crates outside the sources: they are the fields of \<open>crypto_ops\<close>, with the
  contract \<open>crypto_laws\<close> (a tag verifies exactly when it is the tag, and tags and keys have 32 bytes).  The
  flag \<^verbatim>\<open>terminal\<close> that both halves share is passed explicitly.  A stream is the list of what its reads will
  see, and a write has an outcome that says how much of the frame left the process; a future that is
  dropped at an \<^verbatim>\<open>await\<close> returns no result and leaves the state it had there.
\<close>

subsection \<open>Limits\<close>

definition HARD_MAX_FRAME_BYTES :: nat where
  "HARD_MAX_FRAME_BYTES = 1024 * 1024"

definition DEFAULT_MAX_FRAME_BYTES :: nat where
  "DEFAULT_MAX_FRAME_BYTES = 256 * 1024"

definition FrameLimits_new :: "nat \<Rightarrow> ProtocolError + nat" where
  "FrameLimits_new requested =
     (if requested = 0 \<or> requested > HARD_MAX_FRAME_BYTES
      then Inl (InvalidFrameLimit requested HARD_MAX_FRAME_BYTES) else Inr requested)"

subsection \<open>Keys and tags\<close>

record crypto_ops =
  hmac_sha256 :: "bytes \<Rightarrow> bytes \<Rightarrow> bytes"
  hmac_verify :: "bytes \<Rightarrow> bytes \<Rightarrow> bytes \<Rightarrow> bool"
  sha256 :: "bytes \<Rightarrow> bytes"
  hkdf_expand :: "bytes \<Rightarrow> bytes \<Rightarrow> bytes \<Rightarrow> bytes"

locale crypto_laws =
  fixes cr :: crypto_ops
  assumes verify_law: "hmac_verify cr key msg tag \<longleftrightarrow> tag = hmac_sha256 cr key msg"
    and mac_length: "length (hmac_sha256 cr key msg) = MAC_BYTES"
    and hkdf_length: "length (hkdf_expand cr salt ikm info) = MAC_BYTES"

definition TRANSCRIPT_DOMAIN :: bytes where
  "TRANSCRIPT_DOMAIN = as_bytes (str ''sendbox protocol transcript v2'')"
definition NEGOTIATION_DOMAIN :: bytes where
  "NEGOTIATION_DOMAIN = as_bytes (str ''sendbox protocol negotiation v2'')"
definition READINESS_DOMAIN :: bytes where
  "READINESS_DOMAIN = as_bytes (str ''sendbox protocol readiness v2'')"
definition FRAME_DOMAIN :: bytes where
  "FRAME_DOMAIN = as_bytes (str ''sendbox protocol frame v2'')"
definition HKDF_SALT_DOMAIN :: bytes where
  "HKDF_SALT_DOMAIN = as_bytes (str ''sendbox protocol hkdf salt v2'')"

definition mac_parts :: "crypto_ops \<Rightarrow> bytes \<Rightarrow> bytes list \<Rightarrow> bytes" where
  "mac_parts cr key parts = hmac_sha256 cr key (concat parts)"

definition verify_mac_parts :: "crypto_ops \<Rightarrow> bytes \<Rightarrow> bytes list \<Rightarrow> bytes \<Rightarrow> ProtocolError + unit" where
  "verify_mac_parts cr key parts proof =
     (if hmac_verify cr key (concat parts) proof then Inr () else Inl AuthenticationFailed)"

definition transcript_hash :: "crypto_ops \<Rightarrow> u16 \<Rightarrow> bytes \<Rightarrow> bytes \<Rightarrow> bytes \<Rightarrow> bytes" where
  "transcript_hash cr selected_version boundary_plan_digest hello_bytes negotiation_core =
     sha256 cr (TRANSCRIPT_DOMAIN @ to_be 2 (unat selected_version) @ boundary_plan_digest @ hello_bytes
                 @ negotiation_core)"

record SessionKeys =
  key_negotiation :: bytes
  key_host_to_guest :: bytes
  key_guest_to_host :: bytes

definition SessionKeys_derive ::
  "crypto_ops \<Rightarrow> bytes \<Rightarrow> u16 \<Rightarrow> bytes \<Rightarrow> bytes \<Rightarrow> bytes \<Rightarrow> ProtocolError + SessionKeys \<times> bytes" where
  "SessionKeys_derive cr bootstrap_secret selected_version boundary_plan_digest hello_bytes negotiation_core =
     (if selected_version < PROTOCOL_VERSION then Inl (VersionMismatch selected_version)
      else
        (let hash = transcript_hash cr selected_version boundary_plan_digest hello_bytes negotiation_core;
             salt = sha256 cr (HKDF_SALT_DOMAIN @ hash);
             expand = (\<lambda>info. hkdf_expand cr salt bootstrap_secret (as_bytes (str info)))
         in Inr (\<lparr>key_negotiation = expand ''sendbox protocol negotiation key v2'',
                  key_host_to_guest = expand ''sendbox protocol host-to-guest key v2'',
                  key_guest_to_host = expand ''sendbox protocol guest-to-host key v2''\<rparr>, hash)))"

definition negotiation_proof :: "crypto_ops \<Rightarrow> SessionKeys \<Rightarrow> bytes \<Rightarrow> bytes \<Rightarrow> bytes" where
  "negotiation_proof cr keys hello_bytes negotiation_core =
     mac_parts cr (key_negotiation keys) [NEGOTIATION_DOMAIN, hello_bytes, negotiation_core]"

definition verify_negotiation_proof ::
  "crypto_ops \<Rightarrow> SessionKeys \<Rightarrow> bytes \<Rightarrow> bytes \<Rightarrow> bytes \<Rightarrow> ProtocolError + unit" where
  "verify_negotiation_proof cr keys hello_bytes negotiation_core proof =
     verify_mac_parts cr (key_negotiation keys) [NEGOTIATION_DOMAIN, hello_bytes, negotiation_core] proof"

definition directional_key :: "SessionKeys \<Rightarrow> bool \<Rightarrow> bytes" where
  "directional_key keys host_to_guest = (if host_to_guest then key_host_to_guest keys else key_guest_to_host keys)"

definition readiness_proof :: "crypto_ops \<Rightarrow> SessionKeys \<Rightarrow> bool \<Rightarrow> bytes \<Rightarrow> bytes \<Rightarrow> bytes" where
  "readiness_proof cr keys host_to_guest hash core =
     mac_parts cr (directional_key keys host_to_guest) [READINESS_DOMAIN, hash, core]"

definition verify_readiness_proof ::
  "crypto_ops \<Rightarrow> SessionKeys \<Rightarrow> bool \<Rightarrow> bytes \<Rightarrow> bytes \<Rightarrow> bytes \<Rightarrow> ProtocolError + unit" where
  "verify_readiness_proof cr keys host_to_guest hash core proof =
     verify_mac_parts cr (directional_key keys host_to_guest) [READINESS_DOMAIN, hash, core] proof"

definition frame_mac :: "crypto_ops \<Rightarrow> bytes \<Rightarrow> bytes \<Rightarrow> bytes" where
  "frame_mac cr key unsigned_bytes = mac_parts cr key [FRAME_DOMAIN, unsigned_bytes]"

definition verify_frame_mac :: "crypto_ops \<Rightarrow> bytes \<Rightarrow> bytes \<Rightarrow> bytes \<Rightarrow> ProtocolError + unit" where
  "verify_frame_mac cr key unsigned_bytes proof = verify_mac_parts cr key [FRAME_DOMAIN, unsigned_bytes] proof"

subsection \<open>Frames\<close>

record FrameMetadata =
  fm_version :: u16
  fm_session_id :: SessionId
  fm_direction :: MessageDirection

record WireFrame =
  w_magic :: bytes
  w_version :: u16
  w_session_id :: SessionId
  w_direction :: MessageDirection
  w_sequence :: u64
  w_message :: Message
  w_proof :: bytes

definition encode_unsigned_frame :: "cbor_ops \<Rightarrow> bytes \<Rightarrow> FrameMetadata \<Rightarrow> u64 \<Rightarrow> Message \<Rightarrow> bytes" where
  "encode_unsigned_frame ops magic meta sequence message =
     enc_array ops 6 @ enc_bytes ops magic @ enc_u16 ops (fm_version meta) @ enc_bytes ops (fm_session_id meta)
       @ enc_u8 ops (direction_u8 (fm_direction meta)) @ enc_u64 ops sequence @ encode_message_to ops message"

definition encode_signed_frame :: "cbor_ops \<Rightarrow> FrameMetadata \<Rightarrow> u64 \<Rightarrow> Message \<Rightarrow> bytes \<Rightarrow> bytes" where
  "encode_signed_frame ops meta sequence message proof =
     enc_array ops 7 @ enc_bytes ops PROTOCOL_MAGIC @ enc_u16 ops (fm_version meta)
       @ enc_bytes ops (fm_session_id meta) @ enc_u8 ops (direction_u8 (fm_direction meta))
       @ enc_u64 ops sequence @ encode_message_to ops message @ enc_bytes ops proof"

definition decode_direction :: "cbor_ops \<Rightarrow> MessageDirection pdecoder" where
  "decode_direction ops =
     decode_variant (dec_u8 ops) direction_u8 [HostToGuest, GuestToHost] ''unsupported message direction ''"

definition frame_array_length :: "cbor_ops \<Rightarrow> u64 pdecoder" where
  "frame_array_length ops = and_then (item (dec_array ops)) (\<lambda>n. case n of
     Some k \<Rightarrow> yield k | None \<Rightarrow> throw (MalformedEncoding (str ''indefinite frame array'')))"

definition decode_frame_fields :: "cbor_ops \<Rightarrow> WireFrame pdecoder" where
  "decode_frame_fields ops =
     and_then (frame_array_length ops) (\<lambda>len.
     if len \<noteq> 7 then throw (malformed ''expected frame array length 7, received '' (unat len))
     else
       and_then (decode_fixed_bytes ops 8) (\<lambda>magic.
       and_then (item (dec_u16 ops)) (\<lambda>version.
       and_then (decode_fixed_bytes ops 16) (\<lambda>session.
       and_then (decode_direction ops) (\<lambda>direction.
       and_then (item (dec_u64 ops)) (\<lambda>sequence.
       and_then (decode_message_from ops) (\<lambda>message.
       and_then (decode_fixed_bytes ops MAC_BYTES) (\<lambda>proof.
         yield \<lparr>w_magic = magic, w_version = version, w_session_id = session, w_direction = direction,
                w_sequence = sequence, w_message = message, w_proof = proof\<rparr>))))))))"

definition frame_metadata :: "WireFrame \<Rightarrow> FrameMetadata" where
  "frame_metadata f = \<lparr>fm_version = w_version f, fm_session_id = w_session_id f, fm_direction = w_direction f\<rparr>"

definition decode_signed_frame :: "cbor_ops \<Rightarrow> bytes \<Rightarrow> ProtocolError + WireFrame" where
  "decode_signed_frame ops bs =
     (case decode_frame_fields ops bs of
        Inl e \<Rightarrow> Inl e
      | Inr (f, rest) \<Rightarrow>
          if rest \<noteq> [] then Inl (MalformedEncoding (str ''trailing bytes after frame''))
          else if encode_signed_frame ops (frame_metadata f) (w_sequence f) (w_message f) (w_proof f) \<noteq> bs
          then Inl NonCanonicalEncoding
          else Inr f)"

definition unsigned_frame :: "cbor_ops \<Rightarrow> WireFrame \<Rightarrow> bytes" where
  "unsigned_frame ops f = encode_unsigned_frame ops (w_magic f) (frame_metadata f) (w_sequence f) (w_message f)"

subsection \<open>The sending half\<close>

abbreviation MAX_SEQUENCE :: u64 where "MAX_SEQUENCE \<equiv> - 1"

record FramedWriter =
  wr_metadata :: FrameMetadata
  wr_limits :: nat
  wr_key :: bytes
  wr_next_sequence :: u64
  wr_sending :: bool

definition FramedWriter_new :: "FrameMetadata \<Rightarrow> nat \<Rightarrow> bytes \<Rightarrow> FramedWriter" where
  "FramedWriter_new meta limits key =
     \<lparr>wr_metadata = meta, wr_limits = limits, wr_key = key, wr_next_sequence = 0, wr_sending = False\<rparr>"

text \<open>
  What becomes of a write: it completes, it fails after some bytes, it completes but the flush fails, or
  the future is dropped after some bytes.
\<close>

datatype write_outcome = Written | WriteError nat rstr | FlushError rstr | WriteDropped nat

definition signed_payload :: "cbor_ops \<Rightarrow> crypto_ops \<Rightarrow> FrameMetadata \<Rightarrow> bytes \<Rightarrow> u64 \<Rightarrow> Message \<Rightarrow> bytes" where
  "signed_payload ops cr meta key sequence message =
     encode_signed_frame ops meta sequence message
       (frame_mac cr key (encode_unsigned_frame ops PROTOCOL_MAGIC meta sequence message))"

definition frame_bytes :: "bytes \<Rightarrow> bytes" where
  "frame_bytes payload = to_be 4 (length payload) @ payload"

text \<open>\<open>send\<close>: the writer and the flag after it, the bytes that left the process, and the result if there is one.\<close>

definition send ::
  "cbor_ops \<Rightarrow> crypto_ops \<Rightarrow> FramedWriter \<Rightarrow> bool \<Rightarrow> Message \<Rightarrow> write_outcome
     \<Rightarrow> FramedWriter \<times> bool \<times> bytes \<times> (ProtocolError + unit) option" where
  "send ops cr w terminal message outcome =
     (if wr_sending w \<or> terminal then (w, terminal, [], Some (Inl WriterPoisoned))
      else if is_handshake message then (w, terminal, [], Some (Inl HandshakeMessageAfterReady))
      else if wr_next_sequence w = MAX_SEQUENCE then (w, True, [], Some (Inl SequenceOverflow))
      else
        (let payload = signed_payload ops cr (wr_metadata w) (wr_key w) (wr_next_sequence w) message
         in if length payload > wr_limits w \<or> length payload \<ge> 2 ^ 32
            then (w, terminal, [], Some (Inl (FrameTooLarge (length payload) (wr_limits w))))
            else
              (let frame = frame_bytes payload
               in case outcome of
                    Written \<Rightarrow> (w\<lparr>wr_sending := False, wr_next_sequence := wr_next_sequence w + 1\<rparr>, terminal, frame,
                                 Some (Inr ()))
                  | WriteError k e \<Rightarrow> (w\<lparr>wr_sending := False\<rparr>, True, take k frame, Some (Inl (Io e)))
                  | FlushError e \<Rightarrow> (w\<lparr>wr_sending := False\<rparr>, True, frame, Some (Inl (Io e)))
                  | WriteDropped k \<Rightarrow> (w\<lparr>wr_sending := True\<rparr>, True, take k frame, None))))"

subsection \<open>The receiving half\<close>

record FramedReader =
  rd_metadata :: FrameMetadata
  rd_limits :: nat
  rd_key :: bytes
  rd_next_sequence :: u64
  rd_buffer :: bytes
  rd_declared_length :: "nat option"

definition FramedReader_new :: "FrameMetadata \<Rightarrow> nat \<Rightarrow> bytes \<Rightarrow> FramedReader" where
  "FramedReader_new meta limits key =
     \<lparr>rd_metadata = meta, rd_limits = limits, rd_key = key, rd_next_sequence = 0, rd_buffer = [],
      rd_declared_length = None\<rparr>"

text \<open>
  What the reads of a stream will see, in order: bytes that have arrived, a failure, or that the caller
  gives up waiting.  The end of the list is the end of the stream, where a read returns nothing.
\<close>

datatype read_item = Chunk bytes | ReadFailure rstr | ReadDropped

datatype read_result = ReadBytes bytes | ReadFailed rstr | ReadGivenUp

fun stream_read :: "nat \<Rightarrow> read_item list \<Rightarrow> read_result \<times> read_item list" where
  "stream_read n [] = (ReadBytes [], [])"
| "stream_read n (Chunk bs # rest) =
     (ReadBytes (take n bs), if length bs \<le> n then rest else Chunk (drop n bs) # rest)"
| "stream_read n (ReadFailure e # rest) = (ReadFailed e, rest)"
| "stream_read n (ReadDropped # rest) = (ReadGivenUp, rest)"

definition stream_bytes :: "read_item list \<Rightarrow> bytes" where
  "stream_bytes input = concat (map (\<lambda>i. case i of Chunk bs \<Rightarrow> bs | _ \<Rightarrow> []) input)"

definition READ_CHUNK :: nat where
  "READ_CHUNK = 8192"

text \<open>The checks of a complete payload, in the order of the source.\<close>

definition check_frame :: "cbor_ops \<Rightarrow> crypto_ops \<Rightarrow> FramedReader \<Rightarrow> bytes \<Rightarrow> ProtocolError + WireFrame" where
  "check_frame ops cr r payload =
     (case decode_signed_frame ops payload of
        Inl e \<Rightarrow> Inl e
      | Inr f \<Rightarrow>
          (case verify_frame_mac cr (rd_key r) (unsigned_frame ops f) (w_proof f) of
             Inl e \<Rightarrow> Inl e
           | Inr _ \<Rightarrow>
               if w_magic f \<noteq> PROTOCOL_MAGIC then Inl InvalidMagic
               else if w_version f \<noteq> fm_version (rd_metadata r) then Inl (VersionMismatch (w_version f))
               else if w_session_id f \<noteq> fm_session_id (rd_metadata r)
               then Inl (SessionMismatch (fm_session_id (rd_metadata r)) (w_session_id f))
               else if w_direction f \<noteq> fm_direction (rd_metadata r)
               then Inl (DirectionMismatch (fm_direction (rd_metadata r)) (w_direction f))
               else if w_sequence f < rd_next_sequence r then Inl (Replay (rd_next_sequence r) (w_sequence f))
               else if w_sequence f > rd_next_sequence r then Inl (OutOfOrder (rd_next_sequence r) (w_sequence f))
               else Inr f))"

definition declare_length :: "FramedReader \<Rightarrow> ProtocolError + FramedReader" where
  "declare_length r =
     (if rd_declared_length r = None \<and> length (rd_buffer r) \<ge> 4 then
        (let declared = from_be (take 4 (rd_buffer r))
         in if declared = 0 then Inl EmptyFrame
            else if declared > rd_limits r then Inl (FrameTooLarge declared (rd_limits r))
            else Inr (r\<lparr>rd_declared_length := Some declared\<rparr>))
      else Inr r)"

definition read_target :: "FramedReader \<Rightarrow> nat" where
  "read_target r = (case rd_declared_length r of None \<Rightarrow> 4 | Some declared \<Rightarrow> 4 + declared)"

definition frame_complete :: "FramedReader \<Rightarrow> bool" where
  "frame_complete r \<longleftrightarrow> rd_declared_length r \<noteq> None \<and> length (rd_buffer r) \<ge> read_target r"

type_synonym received = "FramedReader \<times> bool \<times> read_item list \<times> (ProtocolError + Message) option"

text \<open>\<open>receive_loop\<close> returns whether the failure poisons the connection along with the result.\<close>

function receive_loop :: "cbor_ops \<Rightarrow> crypto_ops \<Rightarrow> FramedReader \<Rightarrow> read_item list \<Rightarrow> received" where
  "receive_loop ops cr r0 input =
     (case declare_length r0 of
        Inl e \<Rightarrow> (r0, True, input, Some (Inl e))
      | Inr r \<Rightarrow>
          if frame_complete r then
            (case check_frame ops cr r (take (read_target r - 4) (drop 4 (rd_buffer r))) of
               Inl e \<Rightarrow> (r, True, input, Some (Inl e))
             | Inr f \<Rightarrow> (r\<lparr>rd_buffer := drop (read_target r) (rd_buffer r), rd_declared_length := None,
                           rd_next_sequence := rd_next_sequence r + 1\<rparr>, False, input, Some (Inr (w_message f))))
          else
            (case stream_read (min (read_target r - length (rd_buffer r)) READ_CHUNK) input of
               (ReadFailed e, rest) \<Rightarrow> (r, True, rest, Some (Inl (Io e)))
             | (ReadGivenUp, rest) \<Rightarrow> (r, False, rest, None)
             | (ReadBytes bs, rest) \<Rightarrow>
                 if bs = [] then
                   (if rd_buffer r = [] then (r, False, rest, Some (Inl EndOfStream))
                    else (r, True, rest, Some (Inl (IncompleteFrame (read_target r) (length (rd_buffer r))))))
                 else receive_loop ops cr (r\<lparr>rd_buffer := rd_buffer r @ bs\<rparr>) rest))"
  by pat_completeness auto
termination
proof (relation "measure (\<lambda>(_, _, _, input). length (stream_bytes input))", goal_cases)
  case (2 ops cr r0 input r p rest bs)
  then show ?case
    by (cases "(min (read_target r - length (rd_buffer r)) READ_CHUNK, input)" rule: stream_read.cases)
       (auto simp: stream_bytes_def split: if_splits)
qed simp

declare receive_loop.simps [simp del]

definition receive :: "cbor_ops \<Rightarrow> crypto_ops \<Rightarrow> FramedReader \<Rightarrow> bool \<Rightarrow> read_item list \<Rightarrow> received" where
  "receive ops cr r terminal input =
     (if terminal then (r, terminal, input, Some (Inl ReaderPoisoned))
      else if rd_next_sequence r = MAX_SEQUENCE then (r, True, input, Some (Inl SequenceOverflow))
      else receive_loop ops cr r input)"

subsection \<open>Frames are read back\<close>

definition frame_ok :: "WireFrame \<Rightarrow> bool" where
  "frame_ok f \<longleftrightarrow> w_magic f = PROTOCOL_MAGIC \<and> length (w_session_id f) = 16 \<and> message_ok (w_message f)
     \<and> length (w_proof f) = MAC_BYTES"

lemma metadata_eta [simp]:
  "\<lparr>fm_version = fm_version m, fm_session_id = fm_session_id m, fm_direction = fm_direction m\<rparr> = m"
  by simp

lemma length_PROTOCOL_MAGIC [simp]: "length PROTOCOL_MAGIC = 8"
  by (simp add: PROTOCOL_MAGIC_def length_as_bytes)

context cbor_laws
begin

lemma direction: "decode_direction ops (enc_u8 ops (direction_u8 d) @ rest) = Inr (d, rest)"
  by (cases d) (simp_all add: decode_direction_def decode_variant_def and_then_def map_err_def u8_law yield_def)

lemma frame_steps:
  "and_then (frame_array_length ops) k (enc_array ops n @ rest) = k n rest"
  "and_then (decode_direction ops) fd (enc_u8 ops (direction_u8 d) @ rest) = fd d rest"
  "message_ok m \<Longrightarrow> and_then (decode_message_from ops) fm (encode_message_to ops m @ rest) = fm m rest"
  "length x = MAC_BYTES \<Longrightarrow> and_then (decode_fixed_bytes ops MAC_BYTES) fx (enc_bytes ops x) = fx x []"
proof -
  show "and_then (frame_array_length ops) k (enc_array ops n @ rest) = k n rest"
    by (simp add: frame_array_length_def and_then_def map_err_def array_law yield_def)
  show "and_then (decode_direction ops) fd (enc_u8 ops (direction_u8 d) @ rest) = fd d rest"
    by (simp add: and_then_def direction)
  show "message_ok m \<Longrightarrow> and_then (decode_message_from ops) fm (encode_message_to ops m @ rest) = fm m rest"
    by (simp add: and_then_def decode_encoded)
  show "length x = MAC_BYTES \<Longrightarrow> and_then (decode_fixed_bytes ops MAC_BYTES) fx (enc_bytes ops x) = fx x []"
    using valid_steps(1) [of x MAC_BYTES fx "[]"] by simp
qed

lemma decode_frame_encoded:
  assumes "length (fm_session_id meta) = 16" "message_ok m" "length proof = MAC_BYTES"
  shows "decode_frame_fields ops (encode_signed_frame ops meta seq m proof) =
    Inr (\<lparr>w_magic = PROTOCOL_MAGIC, w_version = fm_version meta, w_session_id = fm_session_id meta,
          w_direction = fm_direction meta, w_sequence = seq, w_message = m, w_proof = proof\<rparr>, [])"
  unfolding decode_frame_fields_def encode_signed_frame_def
  by (simp add: frame_steps steps valid_steps assms yield_def)

lemma decode_frame_fields_ok:
  assumes "decode_frame_fields ops bs = Inr (f, rest)"
  shows "length (w_session_id f) = 16" "message_ok (w_message f)" "length (w_proof f) = MAC_BYTES"
  using assms unfolding decode_frame_fields_def
  by (auto simp: decoder_Inr split: if_splits dest: decode_fixed_bytes_length decoded_ok)

lemma decode_signed_frame_iff:
  "decode_signed_frame ops bs = Inr f \<longleftrightarrow>
     frame_ok f \<and> bs = encode_signed_frame ops (frame_metadata f) (w_sequence f) (w_message f) (w_proof f)"
    (is "_ \<longleftrightarrow> frame_ok f \<and> bs = ?e")
proof
  assume "decode_signed_frame ops bs = Inr f"
  then have d: "decode_frame_fields ops bs = Inr (f, [])" and bs: "bs = ?e"
    unfolding decode_signed_frame_def
    by (cases "decode_frame_fields ops bs"; simp; simp only: split: prod.splits if_splits; simp)+
  note ok = decode_frame_fields_ok [OF d]
  then have "decode_frame_fields ops ?e = Inr (f\<lparr>w_magic := PROTOCOL_MAGIC\<rparr>, [])"
    by (subst decode_frame_encoded) (simp_all add: frame_metadata_def)
  with d bs have "w_magic f = PROTOCOL_MAGIC" by (metis Pair_inject WireFrame.select_convs(1)
    WireFrame.surjective WireFrame.update_convs(1) sum.inject(2))
  with ok bs show "frame_ok f \<and> bs = ?e" by (simp add: frame_ok_def)
next
  assume f: "frame_ok f \<and> bs = ?e"
  then have "decode_frame_fields ops bs = Inr (f, [])"
    by (subst conjunct2 [OF f], subst decode_frame_encoded) (simp_all add: frame_ok_def frame_metadata_def)
  with f show "decode_signed_frame ops bs = Inr f" by (simp add: decode_signed_frame_def)
qed

lemma item_inj:
  "enc_u8 ops a @ r = enc_u8 ops b @ t \<longleftrightarrow> a = b \<and> r = t"
  "enc_u16 ops c @ r = enc_u16 ops d @ t \<longleftrightarrow> c = d \<and> r = t"
  "enc_u64 ops e @ r = enc_u64 ops f @ t \<longleftrightarrow> e = f \<and> r = t"
  "enc_array ops e @ r = enc_array ops f @ t \<longleftrightarrow> e = f \<and> r = t"
  using u8_law u16_law u64_law array_law by (metis Inr_inject prod.inject option.inject)+

lemma bytes_inj:
  "valid_bytes x \<Longrightarrow> valid_bytes y \<Longrightarrow> enc_bytes ops x @ r = enc_bytes ops y @ t \<longleftrightarrow> x = y \<and> r = t"
  using bytes_law by (metis Inr_inject prod.inject)

lemma unsigned_frame_inj:
  assumes "length (fm_session_id meta) = 16" "length (fm_session_id meta') = 16" "message_ok m" "message_ok m'"
    and "encode_unsigned_frame ops PROTOCOL_MAGIC meta seq m = encode_unsigned_frame ops PROTOCOL_MAGIC meta' seq' m'"
  shows "fm_version meta = fm_version meta' \<and> fm_session_id meta = fm_session_id meta' \<and> seq = seq' \<and> m = m'"
proof -
  have "valid_bytes (fm_session_id meta)" "valid_bytes (fm_session_id meta')" "valid_bytes PROTOCOL_MAGIC"
    using assms(1,2) by (simp_all add: valid_bytes_def)
  then show ?thesis
    using assms(5) encode_message_to_inj [OF assms(3,4), of "[]" "[]"]
    by (simp add: encode_unsigned_frame_def item_inj bytes_inj)
qed

end

subsection \<open>What a call of \<^verbatim>\<open>receive\<close> does\<close>

definition reader_ok :: "FramedReader \<Rightarrow> bool" where
  "reader_ok r \<longleftrightarrow> (case rd_declared_length r of
     None \<Rightarrow> length (rd_buffer r) \<le> 4
   | Some d \<Rightarrow> 0 < d \<and> d \<le> rd_limits r \<and> 4 \<le> length (rd_buffer r) \<and> length (rd_buffer r) \<le> 4 + d
       \<and> from_be (take 4 (rd_buffer r)) = d)"

definition same_reader :: "FramedReader \<Rightarrow> FramedReader \<Rightarrow> bool" where
  "same_reader r r' \<longleftrightarrow> rd_metadata r' = rd_metadata r \<and> rd_limits r' = rd_limits r \<and> rd_key r' = rd_key r"

text \<open>A message taken from the stream: one whole frame, checked, and the reader ready for the next.\<close>

definition takes_frame ::
  "cbor_ops \<Rightarrow> crypto_ops \<Rightarrow> FramedReader \<Rightarrow> bytes \<Rightarrow> FramedReader \<Rightarrow> bytes \<Rightarrow> Message \<Rightarrow> bool" where
  "takes_frame ops cr r bs r' bs' m \<longleftrightarrow>
     (\<exists>payload f. bs = frame_bytes payload @ bs' \<and> 0 < length payload \<and> length payload \<le> rd_limits r
        \<and> length payload < 2 ^ 32 \<and> check_frame ops cr r payload = Inr f \<and> m = w_message f)
     \<and> rd_next_sequence r' = rd_next_sequence r + 1 \<and> rd_buffer r' = [] \<and> rd_declared_length r' = None"

definition receive_spec ::
  "cbor_ops \<Rightarrow> crypto_ops \<Rightarrow> FramedReader \<Rightarrow> read_item list \<Rightarrow> received \<Rightarrow> bool" where
  "receive_spec ops cr r input res \<longleftrightarrow>
     (case res of (r', terminal, input', result) \<Rightarrow>
        same_reader r r' \<and> (let bs = rd_buffer r @ stream_bytes input; bs' = rd_buffer r' @ stream_bytes input'
        in case result of
             Some (Inr m) \<Rightarrow> \<not> terminal \<and> takes_frame ops cr r bs r' bs' m
           | Some (Inl e) \<Rightarrow> rd_next_sequence r' = rd_next_sequence r
               \<and> (\<not> terminal \<longrightarrow> e = EndOfStream \<and> reader_ok r' \<and> bs' = bs)
           | None \<Rightarrow> \<not> terminal \<and> reader_ok r' \<and> bs' = bs \<and> rd_next_sequence r' = rd_next_sequence r))"

lemma check_frame_cong:
  assumes "same_reader r r'" "rd_next_sequence r' = rd_next_sequence r"
  shows "check_frame ops cr r' = check_frame ops cr r"
proof -
  have eqs: "rd_metadata r' = rd_metadata r" "rd_key r' = rd_key r" using assms by (simp_all add: same_reader_def)
  show ?thesis unfolding check_frame_def eqs assms(2) by (rule refl)
qed

lemma takes_frame_cong:
  assumes "same_reader r r'" "rd_next_sequence r' = rd_next_sequence r"
  shows "takes_frame ops cr r' = takes_frame ops cr r"
  using assms check_frame_cong [OF assms, of ops cr] unfolding takes_frame_def fun_eq_iff by (simp add: same_reader_def)

lemma same_reader_trans: "same_reader a b \<Longrightarrow> same_reader b c \<Longrightarrow> same_reader a c"
  by (simp add: same_reader_def)

lemma declare_length_ok:
  assumes "reader_ok r0" "declare_length r0 = Inr r"
  shows "reader_ok r" "same_reader r0 r" "rd_buffer r = rd_buffer r0" "rd_next_sequence r = rd_next_sequence r0"
    "frame_complete r \<or> length (rd_buffer r) < read_target r"
  using assms
  by (auto simp: declare_length_def reader_ok_def same_reader_def Let_def frame_complete_def read_target_def
      split: if_splits option.splits)

lemma stream_read_bytes:
  "stream_read n input = (ReadBytes bs, rest) \<Longrightarrow> bs @ stream_bytes rest = stream_bytes input \<and> length bs \<le> n"
  by (cases "(n, input)" rule: stream_read.cases) (auto simp: stream_bytes_def split: if_splits)

lemma stream_read_other:
  "stream_read n input = (ReadGivenUp, rest) \<Longrightarrow> stream_bytes rest = stream_bytes input"
  by (cases "(n, input)" rule: stream_read.cases) (auto simp: stream_bytes_def)

lemma frame_complete_takes:
  assumes ok: "reader_ok r" "frame_complete r"
    and f: "check_frame ops cr r (take (read_target r - 4) (drop 4 (rd_buffer r))) = Inr f"
  shows "takes_frame ops cr r (rd_buffer r @ bs)
    (r\<lparr>rd_buffer := drop (read_target r) (rd_buffer r), rd_declared_length := None,
       rd_next_sequence := rd_next_sequence r + 1\<rparr>) bs (w_message f)"
proof -
  obtain d where d: "rd_declared_length r = Some d" using ok(2) by (auto simp: frame_complete_def)
  let ?b = "rd_buffer r" and ?p = "drop 4 (rd_buffer r)"
  have b: "length ?b = 4 + d" "from_be (take 4 ?b) = d" "0 < d" "d \<le> rd_limits r"
    using ok d by (auto simp: reader_ok_def frame_complete_def read_target_def)
  then have "to_be 4 d = take 4 ?b" using to_be_from_be [of "take 4 ?b" 4] by simp
  then have "?b = frame_bytes ?p" using b(1) by (simp add: frame_bytes_def)
  moreover have "d < 2 ^ 32" using from_be_less [of "take 4 ?b"] b(1,2) by simp
  ultimately show ?thesis
    using b f d by (auto simp: takes_frame_def read_target_def intro!: exI [of _ ?p])
qed

lemma receive_spec_step:
  assumes "same_reader r r'" "rd_next_sequence r' = rd_next_sequence r"
    and "rd_buffer r' @ stream_bytes input' = rd_buffer r @ stream_bytes input"
    and "receive_spec ops cr r' input' res"
  shows "receive_spec ops cr r input res"
  using assms takes_frame_cong [OF assms(1,2), of ops cr]
  by (auto simp: receive_spec_def Let_def split: prod.splits option.splits sum.splits dest: same_reader_trans)

lemma receive_loop_spec:
  assumes "reader_ok r0"
  shows "receive_spec ops cr r0 input (receive_loop ops cr r0 input)"
  using assms
proof (induction ops cr r0 input rule: receive_loop.induct)
  case (1 ops cr r0 input)
  have refl: "same_reader r0 r0" by (simp add: same_reader_def)
  show ?case
  proof (cases "declare_length r0")
    case (Inl e)
    with refl show ?thesis by (subst receive_loop.simps) (simp add: receive_spec_def)
  next
    case (Inr r)
    note ok = declare_length_ok [OF "1.prems" Inr]
    let ?p = "take (read_target r - 4) (drop 4 (rd_buffer r))"
    have "receive_spec ops cr r input (receive_loop ops cr r0 input)"
    proof (cases "frame_complete r")
      case True
      show ?thesis
      proof (cases "check_frame ops cr r ?p")
        case (Inl e)
        with Inr True \<open>declare_length r0 = Inr r\<close> show ?thesis
          by (subst receive_loop.simps) (simp add: receive_spec_def same_reader_def)
      next
        case f: (Inr f)
        with True \<open>declare_length r0 = Inr r\<close> frame_complete_takes [OF ok(1) True f, of "stream_bytes input"] show ?thesis
          by (subst receive_loop.simps) (simp add: receive_spec_def same_reader_def takes_frame_def)
      qed
    next
      case False
      then have lt: "length (rd_buffer r) < read_target r" using ok(5) by simp
      let ?n = "min (read_target r - length (rd_buffer r)) READ_CHUNK"
      obtain x rest where x: "stream_read ?n input = (x, rest)" by fastforce
      show ?thesis
      proof (cases x)
        case (ReadBytes bs)
        note b = stream_read_bytes [OF x [unfolded ReadBytes]]
        show ?thesis
        proof (cases "bs = []")
          case True
          with ReadBytes x b False Inr ok(1) show ?thesis
            by (subst receive_loop.simps) (auto simp: receive_spec_def same_reader_def)
        next
          case ne: False
          let ?r = "r\<lparr>rd_buffer := rd_buffer r @ bs\<rparr>"
          have "reader_ok ?r"
            using ok(1) lt b by (auto simp: reader_ok_def read_target_def split: option.splits)
          then have "receive_spec ops cr ?r rest (receive_loop ops cr ?r rest)"
            using "1.IH" [OF Inr False x [symmetric] ReadBytes ne] by simp
          then have "receive_spec ops cr r input (receive_loop ops cr ?r rest)"
            by (rule receive_spec_step [rotated -1]) (use b in \<open>simp_all add: same_reader_def\<close>)
          with ReadBytes x ne False Inr show ?thesis by (subst receive_loop.simps) simp
        qed
      next
        case (ReadFailed e)
        with x False Inr show ?thesis
          by (subst receive_loop.simps) (simp add: receive_spec_def same_reader_def)
      next
        case ReadGivenUp
        with x False Inr ok(1) stream_read_other [of ?n input rest] show ?thesis
          by (subst receive_loop.simps) (simp add: receive_spec_def same_reader_def)
      qed
    qed
    then show ?thesis by (rule receive_spec_step [rotated -1]) (simp_all add: ok)
  qed
qed

subsection \<open>Sequences of calls\<close>

text \<open>Repeated calls of \<^verbatim>\<open>receive\<close>, whatever they return, with the messages they delivered.\<close>

primrec receive_many ::
  "cbor_ops \<Rightarrow> crypto_ops \<Rightarrow> nat \<Rightarrow> FramedReader \<Rightarrow> bool \<Rightarrow> read_item list
     \<Rightarrow> FramedReader \<times> bool \<times> read_item list \<times> Message list" where
  "receive_many ops cr 0 r terminal input = (r, terminal, input, [])"
| "receive_many ops cr (Suc n) r terminal input =
     (case receive ops cr r terminal input of (r1, terminal1, input1, result) \<Rightarrow>
        (case receive_many ops cr n r1 terminal1 input1 of (r2, terminal2, input2, ms) \<Rightarrow>
           (r2, terminal2, input2, case result of Some (Inr m) \<Rightarrow> m # ms | _ \<Rightarrow> ms)))"

text \<open>The payloads of a byte stream, as its length prefixes delimit them.\<close>

function frames_of :: "bytes \<Rightarrow> bytes list" where
  "frames_of bs =
     (let d = from_be (take 4 bs)
      in if length bs < 4 \<or> d = 0 \<or> length bs < 4 + d then []
         else take d (drop 4 bs) # frames_of (drop (4 + d) bs))"
  by pat_completeness auto
termination
  by (relation "measure length") auto

declare frames_of.simps [simp del]

lemma frames_of_frame:
  assumes "0 < length p" "length p < 2 ^ 32"
  shows "frames_of (frame_bytes p @ rest) = p # frames_of rest"
proof -
  have "from_be (to_be 4 (length p)) = length p" by (rule from_be_to_be) (use assms(2) in simp)
  with assms(1) show ?thesis
    by (subst frames_of.simps) (simp add: frame_bytes_def Let_def del: to_be.simps)
qed

lemma check_frame_Inr:
  assumes "check_frame ops cr r payload = Inr f"
  shows "decode_signed_frame ops payload = Inr f"
    and "hmac_verify cr (rd_key r) (FRAME_DOMAIN @ unsigned_frame ops f) (w_proof f)"
    and "w_magic f = PROTOCOL_MAGIC" "frame_metadata f = rd_metadata r" "w_sequence f = rd_next_sequence r"
  using assms
  by (auto simp: check_frame_def verify_frame_mac_def verify_mac_parts_def frame_metadata_def
      split: sum.splits if_splits)

lemma receive_cases:
  assumes "reader_ok r" "\<not> terminal" "rd_next_sequence r \<noteq> MAX_SEQUENCE"
  shows "receive_spec ops cr r input (receive ops cr r terminal input)"
  using assms receive_loop_spec by (simp add: receive_def)

lemma receive_many_poisoned: "receive_many ops cr n r True input = (r, True, input, [])"
  by (induction n) (simp_all add: receive_def)

lemma receive_many_exhausted:
  "rd_next_sequence r = MAX_SEQUENCE \<Longrightarrow> snd (snd (snd (receive_many ops cr n r terminal input))) = []"
  by (cases n; cases terminal) (simp_all add: receive_def receive_many_poisoned)

text \<open>Every tag in the stream that verifies was made by the peer, for one of the messages it sent.\<close>

definition genuine :: "cbor_ops \<Rightarrow> crypto_ops \<Rightarrow> FrameMetadata \<Rightarrow> bytes \<Rightarrow> Message list \<Rightarrow> bytes \<Rightarrow> bool" where
  "genuine ops cr meta key sent bs \<longleftrightarrow>
     (\<forall>payload \<in> set (frames_of bs). \<forall>f. decode_signed_frame ops payload = Inr f
        \<and> hmac_verify cr key (FRAME_DOMAIN @ unsigned_frame ops f) (w_proof f)
        \<longrightarrow> (\<exists>i < length sent. unsigned_frame ops f =
              encode_unsigned_frame ops PROTOCOL_MAGIC meta (word_of_nat i) (sent ! i)))"

lemma word_of_nat_u64_inj:
  "i < 2 ^ 64 \<Longrightarrow> j < 2 ^ 64 \<Longrightarrow> (word_of_nat i :: u64) = word_of_nat j \<longleftrightarrow> i = j"
  by (simp add: word_of_nat_eq_iff take_bit_nat_def)

context cbor_laws
begin

lemma accepted_genuine:
  assumes "takes_frame ops cr r bs r' bs' m"
    and "genuine ops cr (rd_metadata r) (rd_key r) sent bs" "length (fm_session_id (rd_metadata r)) = 16"
    and "\<forall>m \<in> set sent. message_ok m" "length sent < 2 ^ 64" "rd_next_sequence r = word_of_nat j" "j < 2 ^ 64"
  shows "j < length sent" "m = sent ! j" "genuine ops cr (rd_metadata r) (rd_key r) sent bs'"
proof -
  from assms(1) obtain payload f where p: "bs = frame_bytes payload @ bs'" "0 < length payload" "length payload < 2 ^ 32"
      "check_frame ops cr r payload = Inr f" "m = w_message f"
    by (auto simp: takes_frame_def)
  note c = check_frame_Inr [OF p(4)]
  have frames: "frames_of bs = payload # frames_of bs'" using p by (simp add: frames_of_frame)
  then show "genuine ops cr (rd_metadata r) (rd_key r) sent bs'" using assms(2) by (simp add: genuine_def)
  from assms(2) frames c(1,2) obtain i where i: "i < length sent"
      "unsigned_frame ops f = encode_unsigned_frame ops PROTOCOL_MAGIC (rd_metadata r) (word_of_nat i) (sent ! i)"
    by (auto simp: genuine_def)
  have f: "message_ok (w_message f)" using c(1) by (simp add: decode_signed_frame_iff frame_ok_def)
  have "message_ok (sent ! i)" using assms(4) i(1) by simp
  from unsigned_frame_inj [OF assms(3) assms(3) f this] i(2)
  have "w_sequence f = word_of_nat i" "w_message f = sent ! i"
    by (simp_all add: unsigned_frame_def c(3,4))
  moreover from this(1) have "i = j"
    using c(5) assms(5,6,7) i(1) by (simp add: word_of_nat_u64_inj)
  ultimately show "j < length sent" "m = sent ! j" using i(1) p(5) by auto
qed

lemma received_from:
  assumes "reader_ok r" "genuine ops cr (rd_metadata r) (rd_key r) sent (rd_buffer r @ stream_bytes input)"
    and "length (fm_session_id (rd_metadata r)) = 16" "\<forall>m \<in> set sent. message_ok m" "length sent < 2 ^ 64"
    and "rd_next_sequence r = word_of_nat j" "j \<le> length sent"
    and "receive_many ops cr n r terminal input = (r', terminal', input', ms)"
  shows "ms = take (length ms) (drop j sent)"
  using assms
proof (induction n arbitrary: r terminal input j ms)
  case (Suc n)
  show ?case
  proof (cases "terminal \<or> rd_next_sequence r = MAX_SEQUENCE")
    case True
    then have "ms = []" using Suc.prems(8) receive_many_exhausted [of r ops cr "Suc n" terminal input]
      by (cases terminal) (simp_all add: receive_many_poisoned del: receive_many.simps)
    then show ?thesis by simp
  next
    case False
    obtain r1 t1 i1 res where 1: "receive ops cr r terminal input = (r1, t1, i1, res)" by (cases "receive ops cr r terminal input")
    obtain ms1 where 2: "receive_many ops cr n r1 t1 i1 = (r', terminal', input', ms1)"
        and ms: "ms = (case res of Some (Inr m) \<Rightarrow> m # ms1 | _ \<Rightarrow> ms1)"
      using Suc.prems(8) by (auto simp: 1 split: prod.splits)
    have spec: "receive_spec ops cr r input (r1, t1, i1, res)"
      using receive_cases [of r terminal ops cr input] Suc.prems(1) False 1 by simp
    then have same: "rd_metadata r1 = rd_metadata r" "rd_key r1 = rd_key r" by (simp_all add: receive_spec_def same_reader_def)
    show ?thesis
    proof (cases "t1")
      case True
      then have "ms1 = []" using 2 by (simp add: receive_many_poisoned)
      moreover have "ms = ms1" using spec True ms by (auto simp: receive_spec_def split: option.splits sum.splits)
      ultimately show ?thesis by simp
    next
      case alive: False
      show ?thesis
      proof (cases "\<exists>m. res = Some (Inr m)")
        case True
        then obtain m where m: "res = Some (Inr m)" ..
        then have t: "takes_frame ops cr r (rd_buffer r @ stream_bytes input) r1 (rd_buffer r1 @ stream_bytes i1) m"
          using spec by (simp add: receive_spec_def)
        note a = accepted_genuine [OF t Suc.prems(2-5,6)]
        have j: "j < 2 ^ 64" using Suc.prems(5,7) by simp
        have "ms1 = take (length ms1) (drop (Suc j) sent)"
          by (rule Suc.IH [of r1 i1 "Suc j", OF _ _ _ Suc.prems(4,5) _ _ 2])
             (use t a [OF j] same Suc.prems(3,6) in \<open>simp_all add: takes_frame_def reader_ok_def add.commute\<close>)
        then have "m # ms1 = take (length (m # ms1)) (drop j sent)"
          using a(1,2) [OF j] by (simp add: Cons_nth_drop_Suc [symmetric])
        then show ?thesis using ms m by (simp only: option.case sum.case)
      next
        case other: False
        then have "ms = ms1" using ms by (auto split: option.splits sum.splits)
        moreover have "ms1 = take (length ms1) (drop j sent)"
          by (rule Suc.IH [of r1 i1 j, OF _ _ _ Suc.prems(4,5) _ Suc.prems(7) 2])
             (use spec other alive same Suc.prems in \<open>auto simp: receive_spec_def Let_def split: option.splits sum.splits\<close>)
        ultimately show ?thesis by simp
      qed
    qed
  qed
qed simp

end

subsection \<open>Progress\<close>

text \<open>A stream that only delivers bytes.\<close>

definition plain_stream :: "read_item list \<Rightarrow> bool" where
  "plain_stream input \<longleftrightarrow> (\<forall>i \<in> set input. \<exists>bs. i = Chunk bs \<and> bs \<noteq> [])"

lemma stream_read_plain:
  assumes "plain_stream input" "0 < n" "stream_bytes input \<noteq> []"
  obtains bs rest where "stream_read n input = (ReadBytes bs, rest)" "bs \<noteq> []" "plain_stream rest"
  using assms that
  by (cases "(n, input)" rule: stream_read.cases)
     (auto simp: plain_stream_def stream_bytes_def split: if_splits)

lemma frame_prefix:
  assumes "frame_bytes p @ rest = b @ c" "4 \<le> length b" "length p < 2 ^ 32"
  shows "from_be (take 4 b) = length p"
proof -
  have "take 4 b = take 4 (b @ c)" using assms(2) by simp
  also have "\<dots> = to_be 4 (length p)" unfolding assms(1) [symmetric] by (simp add: frame_bytes_def del: to_be.simps)
  finally show ?thesis using from_be_to_be [of "length p" 4] assms(3) by simp
qed

lemma frame_bytes_inj:
  assumes "frame_bytes p @ a = frame_bytes q @ b" "length p < 2 ^ 32" "length q < 2 ^ 32"
  shows "p = q \<and> a = b"
proof -
  have "length q = length p"
    using frame_prefix [of p a "frame_bytes q" b] assms frame_prefix [of q b "frame_bytes q" b]
    by (simp add: frame_bytes_def del: to_be.simps)
  with assms(1) show ?thesis by (simp add: frame_bytes_def del: to_be.simps)
qed

lemma receive_loop_progress:
  assumes "reader_ok r0" "plain_stream input" "rd_buffer r0 @ stream_bytes input = frame_bytes p @ rest"
    and "0 < length p" "length p \<le> rd_limits r0" "length p < 2 ^ 32" "check_frame ops cr r0 p = Inr f"
  shows "\<exists>r' input'. receive_loop ops cr r0 input = (r', False, input', Some (Inr (w_message f)))
    \<and> plain_stream input'"
  using assms
proof (induction ops cr r0 input rule: receive_loop.induct)
  case (1 ops cr r0 input)
  have len: "length (frame_bytes p) = 4 + length p" by (simp add: frame_bytes_def)
  have d: "from_be (take 4 (rd_buffer r0)) = length p" if "4 \<le> length (rd_buffer r0)"
    using frame_prefix [OF "1.prems"(3) [symmetric] that "1.prems"(6)] .
  have "\<exists>r. declare_length r0 = Inr r"
    using d "1.prems"(4,5) unfolding declare_length_def Let_def by auto
  then obtain r where r: "declare_length r0 = Inr r" ..
  note ok = declare_length_ok [OF "1.prems"(1) r]
  have dl: "rd_declared_length r = (if 4 \<le> length (rd_buffer r) then Some (length p) else None)"
  proof (cases "rd_declared_length r0")
    case None
    with r d ok(3) show ?thesis by (auto simp: declare_length_def Let_def split: if_splits)
  next
    case (Some e)
    with "1.prems"(1) d have "4 \<le> length (rd_buffer r0)" "e = length p" by (simp_all add: reader_ok_def)
    with Some r show ?thesis by (simp add: declare_length_def)
  qed
  show ?case
  proof (cases "frame_complete r")
    case True
    then have b: "rd_declared_length r = Some (length p)" "length (rd_buffer r) \<ge> 4 + length p"
      using dl by (auto simp: frame_complete_def read_target_def split: if_splits)
    then have "take (length p) (drop 4 (rd_buffer r)) = take (length p) (drop 4 (frame_bytes p @ rest))"
      unfolding "1.prems"(3) [symmetric] using ok(3) by simp
    then have "take (length p) (drop 4 (rd_buffer r)) = p" by (simp add: frame_bytes_def del: to_be.simps)
    then show ?thesis
      using True r b "1.prems"(2,7) check_frame_cong [OF ok(2,4), of ops cr]
      by (subst receive_loop.simps) (simp add: read_target_def)
  next
    case False
    then have lt: "length (rd_buffer r) < read_target r" using ok(5) by simp
    moreover have "read_target r \<le> 4 + length p" using dl by (simp add: read_target_def)
    ultimately have "length (rd_buffer r0) < length (rd_buffer r0 @ stream_bytes input)"
      unfolding "1.prems"(3) using len ok(3) by simp
    then have ne: "stream_bytes input \<noteq> []" by auto
    let ?n = "min (read_target r - length (rd_buffer r)) READ_CHUNK"
    have "0 < ?n" using lt by (simp add: READ_CHUNK_def)
    then obtain bs tail where x: "stream_read ?n input = (ReadBytes bs, tail)" "bs \<noteq> []" "plain_stream tail"
      using stream_read_plain [OF "1.prems"(2) _ ne] by blast
    note b = stream_read_bytes [OF x(1)]
    let ?r = "r\<lparr>rd_buffer := rd_buffer r @ bs\<rparr>"
    have "reader_ok ?r" using ok(1) lt b by (auto simp: reader_ok_def read_target_def split: option.splits)
    moreover have "check_frame ops cr ?r p = Inr f"
      using "1.prems"(7) ok check_frame_cong [of r0 ?r ops cr] by (simp add: same_reader_def)
    ultimately have "\<exists>r' input'. receive_loop ops cr ?r tail = (r', False, input', Some (Inr (w_message f)))
        \<and> plain_stream input'"
      using "1.IH" [OF r False x(1) [symmetric] refl x(2)] x(3) b "1.prems"(3-6) ok(2,3) by (simp add: same_reader_def)
    with x r False show ?thesis by (subst receive_loop.simps) simp
  qed
qed

subsection \<open>From one end to the other\<close>

text \<open>Repeated calls of \<^verbatim>\<open>send\<close>: the bytes that left the process and the messages reported as sent.\<close>

fun send_many ::
  "cbor_ops \<Rightarrow> crypto_ops \<Rightarrow> FramedWriter \<Rightarrow> bool \<Rightarrow> (Message \<times> write_outcome) list
     \<Rightarrow> FramedWriter \<times> bool \<times> bytes \<times> Message list" where
  "send_many ops cr w terminal [] = (w, terminal, [], [])"
| "send_many ops cr w terminal ((m, outcome) # script) =
     (case send ops cr w terminal m outcome of (w1, terminal1, bs, result) \<Rightarrow>
        (case send_many ops cr w1 terminal1 script of (w2, terminal2, bs2, ms) \<Rightarrow>
           (w2, terminal2, bs @ bs2, if result = Some (Inr ()) then m # ms else ms)))"

text \<open>The frames of consecutive messages.\<close>

fun sent_bytes :: "cbor_ops \<Rightarrow> crypto_ops \<Rightarrow> FramedWriter \<Rightarrow> u64 \<Rightarrow> Message list \<Rightarrow> bytes" where
  "sent_bytes ops cr w seq [] = []"
| "sent_bytes ops cr w seq (m # ms) =
     frame_bytes (signed_payload ops cr (wr_metadata w) (wr_key w) seq m) @ sent_bytes ops cr w (seq + 1) ms"

fun sent_fits :: "cbor_ops \<Rightarrow> crypto_ops \<Rightarrow> FramedWriter \<Rightarrow> u64 \<Rightarrow> Message list \<Rightarrow> bool" where
  "sent_fits ops cr w seq [] \<longleftrightarrow> True"
| "sent_fits ops cr w seq (m # ms) \<longleftrightarrow> seq \<noteq> MAX_SEQUENCE
     \<and> (let n = length (signed_payload ops cr (wr_metadata w) (wr_key w) seq m) in n \<le> wr_limits w \<and> n < 2 ^ 32)
     \<and> sent_fits ops cr w (seq + 1) ms"

definition same_writer :: "FramedWriter \<Rightarrow> FramedWriter \<Rightarrow> bool" where
  "same_writer w w' \<longleftrightarrow> wr_metadata w' = wr_metadata w \<and> wr_key w' = wr_key w \<and> wr_limits w' = wr_limits w"

lemma sent_cong:
  assumes "same_writer w w'"
  shows "sent_bytes ops cr w' seq ms = sent_bytes ops cr w seq ms" "sent_fits ops cr w' seq ms = sent_fits ops cr w seq ms"
  using assms by (induction ms arbitrary: seq) (simp_all add: same_writer_def)

lemma send_cases:
  assumes "send ops cr w terminal m outcome = (w', terminal', bs, result)"
  shows "same_writer w w'"
    and "result = Some (Inr ()) \<Longrightarrow> bs = sent_bytes ops cr w (wr_next_sequence w) [m]
           \<and> sent_fits ops cr w (wr_next_sequence w) [m] \<and> \<not> terminal' \<and> wr_next_sequence w' = wr_next_sequence w + 1"
    and "result \<noteq> Some (Inr ()) \<Longrightarrow> terminal' \<or> bs = [] \<and> wr_next_sequence w' = wr_next_sequence w"
  using assms
  by (auto simp: send_def same_writer_def Let_def split: if_splits write_outcome.splits)

lemma send_many_poisoned: "send_many ops cr w True script = (w, True, [], [])"
  by (induction script) (auto simp: send_def)

lemma send_many_emits:
  assumes "send_many ops cr w terminal script = (w', terminal', bs, ms)"
  shows "sent_fits ops cr w (wr_next_sequence w) ms
    \<and> (\<exists>tail. bs = sent_bytes ops cr w (wr_next_sequence w) ms @ tail) \<and> set ms \<subseteq> fst ` set script"
  using assms
proof (induction script arbitrary: w terminal bs ms)
  case (Cons x script)
  obtain m outcome where x: "x = (m, outcome)" by (cases x)
  obtain w1 t1 b1 res where 1: "send ops cr w terminal m outcome = (w1, t1, b1, res)"
    by (cases "send ops cr w terminal m outcome")
  obtain b2 ms2 where 2: "send_many ops cr w1 t1 script = (w', terminal', b2, ms2)"
      and bs: "bs = b1 @ b2" and ms: "ms = (if res = Some (Inr ()) then m # ms2 else ms2)"
    using Cons.prems by (auto simp: x 1 split: prod.splits)
  note c = send_cases [OF 1]
  note IH = Cons.IH [OF 2, unfolded sent_cong [OF c(1)]]
  show ?case
  proof (cases "res = Some (Inr ())")
    case True
    with c(2) IH ms bs x show ?thesis by auto
  next
    case False
    then consider "t1" | "b1 = []" "wr_next_sequence w1 = wr_next_sequence w" using c(3) by blast
    then show ?thesis
    proof cases
      case 1
      then have "ms2 = []" using 2 by (simp add: send_many_poisoned)
      with False ms show ?thesis by simp
    next
      case 2
      with IH ms bs False show ?thesis by auto
    qed
  qed
qed simp

context cbor_laws
begin

lemma enc_array_not_Nil: "enc_array ops n \<noteq> []"
proof
  assume "enc_array ops n = []"
  then have "dec_array ops (enc_array ops (n + 1)) = Inr (Some n, enc_array ops (n + 1))"
    using array_law [of n] by simp
  moreover have "dec_array ops (enc_array ops (n + 1)) = Inr (Some (n + 1), [])"
    using array_law [of "n + 1" "[]"] by simp
  ultimately show False by simp
qed

lemma check_frame_signed:
  assumes "crypto_laws cr" "length (fm_session_id (rd_metadata r)) = 16" "message_ok m"
  shows "check_frame ops cr r (signed_payload ops cr (rd_metadata r) (rd_key r) (rd_next_sequence r) m) =
    Inr \<lparr>w_magic = PROTOCOL_MAGIC, w_version = fm_version (rd_metadata r), w_session_id = fm_session_id (rd_metadata r),
         w_direction = fm_direction (rd_metadata r), w_sequence = rd_next_sequence r, w_message = m,
         w_proof = frame_mac cr (rd_key r)
           (encode_unsigned_frame ops PROTOCOL_MAGIC (rd_metadata r) (rd_next_sequence r) m)\<rparr>"
    (is "check_frame ops cr r ?p = Inr ?f")
proof -
  have meta: "frame_metadata ?f = rd_metadata r" by (simp add: frame_metadata_def)
  have "frame_ok ?f"
    using assms crypto_laws.mac_length [OF assms(1)] by (simp add: frame_ok_def frame_mac_def mac_parts_def)
  then have "decode_signed_frame ops ?p = Inr ?f"
    by (simp add: decode_signed_frame_iff meta signed_payload_def)
  moreover have u: "unsigned_frame ops ?f = encode_unsigned_frame ops PROTOCOL_MAGIC (rd_metadata r) (rd_next_sequence r) m"
    by (simp add: unsigned_frame_def meta)
  have "verify_frame_mac cr (rd_key r) (unsigned_frame ops ?f) (w_proof ?f) = Inr ()"
    unfolding u by (simp add: verify_frame_mac_def verify_mac_parts_def frame_mac_def mac_parts_def
        crypto_laws.verify_law [OF assms(1)])
  ultimately show ?thesis by (simp add: check_frame_def)
qed

lemma receive_sent:
  assumes "crypto_laws cr" "length (fm_session_id (rd_metadata r)) = 16" "\<forall>m \<in> set ms. message_ok m"
    and "wr_metadata w = rd_metadata r" "wr_key w = rd_key r" "wr_limits w = rd_limits r"
    and "sent_fits ops cr w (rd_next_sequence r) ms" "reader_ok r" "plain_stream input"
    and "rd_buffer r @ stream_bytes input = sent_bytes ops cr w (rd_next_sequence r) ms @ tail"
  shows "snd (snd (snd (receive_many ops cr (length ms) r False input))) = ms"
  using assms(2-)
proof (induction ms arbitrary: r input)
  case (Cons m ms)
  let ?p = "signed_payload ops cr (rd_metadata r) (rd_key r) (rd_next_sequence r) m"
  let ?rest = "sent_bytes ops cr w (rd_next_sequence r + 1) ms @ tail"
  have fits: "rd_next_sequence r \<noteq> MAX_SEQUENCE" "length ?p \<le> rd_limits r" "length ?p < 2 ^ 32"
    "sent_fits ops cr w (rd_next_sequence r + 1) ms"
    using Cons.prems by (auto simp: Let_def)
  have p: "0 < length ?p" using enc_array_not_Nil by (simp add: signed_payload_def encode_signed_frame_def)
  have bs: "rd_buffer r @ stream_bytes input = frame_bytes ?p @ ?rest" using Cons.prems by simp
  have m: "message_ok m" using Cons.prems(2) by simp
  note check = check_frame_signed [OF assms(1) Cons.prems(1) m]
  obtain r1 i1 where 1: "receive ops cr r False input = (r1, False, i1, Some (Inr m))" "plain_stream i1"
    using receive_loop_progress [OF Cons.prems(7,8) bs p fits(2,3) check] fits(1) by (auto simp: receive_def)
  have "receive_spec ops cr r input (r1, False, i1, Some (Inr m))"
    using receive_cases [of r False ops cr input] Cons.prems(7) fits(1) 1 by simp
  then have same: "same_reader r r1"
    and "takes_frame ops cr r (rd_buffer r @ stream_bytes input) r1 (rd_buffer r1 @ stream_bytes i1) m"
    by (simp_all add: receive_spec_def)
  then have r1: "rd_next_sequence r1 = rd_next_sequence r + 1" "reader_ok r1" "rd_buffer r1 @ stream_bytes i1 = ?rest"
    using frame_bytes_inj [OF _ _ fits(3)] unfolding bs
    by (auto simp: takes_frame_def reader_ok_def)
  have "snd (snd (snd (receive_many ops cr (length ms) r1 False i1))) = ms"
    by (rule Cons.IH) (use Cons.prems same r1 fits 1 in \<open>simp_all add: same_reader_def\<close>)
  then show ?case by (auto simp: 1 split: prod.splits)
qed simp

end

context cbor_laws
begin

text \<open>What an honest writer emits is genuine.\<close>

lemma sent_bytes_genuine:
  assumes "crypto_laws cr" "length (fm_session_id (wr_metadata w)) = 16" "\<forall>m \<in> set ms. message_ok m"
    and "sent_fits ops cr w (word_of_nat j) ms" "drop j sent = ms" "j \<le> length sent"
  shows "genuine ops cr (wr_metadata w) (wr_key w) sent (sent_bytes ops cr w (word_of_nat j) ms)"
  using assms(3-)
proof (induction ms arbitrary: j)
  case Nil
  have "frames_of [] = []" by (simp add: frames_of.simps)
  then show ?case by (simp add: genuine_def)
next
  case (Cons m ms)
  let ?p = "signed_payload ops cr (wr_metadata w) (wr_key w) (word_of_nat j) m"
  let ?r = "FramedReader_new (wr_metadata w) (wr_limits w) (wr_key w)\<lparr>rd_next_sequence := word_of_nat j\<rparr>"
  have j: "j < length sent" "sent ! j = m" "drop (Suc j) sent = ms"
    using Cons.prems(3) nth_via_drop [of j sent m ms] drop_all [of sent j]
    by (auto simp: not_le [symmetric] drop_Suc tl_drop [symmetric])
  have "frames_of (sent_bytes ops cr w (word_of_nat j) (m # ms)) = ?p # frames_of (sent_bytes ops cr w (word_of_nat (Suc j)) ms)"
    using Cons.prems(2) enc_array_not_Nil
    by (simp add: frames_of_frame Let_def signed_payload_def encode_signed_frame_def add.commute)
  moreover have "unsigned_frame ops f = encode_unsigned_frame ops PROTOCOL_MAGIC (wr_metadata w) (word_of_nat j) (sent ! j)"
    if "decode_signed_frame ops ?p = Inr f" for f
    using check_frame_signed [OF assms(1), of ?r m] Cons.prems(1) assms(2) that j(2)
    by (auto simp: FramedReader_new_def unsigned_frame_def frame_metadata_def dest!: check_frame_Inr(1))
  moreover have "genuine ops cr (wr_metadata w) (wr_key w) sent (sent_bytes ops cr w (word_of_nat (Suc j)) ms)"
    by (rule Cons.IH) (use Cons.prems j in \<open>simp_all add: add.commute\<close>)
  ultimately show ?case using j(1) by (auto simp: genuine_def)
qed

end

subsection \<open>An instance of the cryptography\<close>

text \<open>A stand-in with the lengths of the real functions, for concrete runs.\<close>

definition sample_crypto :: crypto_ops where
  "sample_crypto =
     \<lparr>hmac_sha256 = (\<lambda>key msg. take 32 (rev msg @ key @ replicate 32 0)),
      hmac_verify = (\<lambda>key msg tag. tag = take 32 (rev msg @ key @ replicate 32 0)),
      sha256 = (\<lambda>msg. take 32 (rev msg @ replicate 32 0)),
      hkdf_expand = (\<lambda>salt ikm info. take 32 (info @ salt @ ikm @ replicate 32 0))\<rparr>"

interpretation sample: crypto_laws sample_crypto
  by unfold_locales (auto simp: sample_crypto_def)

text \<open>A concrete session: one response, sent and received.\<close>

definition sample_metadata :: FrameMetadata where
  "sample_metadata = \<lparr>fm_version = 2, fm_session_id = replicate 16 0, fm_direction = GuestToHost\<rparr>"

definition sample_message :: Message where
  "sample_message = MResponse \<lparr>response_request_id = 1, status = StatusOk, response_payload = [7]\<rparr>"

definition sample_stream :: "read_item list" where
  "sample_stream = [Chunk (sent_bytes wire_cbor sample_crypto (FramedWriter_new sample_metadata 200 []) 0 [sample_message])]"

lemma sample_ok: "length (fm_session_id sample_metadata) = 16" "message_ok sample_message" "\<not> is_handshake sample_message"
  by (simp_all add: sample_metadata_def sample_message_def valid_bytes_def)

lemma sample_length: "length (signed_payload wire_cbor sample_crypto sample_metadata [] 0 sample_message) < 200"
  by code_simp

lemma sample_fits: "sent_fits wire_cbor sample_crypto (FramedWriter_new sample_metadata 200 []) 0 [sample_message]"
  using sample_length by (simp add: FramedWriter_new_def Let_def)

lemma sample_plain: "plain_stream sample_stream" "stream_bytes sample_stream =
    sent_bytes wire_cbor sample_crypto (FramedWriter_new sample_metadata 200 []) 0 [sample_message]"
  by (simp_all add: plain_stream_def sample_stream_def stream_bytes_def frame_bytes_def)

lemma sample_genuine: "genuine wire_cbor sample_crypto sample_metadata [] [sample_message] (stream_bytes sample_stream)"
  using wire.sent_bytes_genuine [OF sample.crypto_laws_axioms, of "FramedWriter_new sample_metadata 200 []"
      "[sample_message]" 0 "[sample_message]"] sample_fits sample_ok
  by (simp add: sample_plain FramedWriter_new_def)

subsection \<open>Properties\<close>

text \<open>
  C4: Whatever bytes the stream delivers, in whatever pieces, with failures and cancelled calls in between,
  the messages \<^verbatim>\<open>receive\<close> hands out are a prefix of the messages the peer sent: none is altered, invented,
  repeated, skipped or reordered.  The hypothesis on the stream is that no tag in it verifies except those
  the peer made.
\<close>

theorem received_prefix_of_sent:
  assumes "cbor_laws ops" and "length (fm_session_id meta) = 16"
    and "\<forall>m \<in> set sent. message_ok m" and "length sent < 2 ^ 64"
    and "genuine ops cr meta key sent (stream_bytes input)"
    and "receive_many ops cr n (FramedReader_new meta limits key) False input = (r, terminal, rest, received)"
  shows "received = take (length received) sent"
  using cbor_laws.received_from [OF assms(1), of "FramedReader_new meta limits key" cr sent input 0 n False r terminal rest received] assms
  by (simp add: FramedReader_new_def reader_ok_def)

theorem received_prefix_of_sent_witness:
  "snd (snd (snd (receive_many wire_cbor sample_crypto 5 (FramedReader_new sample_metadata 200 []) False sample_stream)))
   = take (length (snd (snd (snd (receive_many wire_cbor sample_crypto 5 (FramedReader_new sample_metadata 200 []) False
       sample_stream))))) [sample_message]"
proof -
  obtain r t i ms where run: "receive_many wire_cbor sample_crypto 5 (FramedReader_new sample_metadata 200 []) False
      sample_stream = (r, t, i, ms)"
    by (metis prod.exhaust)
  from received_prefix_of_sent [OF wire.cbor_laws_axioms sample_ok(1) _ _ sample_genuine run] sample_ok(2)
  show ?thesis by (simp add: run)
qed

lemma sent_delivered:
  assumes "cbor_laws ops" and "crypto_laws cr" and "length (fm_session_id meta) = 16"
    and "\<forall>(m, outcome) \<in> set script. message_ok m"
    and "send_many ops cr (FramedWriter_new meta limits key) False script = (w, terminal, emitted, sent)"
    and "plain_stream input" and "stream_bytes input = emitted"
  shows "snd (snd (snd (receive_many ops cr (length sent) (FramedReader_new meta limits key) False input))) = sent"
proof -
  from send_many_emits [OF assms(5)] obtain tail where
    fits: "sent_fits ops cr (FramedWriter_new meta limits key) 0 sent"
    and bs: "emitted = sent_bytes ops cr (FramedWriter_new meta limits key) 0 sent @ tail"
    and ms: "set sent \<subseteq> fst ` set script"
    by (auto simp: FramedWriter_new_def)
  have "\<forall>m \<in> set sent. message_ok m" using ms assms(4) by fastforce
  then show ?thesis
    using fits bs assms
    by (intro cbor_laws.receive_sent [OF assms(1,2), where tail = tail and w = "FramedWriter_new meta limits key"])
       (simp_all add: FramedReader_new_def FramedWriter_new_def reader_ok_def)
qed

text \<open>
  C13: Every message that \<^verbatim>\<open>send\<close> reported as sent is received at the other end, unchanged and in order, when
  the bytes that left the process arrive, however they are cut into pieces, whatever else the writer tried
  (oversized messages, handshake messages, failed or abandoned writes).
\<close>

theorem sent_messages_delivered:
  assumes "cbor_laws ops" and "crypto_laws cr" and "length (fm_session_id meta) = 16"
    and "\<forall>(m, outcome) \<in> set script. message_ok m"
    and "send_many ops cr (FramedWriter_new meta limits key) False script = (w, terminal, emitted, sent)"
    and "plain_stream input" and "stream_bytes input = emitted"
  shows "snd (snd (snd (receive_many ops cr (length sent) (FramedReader_new meta limits key) False input))) = sent"
  by (rule sent_delivered [OF assms])

theorem sent_messages_delivered_witness:
  "snd (snd (snd (receive_many wire_cbor sample_crypto (length [sample_message])
     (FramedReader_new sample_metadata 200 []) False sample_stream))) = [sample_message]"
  by (rule sent_messages_delivered [OF wire.cbor_laws_axioms sample.crypto_laws_axioms sample_ok(1) _ _
        sample_plain(1) sample_plain(2), where script = "[(sample_message, Written)]"])
     (use sample_ok sample_length in \<open>simp_all add: send_def FramedWriter_new_def\<close>)

text \<open>
  C30: Any failure of \<^verbatim>\<open>receive\<close> other than a clean end of stream ends the connection for good: whatever arrives
  afterwards and whatever is sent, neither half moves a byte, changes state or hands out a message.
\<close>

theorem receive_failure_terminal:
  assumes "reader_ok r" and "receive ops cr r terminal input = (r', terminal', input', Some (Inl e))"
    and "e \<noteq> EndOfStream"
  shows "receive_many ops cr n r' terminal' later = (r', True, later, [])
    \<and> send_many ops cr w terminal' script = (w, True, [], [])"
proof -
  have "terminal'"
  proof (cases "terminal \<or> rd_next_sequence r = MAX_SEQUENCE")
    case True
    with assms(2) show ?thesis by (auto simp: receive_def split: if_splits)
  next
    case False
    with receive_cases [of r terminal ops cr input] assms show ?thesis by (auto simp: receive_spec_def)
  qed
  then show ?thesis by (simp add: receive_many_poisoned send_many_poisoned)
qed

theorem receive_failure_terminal_witness:
  "receive_many wire_cbor sample_crypto 3 (FramedReader_new sample_metadata 200 []\<lparr>rd_buffer := [0, 0, 0, 0]\<rparr>) True
     sample_stream = (FramedReader_new sample_metadata 200 []\<lparr>rd_buffer := [0, 0, 0, 0]\<rparr>, True, sample_stream, [])
   \<and> send_many wire_cbor sample_crypto (FramedWriter_new sample_metadata 200 []) True [(sample_message, Written)]
     = (FramedWriter_new sample_metadata 200 [], True, [], [])"
  by (rule receive_failure_terminal [of "FramedReader_new sample_metadata 200 []" wire_cbor sample_crypto False
        "[Chunk [0, 0], Chunk [0, 0]]" _ _ "[]" EmptyFrame])
     (simp_all add: FramedReader_new_def reader_ok_def receive_def receive_loop.simps declare_length_def
       frame_complete_def read_target_def READ_CHUNK_def from_be_def Let_def)

end
