(* ===== verification/Protocol_Handshake.thy ===== *)
theory Protocol_Handshake
  imports Protocol_Frame
begin

section \<open>The handshake (crates/sendbox-protocol/src/handshake.rs, bounded messages of frame.rs)\<close>

text \<open>
  Both sides of the handshake as state-passing programs over an \<open>io_state\<close>: what the reads will see, what
  has been written, and the outcomes of the writes to come.  An operation returns no result when its future
  is dropped at an \<^verbatim>\<open>await\<close>.  The random nonce is an argument, as the operating system supplies it.
\<close>

record io_state =
  io_input :: "read_item list"
  io_output :: bytes
  io_writes :: "write_outcome list"

type_synonym 'a io = "io_state \<Rightarrow> (ProtocolError + 'a) option \<times> io_state"

definition io_result :: "ProtocolError + 'a \<Rightarrow> 'a io" where
  "io_result x s = (Some x, s)"

definition io_bind :: "'a io \<Rightarrow> ('a \<Rightarrow> 'b io) \<Rightarrow> 'b io" where
  "io_bind m f s = (case m s of
     (Some (Inr v), s') \<Rightarrow> f v s' | (Some (Inl e), s') \<Rightarrow> (Some (Inl e), s') | (None, s') \<Rightarrow> (None, s'))"

lemma io_bind_result [simp]: "io_bind (io_result (Inr v)) f = f v" "io_bind (io_result (Inl e)) f = io_result (Inl e)"
  by (simp_all add: fun_eq_iff io_bind_def io_result_def)

subsection \<open>Bounded messages\<close>

definition write_bounded_message :: "cbor_ops \<Rightarrow> Message \<Rightarrow> nat \<Rightarrow> unit io" where
  "write_bounded_message ops message limits s =
     (let payload = encode_message ops message
      in if length payload > limits \<or> length payload \<ge> 2 ^ 32
         then (Some (Inl (FrameTooLarge (length payload) limits)), s)
         else
           (let frame = frame_bytes payload; s1 = s\<lparr>io_writes := tl (io_writes s)\<rparr>
            in case (case io_writes s of [] \<Rightarrow> Written | w # _ \<Rightarrow> w) of
                 Written \<Rightarrow> (Some (Inr ()), s1\<lparr>io_output := io_output s @ frame\<rparr>)
               | WriteError k e \<Rightarrow> (Some (Inl (Io e)), s1\<lparr>io_output := io_output s @ take k frame\<rparr>)
               | FlushError e \<Rightarrow> (Some (Inl (Io e)), s1\<lparr>io_output := io_output s @ frame\<rparr>)
               | WriteDropped k \<Rightarrow> (None, s1\<lparr>io_output := io_output s @ take k frame\<rparr>)))"

text \<open>The loop of \<^verbatim>\<open>read_counted\<close>: up to \<open>n\<close> further bytes after \<open>got\<close>.\<close>

function read_more :: "nat \<Rightarrow> bytes \<Rightarrow> read_item list \<Rightarrow> (ProtocolError + bytes) option \<times> read_item list" where
  "read_more n got input =
     (if n = 0 then (Some (Inr got), input)
      else case stream_read n input of
          (ReadFailed e, rest) \<Rightarrow> (Some (Inl (Io e)), rest)
        | (ReadGivenUp, rest) \<Rightarrow> (None, rest)
        | (ReadBytes bs, rest) \<Rightarrow>
            if bs = [] then (Some (Inr got), rest) else read_more (n - length bs) (got @ bs) rest)"
  by pat_completeness auto
termination
proof (relation "measure (\<lambda>(n, _, _). n)", goal_cases)
  case (2 n got input p rest bs)
  then show ?case by (cases bs) auto
qed simp

declare read_more.simps [simp del]

definition read_counted :: "nat \<Rightarrow> bytes io" where
  "read_counted n s = (case read_more n [] (io_input s) of (r, rest) \<Rightarrow> (r, s\<lparr>io_input := rest\<rparr>))"

definition read_bounded_message :: "cbor_ops \<Rightarrow> nat \<Rightarrow> (Message \<times> bytes) io" where
  "read_bounded_message ops limits =
     io_bind (read_counted 4) (\<lambda>prefix.
       if prefix = [] then io_result (Inl EndOfStream)
       else if length prefix \<noteq> 4 then io_result (Inl (IncompleteFrame 4 (length prefix)))
       else
         (let declared = from_be prefix
          in if declared = 0 then io_result (Inl EmptyFrame)
             else if declared > limits then io_result (Inl (FrameTooLarge declared limits))
             else io_bind (read_counted declared) (\<lambda>payload.
               if length payload \<noteq> declared
               then io_result (Inl (IncompleteFrame (declared + 4) (length payload + 4)))
               else case decode_message ops payload of
                      Inl e \<Rightarrow> io_result (Inl e)
                    | Inr m \<Rightarrow> io_result (Inr (m, payload)))))"

subsection \<open>Configuration\<close>

definition BootstrapSecret_new :: "bytes \<Rightarrow> ProtocolError + bytes" where
  "BootstrapSecret_new secret = (if length secret < 32 then Inl BootstrapSecretTooShort else Inr secret)"

record HandshakeConfig =
  c_session_id :: SessionId
  c_versions :: VersionRange
  c_capabilities :: CapabilitySet
  c_required_capabilities :: CapabilitySet
  c_limits :: nat
  c_bootstrap_secret :: bytes
  c_boundary_plan_digest :: bytes

definition HandshakeConfig_new :: "HandshakeConfig \<Rightarrow> ProtocolError + HandshakeConfig" where
  "HandshakeConfig_new c =
     (if \<not> versions_valid (c_versions c) \<or> minimum (c_versions c) < PROTOCOL_VERSION
      then Inl (UnsupportedVersion (minimum (c_versions c)) (maximum (c_versions c)))
      else if \<not> c_required_capabilities c \<subseteq> c_capabilities c then Inl MissingRequiredCapabilities
      else Inr c)"

record Established =
  e_version :: u16
  e_session_id :: SessionId
  e_capabilities :: CapabilitySet
  e_limits :: nat
  e_keys :: SessionKeys

subsection \<open>Validation\<close>

definition validate_hello :: "HandshakeConfig \<Rightarrow> Hello \<Rightarrow> ProtocolError + unit" where
  "validate_hello config hello =
     (if h_magic hello \<noteq> PROTOCOL_MAGIC then Inl InvalidMagic
      else if h_role hello \<noteq> HostClient then Inl (RoleMismatch HostClient (h_role hello))
      else if h_session_id hello \<noteq> c_session_id config
      then Inl (SessionMismatch (c_session_id config) (h_session_id hello))
      else if \<not> versions_valid (h_versions hello)
      then Inl (UnsupportedVersion (minimum (h_versions hello)) (maximum (h_versions hello)))
      else case FrameLimits_new (unat (h_max_frame_bytes hello)) of
             Inl e \<Rightarrow> Inl e
           | Inr _ \<Rightarrow>
               if \<not> h_required_capabilities hello \<subseteq> h_capabilities hello then Inl MissingRequiredCapabilities
               else Inr ())"

definition validate_capabilities :: "CapabilitySet \<Rightarrow> CapabilitySet \<Rightarrow> CapabilitySet \<Rightarrow> ProtocolError + unit" where
  "validate_capabilities negotiated host_required guest_required =
     (if negotiated = {} then Inl EmptyCapabilityIntersection
      else if \<not> host_required \<subseteq> negotiated \<or> \<not> guest_required \<subseteq> negotiated then Inl MissingRequiredCapabilities
      else Inr ())"

text \<open>\<^verbatim>\<open>u32::try_from\<close> of a frame limit.\<close>

definition limit_u32 :: "nat \<Rightarrow> ProtocolError + u32" where
  "limit_u32 n = (if n < 2 ^ 32 then Inr (word_of_nat n) else Inl InvalidNegotiatedFrameLimit)"

definition validate_limit :: "HandshakeConfig \<Rightarrow> Hello \<Rightarrow> Negotiation \<Rightarrow> ProtocolError + unit" where
  "validate_limit config hello n =
     (case limit_u32 (c_limits config) of
        Inl e \<Rightarrow> Inl e
      | Inr own \<Rightarrow>
          if n_max_frame_bytes n \<noteq> min (h_max_frame_bytes hello) own then Inl InvalidNegotiatedFrameLimit
          else map_sum id (\<lambda>_. ()) (FrameLimits_new (unat (n_max_frame_bytes n))))"

definition validate_negotiation :: "HandshakeConfig \<Rightarrow> Hello \<Rightarrow> Negotiation \<Rightarrow> ProtocolError + unit" where
  "validate_negotiation config hello n =
     (if n_magic n \<noteq> PROTOCOL_MAGIC then Inl InvalidMagic
      else if n_role n \<noteq> GuestServer then Inl (RoleMismatch GuestServer (n_role n))
      else if n_session_id n \<noteq> c_session_id config
      then Inl (SessionMismatch (c_session_id config) (n_session_id n))
      else if n_client_nonce n \<noteq> h_nonce hello then Inl AuthenticationFailed
      else if \<not> versions_valid (n_versions n)
      then Inl (UnsupportedVersion (minimum (n_versions n)) (maximum (n_versions n)))
      else case negotiate (h_versions hello) (n_versions n) of
          None \<Rightarrow> Inl (UnsupportedVersion (minimum (h_versions hello)) (maximum (h_versions hello)))
        | Some expected \<Rightarrow>
            if n_selected_version n \<noteq> expected then Inl (VersionMismatch (n_selected_version n))
            else if n_negotiated_capabilities n \<noteq> h_capabilities hello \<inter> n_capabilities n then Inl AuthenticationFailed
            else case validate_capabilities (n_negotiated_capabilities n) (h_required_capabilities hello)
                        (n_required_capabilities n) of
                   Inl e \<Rightarrow> Inl e
                 | Inr _ \<Rightarrow> validate_limit config hello n)"

definition readiness :: "cbor_ops \<Rightarrow> crypto_ops \<Rightarrow> PeerRole \<Rightarrow> Negotiation \<Rightarrow> SessionKeys \<Rightarrow> bytes \<Rightarrow> Readiness" where
  "readiness ops cr role n keys hash =
     (let r = \<lparr>r_role = role, r_session_id = n_session_id n, r_selected_version = n_selected_version n,
               r_negotiated_capabilities = n_negotiated_capabilities n, r_max_frame_bytes = n_max_frame_bytes n,
               r_proof = replicate MAC_BYTES 0\<rparr>
      in r\<lparr>r_proof := readiness_proof cr keys (role = HostClient) hash (encode_readiness_core ops r)\<rparr>)"

definition validate_readiness ::
  "cbor_ops \<Rightarrow> crypto_ops \<Rightarrow> PeerRole \<Rightarrow> Negotiation \<Rightarrow> Readiness \<Rightarrow> SessionKeys \<Rightarrow> bytes \<Rightarrow> ProtocolError + unit" where
  "validate_readiness ops cr expected_role n r keys hash =
     (if r_role r \<noteq> expected_role then Inl (RoleMismatch expected_role (r_role r))
      else if r_session_id r \<noteq> n_session_id n then Inl (SessionMismatch (n_session_id n) (r_session_id r))
      else if r_selected_version r \<noteq> n_selected_version n then Inl (VersionMismatch (r_selected_version r))
      else if r_negotiated_capabilities r \<noteq> n_negotiated_capabilities n \<or> r_max_frame_bytes r \<noteq> n_max_frame_bytes n
      then Inl AuthenticationFailed
      else verify_readiness_proof cr keys (expected_role = HostClient) hash (encode_readiness_core ops r) (r_proof r))"

subsection \<open>The host\<close>

definition unexpected :: "string \<Rightarrow> Message \<Rightarrow> ProtocolError" where
  "unexpected expected m = UnexpectedHandshakeMessage (str expected) (kind_u8 (message_kind m))"

definition established :: "Negotiation \<Rightarrow> SessionKeys \<Rightarrow> ProtocolError + Established" where
  "established n keys =
     (case FrameLimits_new (unat (n_max_frame_bytes n)) of
        Inl e \<Rightarrow> Inl e
      | Inr limits \<Rightarrow> Inr \<lparr>e_version = n_selected_version n, e_session_id = n_session_id n,
                          e_capabilities = n_negotiated_capabilities n, e_limits = limits, e_keys = keys\<rparr>)"

definition expect_negotiation :: "Message \<times> bytes \<Rightarrow> Negotiation io" where
  "expect_negotiation m = (case fst m of
     MCapabilityNegotiation n \<Rightarrow> io_result (Inr n) | _ \<Rightarrow> io_result (Inl (unexpected ''capability_negotiation'' (fst m))))"

definition expect_readiness :: "Message \<times> bytes \<Rightarrow> Readiness io" where
  "expect_readiness m = (case fst m of
     MReadiness r \<Rightarrow> io_result (Inr r) | _ \<Rightarrow> io_result (Inl (unexpected ''readiness'' (fst m))))"

definition expect_hello :: "Message \<times> bytes \<Rightarrow> Hello io" where
  "expect_hello m = (case fst m of
     MHello h \<Rightarrow> io_result (Inr h) | _ \<Rightarrow> io_result (Inl (unexpected ''hello'' (fst m))))"

definition host_hello :: "HandshakeConfig \<Rightarrow> bytes \<Rightarrow> ProtocolError + Hello" where
  "host_hello config nonce =
     (case limit_u32 (c_limits config) of
        Inl e \<Rightarrow> Inl e
      | Inr limit \<Rightarrow>
          Inr \<lparr>h_magic = PROTOCOL_MAGIC, h_versions = c_versions config, h_session_id = c_session_id config,
               h_role = HostClient, h_nonce = nonce, h_capabilities = c_capabilities config,
               h_required_capabilities = c_required_capabilities config, h_max_frame_bytes = limit\<rparr>)"

definition host_establish_inner ::
  "cbor_ops \<Rightarrow> crypto_ops \<Rightarrow> HandshakeConfig \<Rightarrow> rstr + bytes \<Rightarrow> Established io" where
  "host_establish_inner ops cr config random =
     io_bind (io_result (map_sum Randomness id random)) (\<lambda>client_nonce.
     io_bind (io_result (host_hello config client_nonce)) (\<lambda>hello.
     let hello_bytes = encode_message ops (MHello hello)
     in io_bind (write_bounded_message ops (MHello hello) (c_limits config)) (\<lambda>_.
     io_bind (io_bind (read_bounded_message ops (c_limits config)) expect_negotiation) (\<lambda>n.
     io_bind (io_result (validate_negotiation config hello n)) (\<lambda>_.
     let core = encode_negotiation_core ops n
     in io_bind (io_result (SessionKeys_derive cr (c_bootstrap_secret config) (n_selected_version n)
                  (c_boundary_plan_digest config) hello_bytes core)) (\<lambda>(keys, hash).
     io_bind (io_result (verify_negotiation_proof cr keys hello_bytes core (n_proof n))) (\<lambda>_.
     io_bind (write_bounded_message ops (MReadiness (readiness ops cr HostClient n keys hash)) (c_limits config)) (\<lambda>_.
     io_bind (io_bind (read_bounded_message ops (c_limits config)) expect_readiness) (\<lambda>r.
     io_bind (io_result (validate_readiness ops cr GuestServer n r keys hash)) (\<lambda>_.
     io_result (established n keys)))))))))))"

subsection \<open>The guest\<close>

text \<open>The answer to a hello, without its proof.\<close>

definition guest_negotiation :: "HandshakeConfig \<Rightarrow> Hello \<Rightarrow> u16 \<Rightarrow> u32 \<Rightarrow> bytes \<Rightarrow> Negotiation" where
  "guest_negotiation config hello selected limit server_nonce =
     \<lparr>n_magic = PROTOCOL_MAGIC, n_versions = c_versions config, n_selected_version = selected,
      n_session_id = c_session_id config, n_role = GuestServer, n_client_nonce = h_nonce hello,
      n_server_nonce = server_nonce, n_capabilities = c_capabilities config,
      n_required_capabilities = c_required_capabilities config,
      n_negotiated_capabilities = h_capabilities hello \<inter> c_capabilities config,
      n_max_frame_bytes = limit, n_proof = replicate MAC_BYTES 0\<rparr>"

definition select_version :: "HandshakeConfig \<Rightarrow> Hello \<Rightarrow> ProtocolError + u16" where
  "select_version config hello =
     (case negotiate (h_versions hello) (c_versions config) of
        None \<Rightarrow> Inl (UnsupportedVersion (minimum (h_versions hello)) (maximum (h_versions hello)))
      | Some v \<Rightarrow> Inr v)"

definition select_limit :: "HandshakeConfig \<Rightarrow> Hello \<Rightarrow> ProtocolError + u32" where
  "select_limit config hello = map_sum id (\<lambda>own. min (h_max_frame_bytes hello) own) (limit_u32 (c_limits config))"

definition guest_establish_inner ::
  "cbor_ops \<Rightarrow> crypto_ops \<Rightarrow> HandshakeConfig \<Rightarrow> rstr + bytes \<Rightarrow> Established io" where
  "guest_establish_inner ops cr config random =
     io_bind (read_bounded_message ops (c_limits config)) (\<lambda>m.
     io_bind (expect_hello m) (\<lambda>hello.
     io_bind (io_result (validate_hello config hello)) (\<lambda>_.
     io_bind (io_result (select_version config hello)) (\<lambda>selected.
     io_bind (io_result (validate_capabilities (h_capabilities hello \<inter> c_capabilities config)
                (h_required_capabilities hello) (c_required_capabilities config))) (\<lambda>_.
     io_bind (io_result (select_limit config hello)) (\<lambda>limit.
     io_bind (io_result (map_sum Randomness id random)) (\<lambda>server_nonce.
     let n0 = guest_negotiation config hello selected limit server_nonce;
         hello_bytes = snd m;
         core = encode_negotiation_core ops n0
     in io_bind (io_result (SessionKeys_derive cr (c_bootstrap_secret config) selected
                  (c_boundary_plan_digest config) hello_bytes core)) (\<lambda>(keys, hash).
     let n = n0\<lparr>n_proof := negotiation_proof cr keys hello_bytes core\<rparr>
     in io_bind (write_bounded_message ops (MCapabilityNegotiation n) (c_limits config)) (\<lambda>_.
     io_bind (io_bind (read_bounded_message ops (c_limits config)) expect_readiness) (\<lambda>r.
     io_bind (io_result (validate_readiness ops cr HostClient n r keys hash)) (\<lambda>_.
     io_bind (write_bounded_message ops (MReadiness (readiness ops cr GuestServer n keys hash)) (c_limits config)) (\<lambda>_.
     io_result (established n keys)))))))))))))"

subsection \<open>The state machine of a handshake\<close>

datatype HandshakeState = Initial | InProgress | EstablishedState | FailedState

fun state_name :: "HandshakeState \<Rightarrow> rstr" where
  "state_name Initial = str ''initial''"
| "state_name InProgress = str ''in_progress''"
| "state_name EstablishedState = str ''established''"
| "state_name FailedState = str ''failed''"

record NegotiatedSession =
  ns_version :: u16
  ns_session_id :: SessionId
  ns_capabilities :: CapabilitySet
  ns_limits :: nat

record AuthenticatedConnection =
  ac_negotiated :: NegotiatedSession
  ac_reader :: FramedReader
  ac_writer :: FramedWriter

fun opposite :: "MessageDirection \<Rightarrow> MessageDirection" where
  "opposite HostToGuest = GuestToHost"
| "opposite GuestToHost = HostToGuest"

definition AuthenticatedConnection_new ::
  "NegotiatedSession \<Rightarrow> MessageDirection \<Rightarrow> bytes \<Rightarrow> bytes \<Rightarrow> AuthenticatedConnection" where
  "AuthenticatedConnection_new ns local send_key receive_key =
     \<lparr>ac_negotiated = ns,
      ac_reader = FramedReader_new \<lparr>fm_version = ns_version ns, fm_session_id = ns_session_id ns,
                                    fm_direction = opposite local\<rparr> (ns_limits ns) receive_key,
      ac_writer = FramedWriter_new \<lparr>fm_version = ns_version ns, fm_session_id = ns_session_id ns,
                                    fm_direction = local\<rparr> (ns_limits ns) send_key\<rparr>"

definition connection_from_established :: "PeerRole \<Rightarrow> Established \<Rightarrow> AuthenticatedConnection" where
  "connection_from_established role e =
     (let host_to_guest = key_host_to_guest (e_keys e); guest_to_host = key_guest_to_host (e_keys e);
          (send_key, receive_key) = (case role of HostClient \<Rightarrow> (host_to_guest, guest_to_host)
                                      | GuestServer \<Rightarrow> (guest_to_host, host_to_guest))
      in AuthenticatedConnection_new
           \<lparr>ns_version = e_version e, ns_session_id = e_session_id e, ns_capabilities = e_capabilities e,
            ns_limits = e_limits e\<rparr> (role_direction role) send_key receive_key)"

definition handshake_establish ::
  "PeerRole \<Rightarrow> Established io \<Rightarrow> HandshakeState
     \<Rightarrow> io_state \<Rightarrow> HandshakeState \<times> (ProtocolError + AuthenticatedConnection) option \<times> io_state" where
  "handshake_establish role inner state s =
     (if state \<noteq> Initial then (state, Some (Inl (RepeatedHandshake (state_name state))), s)
      else case inner s of
          (Some (Inr e), s') \<Rightarrow> (EstablishedState, Some (Inr (connection_from_established role e)), s')
        | (Some (Inl e), s') \<Rightarrow> (FailedState, Some (Inl e), s')
        | (None, s') \<Rightarrow> (InProgress, None, s'))"

definition host_establish where
  "host_establish ops cr config random = handshake_establish HostClient (host_establish_inner ops cr config random)"

definition guest_establish where
  "guest_establish ops cr config random = handshake_establish GuestServer (guest_establish_inner ops cr config random)"

subsection \<open>What a successful call has done\<close>

lemma io_bind_Inr:
  "io_bind m f s = (Some (Inr v), s') \<longleftrightarrow> (\<exists>u s1. m s = (Some (Inr u), s1) \<and> f u s1 = (Some (Inr v), s'))"
  by (auto simp: io_bind_def split: prod.splits option.splits sum.splits)

lemma io_result_Inr: "io_result x s = (Some (Inr v), s') \<longleftrightarrow> x = Inr v \<and> s' = s"
  by (auto simp: io_result_def)

lemmas io_Inr = io_bind_Inr io_result_Inr

lemma read_more_Inr:
  "read_more n got input = (Some (Inr out), rest) \<Longrightarrow> \<exists>bs. out = got @ bs \<and> stream_bytes input = bs @ stream_bytes rest"
proof (induction n got input rule: read_more.induct)
  case (1 n got input)
  show ?case
  proof (cases "n = 0")
    case False
    then obtain bs tail where r: "stream_read n input = (ReadBytes bs, tail)"
      using "1.prems" by (subst (asm) read_more.simps) (auto split: prod.splits read_result.splits)
    note b = stream_read_bytes [OF r]
    show ?thesis
    proof (cases "bs = []")
      case True
      with "1.prems" False r b show ?thesis by (subst (asm) read_more.simps) auto
    next
      case ne: False
      then have "read_more (n - length bs) (got @ bs) tail = (Some (Inr out), rest)"
        using "1.prems" False r by (subst (asm) read_more.simps) simp
      from "1.IH" [OF False r [symmetric] refl ne this] b show ?thesis by auto
    qed
  qed (use "1.prems" in \<open>simp add: read_more.simps\<close>)
qed

lemma read_counted_Inr:
  assumes "read_counted n s = (Some (Inr bs), s')"
  shows "stream_bytes (io_input s) = bs @ stream_bytes (io_input s')" "io_output s' = io_output s"
    "io_writes s' = io_writes s"
  using assms read_more_Inr [of n "[]" "io_input s" bs] by (auto simp: read_counted_def split: prod.splits)

lemma write_bounded_Inr:
  assumes "write_bounded_message ops m limits s = (Some (Inr u), s')"
  shows "io_output s' = io_output s @ frame_bytes (encode_message ops m)" "io_input s' = io_input s"
  using assms
  by (auto simp: write_bounded_message_def Let_def split: if_splits list.splits write_outcome.splits)

context cbor_laws
begin

lemma read_bounded_Inr:
  assumes "read_bounded_message ops limits s = (Some (Inr (m, payload)), s')"
  shows "message_ok m \<and> payload = encode_message ops m \<and> io_output s' = io_output s
    \<and> stream_bytes (io_input s) = frame_bytes payload @ stream_bytes (io_input s')"
proof -
  obtain prefix s1 where p: "read_counted 4 s = (Some (Inr prefix), s1)" "length prefix = 4"
    and q: "read_counted (from_be prefix) s1 = (Some (Inr payload), s')" "length payload = from_be prefix"
    and d: "decode_message ops payload = Inr m"
    using assms unfolding read_bounded_message_def
    by (auto simp: io_Inr Let_def split: if_splits sum.splits) (metis sum.exhaust)
  have "to_be 4 (length payload) = prefix" using p(2) q(2) by (simp add: to_be_from_be del: to_be.simps)
  then have "frame_bytes payload = prefix @ payload" by (simp add: frame_bytes_def del: to_be.simps)
  with read_counted_Inr [OF p(1)] read_counted_Inr [OF q(1)] d show ?thesis by (simp add: decode_message_iff)
qed

end

lemma expect_Inr:
  "expect_negotiation m s = (Some (Inr n), s') \<longleftrightarrow> fst m = MCapabilityNegotiation n \<and> s' = s"
  "expect_readiness m s = (Some (Inr r), s') \<longleftrightarrow> fst m = MReadiness r \<and> s' = s"
  "expect_hello m s = (Some (Inr h), s') \<longleftrightarrow> fst m = MHello h \<and> s' = s"
  by (auto simp: expect_negotiation_def expect_readiness_def expect_hello_def io_result_Inr split: Message.splits)

lemma verify_mac_Inr:
  "crypto_laws cr \<Longrightarrow> verify_mac_parts cr key parts tag = Inr () \<longleftrightarrow> tag = mac_parts cr key parts"
  by (simp add: verify_mac_parts_def mac_parts_def crypto_laws.verify_law)

lemma FrameLimits_new_Inr: "FrameLimits_new n = Inr k \<longleftrightarrow> k = n \<and> 0 < n \<and> n \<le> HARD_MAX_FRAME_BYTES"
  by (auto simp: FrameLimits_new_def)

lemma validate_capabilities_Inr:
  "validate_capabilities n h g = Inr () \<longleftrightarrow> n \<noteq> {} \<and> h \<subseteq> n \<and> g \<subseteq> n"
  by (auto simp: validate_capabilities_def)

lemma limit_u32_Inr: "limit_u32 n = Inr w \<longleftrightarrow> n < 2 ^ 32 \<and> w = word_of_nat n"
  by (auto simp: limit_u32_def)

lemma established_Inr:
  "established n keys = Inr e \<longleftrightarrow>
     0 < unat (n_max_frame_bytes n) \<and> unat (n_max_frame_bytes n) \<le> HARD_MAX_FRAME_BYTES
     \<and> e = \<lparr>e_version = n_selected_version n, e_session_id = n_session_id n,
            e_capabilities = n_negotiated_capabilities n, e_limits = unat (n_max_frame_bytes n), e_keys = keys\<rparr>"
  by (auto simp: established_def FrameLimits_new_def)

lemma validate_negotiation_Inr:
  assumes "validate_negotiation config hello n = Inr ()"
  shows "n_magic n = PROTOCOL_MAGIC" "n_role n = GuestServer" "n_session_id n = c_session_id config"
    "n_client_nonce n = h_nonce hello" "versions_valid (n_versions n)"
    "negotiate (h_versions hello) (n_versions n) = Some (n_selected_version n)"
    "n_negotiated_capabilities n = h_capabilities hello \<inter> n_capabilities n"
    "validate_capabilities (n_negotiated_capabilities n) (h_required_capabilities hello) (n_required_capabilities n) = Inr ()"
    "limit_u32 (c_limits config) = Inr w \<Longrightarrow> n_max_frame_bytes n = min (h_max_frame_bytes hello) w"
  using assms
  by (simp_all add: validate_negotiation_def validate_limit_def split: if_splits option.splits sum.splits)

lemma validate_readiness_Inr:
  assumes "crypto_laws cr" "validate_readiness ops cr role n r keys hash = Inr ()"
  shows "r_role r = role" "r_session_id r = n_session_id n" "r_selected_version r = n_selected_version n"
    "r_negotiated_capabilities r = n_negotiated_capabilities n" "r_max_frame_bytes r = n_max_frame_bytes n"
    "r_proof r = readiness_proof cr keys (role = HostClient) hash (encode_readiness_core ops r)"
  using assms(2)
  by (simp_all add: validate_readiness_def verify_readiness_proof_def readiness_proof_def
      verify_mac_Inr [OF assms(1)] split: if_splits)

lemma select_Inr:
  assumes "select_version config hello = Inr v" "select_limit config hello = Inr limit"
  shows "negotiate (h_versions hello) (c_versions config) = Some v"
    "unat limit = min (unat (h_max_frame_bytes hello)) (c_limits config)"
proof -
  show "negotiate (h_versions hello) (c_versions config) = Some v"
    using assms(1) by (simp add: select_version_def split: option.splits)
  have c: "c_limits config < 2 ^ 32" and l: "limit = min (h_max_frame_bytes hello) (word_of_nat (c_limits config))"
    using assms(2) by (auto simp: select_limit_def limit_u32_def split: if_splits)
  from c have "unat (word_of_nat (c_limits config) :: u32) = c_limits config"
    by (simp add: unat_of_nat take_bit_nat_def)
  then show "unat limit = min (unat (h_max_frame_bytes hello)) (c_limits config)"
    by (simp add: l min_def word_le_nat_alt)
qed

lemma validate_hello_Inr:
  assumes "validate_hello config hello = Inr ()"
  shows "h_role hello = HostClient" "h_session_id hello = c_session_id config"
  using assms by (auto simp: validate_hello_def split: if_splits)

text \<open>What a negotiation must satisfy for a host to go on with it.\<close>

definition host_accepts :: "cbor_ops \<Rightarrow> crypto_ops \<Rightarrow> HandshakeConfig \<Rightarrow> Hello \<Rightarrow> Negotiation \<Rightarrow> SessionKeys \<Rightarrow> bytes \<Rightarrow> bool" where
  "host_accepts ops cr config hello n keys hash \<longleftrightarrow>
     n_role n = GuestServer \<and> n_session_id n = c_session_id config \<and> n_client_nonce n = h_nonce hello
     \<and> negotiate (c_versions config) (n_versions n) = Some (n_selected_version n)
     \<and> n_negotiated_capabilities n = c_capabilities config \<inter> n_capabilities n
     \<and> c_required_capabilities config \<union> n_required_capabilities n \<subseteq> n_negotiated_capabilities n
     \<and> unat (n_max_frame_bytes n) = c_limits config
     \<and> SessionKeys_derive cr (c_bootstrap_secret config) (n_selected_version n) (c_boundary_plan_digest config)
         (encode_message ops (MHello hello)) (encode_negotiation_core ops n) = Inr (keys, hash)
     \<and> n_proof n = negotiation_proof cr keys (encode_message ops (MHello hello)) (encode_negotiation_core ops n)"

text \<open>The answer a guest gives to a hello it accepts.\<close>

definition guest_answers :: "cbor_ops \<Rightarrow> crypto_ops \<Rightarrow> HandshakeConfig \<Rightarrow> bytes \<Rightarrow> Hello \<Rightarrow> Negotiation \<Rightarrow> SessionKeys \<Rightarrow> bytes \<Rightarrow> bool" where
  "guest_answers ops cr config nonce hello n keys hash \<longleftrightarrow>
     h_role hello = HostClient \<and> h_session_id hello = c_session_id config
     \<and> negotiate (h_versions hello) (c_versions config) = Some (n_selected_version n)
     \<and> n_negotiated_capabilities n = h_capabilities hello \<inter> c_capabilities config
     \<and> h_required_capabilities hello \<union> c_required_capabilities config \<subseteq> n_negotiated_capabilities n
     \<and> unat (n_max_frame_bytes n) = min (unat (h_max_frame_bytes hello)) (c_limits config)
     \<and> n_client_nonce n = h_nonce hello \<and> n_server_nonce n = nonce
     \<and> SessionKeys_derive cr (c_bootstrap_secret config) (n_selected_version n) (c_boundary_plan_digest config)
         (encode_message ops (MHello hello)) (encode_negotiation_core ops n) = Inr (keys, hash)"

context cbor_laws
begin

lemma host_established_by:
  assumes "crypto_laws cr" "host_establish_inner ops cr config (Inr nonce) s = (Some (Inr e), s')"
  shows "\<exists>hello n r keys hash. host_hello config nonce = Inr hello \<and> host_accepts ops cr config hello n keys hash
    \<and> r_role r = GuestServer \<and> r_proof r = readiness_proof cr keys False hash (encode_readiness_core ops r)
    \<and> stream_bytes (io_input s) = frame_bytes (encode_message ops (MCapabilityNegotiation n))
        @ frame_bytes (encode_message ops (MReadiness r)) @ stream_bytes (io_input s')
    \<and> e = \<lparr>e_version = n_selected_version n, e_session_id = c_session_id config,
           e_capabilities = n_negotiated_capabilities n, e_limits = c_limits config, e_keys = keys\<rparr>"
proof -
  obtain hello s1 m1 s2 n keys hash s3 m2 s4 r where
    h: "host_hello config nonce = Inr hello"
    and w1: "write_bounded_message ops (MHello hello) (c_limits config) s = (Some (Inr ()), s1)"
    and r1: "read_bounded_message ops (c_limits config) s1 = (Some (Inr m1), s2)" "fst m1 = MCapabilityNegotiation n"
    and v: "validate_negotiation config hello n = Inr ()"
    and k: "SessionKeys_derive cr (c_bootstrap_secret config) (n_selected_version n) (c_boundary_plan_digest config)
       (encode_message ops (MHello hello)) (encode_negotiation_core ops n) = Inr (keys, hash)"
    and p: "verify_negotiation_proof cr keys (encode_message ops (MHello hello)) (encode_negotiation_core ops n)
       (n_proof n) = Inr ()"
    and w2: "write_bounded_message ops (MReadiness (readiness ops cr HostClient n keys hash)) (c_limits config) s2
       = (Some (Inr ()), s3)"
    and r2: "read_bounded_message ops (c_limits config) s3 = (Some (Inr m2), s4)" "fst m2 = MReadiness r"
    and rd: "validate_readiness ops cr GuestServer n r keys hash = Inr ()"
    and e: "established n keys = Inr e" "s' = s4"
    using assms(2) unfolding host_establish_inner_def Let_def by (auto simp: io_Inr expect_Inr)
  note in1 = read_bounded_Inr [where m = "fst m1" and payload = "snd m1", unfolded prod.collapse, OF r1(1)]
    and in2 = read_bounded_Inr [where m = "fst m2" and payload = "snd m2", unfolded prod.collapse, OF r2(1)]
  have hello: "h_versions hello = c_versions config" "h_capabilities hello = c_capabilities config"
    "h_required_capabilities hello = c_required_capabilities config" "limit_u32 (c_limits config) = Inr (h_max_frame_bytes hello)"
    using h by (auto simp: host_hello_def split: sum.splits)
  note neg = validate_negotiation_Inr [OF v] and rr = validate_readiness_Inr [OF assms(1) rd]
  have lim: "unat (n_max_frame_bytes n) = c_limits config"
    using neg(9) [OF hello(4)] hello(4) by (auto simp: limit_u32_Inr unat_of_nat take_bit_nat_def)
  have "n_proof n = negotiation_proof cr keys (encode_message ops (MHello hello)) (encode_negotiation_core ops n)"
    using p by (simp add: verify_negotiation_proof_def negotiation_proof_def verify_mac_Inr [OF assms(1)])
  then have "host_accepts ops cr config hello n keys hash"
    using neg hello lim k by (simp add: host_accepts_def validate_capabilities_Inr)
  moreover have "stream_bytes (io_input s) = frame_bytes (encode_message ops (MCapabilityNegotiation n))
      @ frame_bytes (encode_message ops (MReadiness r)) @ stream_bytes (io_input s')"
    using in1 in2 r1 r2 e(2) write_bounded_Inr [OF w1] write_bounded_Inr [OF w2] by simp
  ultimately show ?thesis using h rr e(1) lim neg(3) by (auto simp: established_Inr)
qed

lemma guest_established_by:
  assumes "crypto_laws cr" "guest_establish_inner ops cr config (Inr nonce) s = (Some (Inr e), s')"
  shows "\<exists>hello n r keys hash. guest_answers ops cr config nonce hello n keys hash
    \<and> r_role r = HostClient \<and> r_proof r = readiness_proof cr keys True hash (encode_readiness_core ops r)
    \<and> stream_bytes (io_input s) = frame_bytes (encode_message ops (MHello hello))
        @ frame_bytes (encode_message ops (MReadiness r)) @ stream_bytes (io_input s')
    \<and> io_output s' = io_output s @ frame_bytes (encode_message ops (MCapabilityNegotiation n))
        @ frame_bytes (encode_message ops (MReadiness (readiness ops cr GuestServer n keys hash)))
    \<and> e = \<lparr>e_version = n_selected_version n, e_session_id = c_session_id config,
           e_capabilities = n_negotiated_capabilities n, e_limits = unat (n_max_frame_bytes n), e_keys = keys\<rparr>"
proof -
  obtain m1 s1 hello selected limit keys hash where
    r1: "read_bounded_message ops (c_limits config) s = (Some (Inr m1), s1)" "fst m1 = MHello hello"
    and v: "validate_hello config hello = Inr ()"
    and sel: "select_version config hello = Inr selected" "select_limit config hello = Inr limit"
    and c: "validate_capabilities (h_capabilities hello \<inter> c_capabilities config) (h_required_capabilities hello)
       (c_required_capabilities config) = Inr ()"
    and k: "SessionKeys_derive cr (c_bootstrap_secret config) selected (c_boundary_plan_digest config)
       (snd m1) (encode_negotiation_core ops (guest_negotiation config hello selected limit nonce)) = Inr (keys, hash)"
    and rest: "let n0 = guest_negotiation config hello selected limit nonce;
        n = n0\<lparr>n_proof := negotiation_proof cr keys (snd m1) (encode_negotiation_core ops n0)\<rparr>
      in io_bind (write_bounded_message ops (MCapabilityNegotiation n) (c_limits config)) (\<lambda>_.
         io_bind (io_bind (read_bounded_message ops (c_limits config)) expect_readiness) (\<lambda>r.
         io_bind (io_result (validate_readiness ops cr HostClient n r keys hash)) (\<lambda>_.
         io_bind (write_bounded_message ops (MReadiness (readiness ops cr GuestServer n keys hash)) (c_limits config)) (\<lambda>_.
         io_result (established n keys))))) s1 = (Some (Inr e), s')"
    using assms(2) unfolding guest_establish_inner_def Let_def by (auto simp: io_Inr expect_Inr)
  define n where "n = (guest_negotiation config hello selected limit nonce)
    \<lparr>n_proof := negotiation_proof cr keys (snd m1)
       (encode_negotiation_core ops (guest_negotiation config hello selected limit nonce))\<rparr>"
  obtain s2 m2 s3 r where
    w1: "write_bounded_message ops (MCapabilityNegotiation n) (c_limits config) s1 = (Some (Inr ()), s2)"
    and r2: "read_bounded_message ops (c_limits config) s2 = (Some (Inr m2), s3)" "fst m2 = MReadiness r"
    and rd: "validate_readiness ops cr HostClient n r keys hash = Inr ()"
    and w2: "write_bounded_message ops (MReadiness (readiness ops cr GuestServer n keys hash)) (c_limits config) s3
       = (Some (Inr ()), s')"
    and e: "established n keys = Inr e"
    using rest unfolding Let_def n_def [symmetric] by (auto simp: io_Inr expect_Inr)
  note in1 = read_bounded_Inr [where m = "fst m1" and payload = "snd m1", unfolded prod.collapse, OF r1(1)]
    and in2 = read_bounded_Inr [where m = "fst m2" and payload = "snd m2", unfolded prod.collapse, OF r2(1)]
  have core: "encode_negotiation_core ops (guest_negotiation config hello selected limit nonce) = encode_negotiation_core ops n"
    by (simp add: n_def encode_negotiation_core_def)
  have n: "n_selected_version n = selected" "n_negotiated_capabilities n = h_capabilities hello \<inter> c_capabilities config"
    "n_max_frame_bytes n = limit" "n_client_nonce n = h_nonce hello" "n_server_nonce n = nonce"
    "n_session_id n = c_session_id config"
    by (simp_all add: n_def guest_negotiation_def)
  have "SessionKeys_derive cr (c_bootstrap_secret config) (n_selected_version n) (c_boundary_plan_digest config)
      (encode_message ops (MHello hello)) (encode_negotiation_core ops n) = Inr (keys, hash)"
    using k core in1 r1(2) n by simp
  then have "guest_answers ops cr config nonce hello n keys hash"
    using select_Inr [OF sel] validate_hello_Inr [OF v] c by (simp add: guest_answers_def n validate_capabilities_Inr)
  moreover note n(6)
  moreover note validate_readiness_Inr [OF assms(1) rd]
  ultimately show ?thesis
    using in1 in2 r1(2) r2(2) e write_bounded_Inr [OF w1] write_bounded_Inr [OF w2] by (auto simp: established_Inr)
qed

end

subsection \<open>Two peers that fit together\<close>

text \<open>A side of the exchange whose writes succeed and whose reads deliver \<open>bs\<close>, in pieces of any size.\<close>

definition wired :: "io_state \<Rightarrow> bytes \<Rightarrow> bool" where
  "wired s bs \<longleftrightarrow> plain_stream (io_input s) \<and> stream_bytes (io_input s) = bs \<and> io_writes s = []"

lemma io_bind_hit: "m s = (Some (Inr v), s1) \<Longrightarrow> io_bind m f s = f v s1"
  by (simp add: io_bind_def)

lemma read_more_plain:
  "plain_stream input \<Longrightarrow> stream_bytes input = a @ b \<Longrightarrow> length a = n \<Longrightarrow>
     \<exists>rest. read_more n got input = (Some (Inr (got @ a)), rest) \<and> plain_stream rest \<and> stream_bytes rest = b"
proof (induction n got input arbitrary: a rule: read_more.induct)
  case (1 n got input)
  show ?case
  proof (cases "n = 0")
    case False
    then have "stream_bytes input \<noteq> []" using "1.prems"(2,3) by auto
    with stream_read_plain "1.prems"(1) False obtain bs tail where
      r: "stream_read n input = (ReadBytes bs, tail)" "bs \<noteq> []" "plain_stream tail" by blast
    note b = stream_read_bytes [OF r(1)]
    then have eq: "a @ b = bs @ stream_bytes tail" and le: "length bs \<le> length a" using "1.prems"(2,3) by auto
    then have a: "a = bs @ drop (length bs) a" by (metis append_eq_append_conv_if append_take_drop_id)
    then have "stream_bytes tail = drop (length bs) a @ b" using eq by (metis append.assoc same_append_eq)
    from "1.IH" [OF False r(1) [symmetric] refl r(2,3) this] "1.prems"(3) obtain rest where
      "read_more (n - length bs) (got @ bs) tail = (Some (Inr (got @ a)), rest)" "plain_stream rest" "stream_bytes rest = b"
      using a by (metis append.assoc length_drop)
    with False r show ?thesis by (subst read_more.simps) simp
  qed (use "1.prems" in \<open>simp add: read_more.simps\<close>)
qed

lemma read_counted_wired:
  assumes "wired s (a @ b)" "length a = n"
  shows "\<exists>s1. read_counted n s = (Some (Inr a), s1) \<and> wired s1 b \<and> io_output s1 = io_output s"
  using read_more_plain [of "io_input s" a b n "[]"] assms by (fastforce simp: read_counted_def wired_def)

lemma write_bounded_wired:
  assumes "wired s bs" "length (encode_message ops m) \<le> limits" "limits \<le> HARD_MAX_FRAME_BYTES"
  shows "\<exists>s1. write_bounded_message ops m limits s = (Some (Inr ()), s1) \<and> wired s1 bs
    \<and> io_output s1 = io_output s @ frame_bytes (encode_message ops m)"
  using assms by (simp add: write_bounded_message_def wired_def HARD_MAX_FRAME_BYTES_def)

context cbor_laws
begin

lemma encode_message_not_Nil: "encode_message ops m \<noteq> []"
  by (cases m) (simp_all add: encode_message_def enc_array_not_Nil)

lemma read_bounded_wired:
  assumes "wired s (frame_bytes (encode_message ops m) @ rest)" "message_ok m"
    and "length (encode_message ops m) \<le> limits" "limits \<le> HARD_MAX_FRAME_BYTES"
  shows "\<exists>s1. read_bounded_message ops limits s = (Some (Inr (m, encode_message ops m)), s1) \<and> wired s1 rest
    \<and> io_output s1 = io_output s"
proof -
  let ?p = "encode_message ops m"
  have small: "length ?p < 256 ^ 4" using assms(3,4) by (simp add: HARD_MAX_FRAME_BYTES_def)
  obtain s1 where s1: "read_counted 4 s = (Some (Inr (to_be 4 (length ?p))), s1)" "wired s1 (?p @ rest)"
    "io_output s1 = io_output s"
    using read_counted_wired [of s "to_be 4 (length ?p)" "?p @ rest" 4] assms(1) by (auto simp: frame_bytes_def simp del: to_be.simps)
  obtain s2 where s2: "read_counted (length ?p) s1 = (Some (Inr ?p), s2)" "wired s2 rest" "io_output s2 = io_output s"
    using read_counted_wired [OF s1(2) refl] s1(3) by auto
  have "0 < length ?p" using encode_message_not_Nil by simp
  moreover have "decode_message ops ?p = Inr m" using assms(2) by (simp add: decode_message_iff)
  ultimately show ?thesis
    using s1 s2 assms(2,3) from_be_to_be [OF small]
    by (simp add: read_bounded_message_def io_bind_hit io_result_def Let_def del: to_be.simps)
qed

end

text \<open>Configurations of the two ends of one session, and the messages the two then exchange.\<close>

definition compatible :: "HandshakeConfig \<Rightarrow> HandshakeConfig \<Rightarrow> u16 \<Rightarrow> bool" where
  "compatible hc gc v \<longleftrightarrow>
     HandshakeConfig_new hc = Inr hc \<and> HandshakeConfig_new gc = Inr gc
     \<and> length (c_session_id hc) = 16 \<and> c_session_id gc = c_session_id hc
     \<and> c_bootstrap_secret gc = c_bootstrap_secret hc \<and> c_boundary_plan_digest gc = c_boundary_plan_digest hc
     \<and> negotiate (c_versions hc) (c_versions gc) = Some v
     \<and> c_capabilities hc \<inter> c_capabilities gc \<noteq> {}
     \<and> c_required_capabilities hc \<union> c_required_capabilities gc \<subseteq> c_capabilities hc \<inter> c_capabilities gc
     \<and> FrameLimits_new (c_limits hc) = Inr (c_limits hc) \<and> FrameLimits_new (c_limits gc) = Inr (c_limits gc)"

definition the_hello :: "HandshakeConfig \<Rightarrow> bytes \<Rightarrow> Hello" where
  "the_hello hc nonce = projr (host_hello hc nonce)"

definition the_negotiation0 :: "HandshakeConfig \<Rightarrow> HandshakeConfig \<Rightarrow> u16 \<Rightarrow> bytes \<Rightarrow> bytes \<Rightarrow> Negotiation" where
  "the_negotiation0 hc gc v hn gn =
     guest_negotiation gc (the_hello hc hn) v (projr (select_limit gc (the_hello hc hn))) gn"

definition the_keys :: "cbor_ops \<Rightarrow> crypto_ops \<Rightarrow> HandshakeConfig \<Rightarrow> HandshakeConfig \<Rightarrow> u16 \<Rightarrow> bytes \<Rightarrow> bytes \<Rightarrow> SessionKeys \<times> bytes" where
  "the_keys ops cr hc gc v hn gn = projr (SessionKeys_derive cr (c_bootstrap_secret hc) v (c_boundary_plan_digest hc)
     (encode_message ops (MHello (the_hello hc hn))) (encode_negotiation_core ops (the_negotiation0 hc gc v hn gn)))"

definition the_negotiation :: "cbor_ops \<Rightarrow> crypto_ops \<Rightarrow> HandshakeConfig \<Rightarrow> HandshakeConfig \<Rightarrow> u16 \<Rightarrow> bytes \<Rightarrow> bytes \<Rightarrow> Negotiation" where
  "the_negotiation ops cr hc gc v hn gn = (let n0 = the_negotiation0 hc gc v hn gn in
     n0\<lparr>n_proof := negotiation_proof cr (fst (the_keys ops cr hc gc v hn gn))
         (encode_message ops (MHello (the_hello hc hn))) (encode_negotiation_core ops n0)\<rparr>)"

definition the_readiness :: "cbor_ops \<Rightarrow> crypto_ops \<Rightarrow> PeerRole \<Rightarrow> HandshakeConfig \<Rightarrow> HandshakeConfig \<Rightarrow> u16 \<Rightarrow> bytes \<Rightarrow> bytes \<Rightarrow> Readiness" where
  "the_readiness ops cr role hc gc v hn gn = (case the_keys ops cr hc gc v hn gn of
     (keys, hash) \<Rightarrow> readiness ops cr role (the_negotiation ops cr hc gc v hn gn) keys hash)"

definition host_wire :: "cbor_ops \<Rightarrow> crypto_ops \<Rightarrow> HandshakeConfig \<Rightarrow> HandshakeConfig \<Rightarrow> u16 \<Rightarrow> bytes \<Rightarrow> bytes \<Rightarrow> Message list" where
  "host_wire ops cr hc gc v hn gn = [MHello (the_hello hc hn), MReadiness (the_readiness ops cr HostClient hc gc v hn gn)]"

definition guest_wire :: "cbor_ops \<Rightarrow> crypto_ops \<Rightarrow> HandshakeConfig \<Rightarrow> HandshakeConfig \<Rightarrow> u16 \<Rightarrow> bytes \<Rightarrow> bytes \<Rightarrow> Message list" where
  "guest_wire ops cr hc gc v hn gn =
     [MCapabilityNegotiation (the_negotiation ops cr hc gc v hn gn),
      MReadiness (the_readiness ops cr GuestServer hc gc v hn gn)]"

definition wire_bytes :: "cbor_ops \<Rightarrow> Message list \<Rightarrow> bytes" where
  "wire_bytes ops ms = concat (map (\<lambda>m. frame_bytes (encode_message ops m)) ms)"

definition the_session :: "cbor_ops \<Rightarrow> crypto_ops \<Rightarrow> HandshakeConfig \<Rightarrow> HandshakeConfig \<Rightarrow> u16 \<Rightarrow> bytes \<Rightarrow> bytes \<Rightarrow> Established" where
  "the_session ops cr hc gc v hn gn =
     \<lparr>e_version = v, e_session_id = c_session_id hc, e_capabilities = c_capabilities hc \<inter> c_capabilities gc,
      e_limits = c_limits hc, e_keys = fst (the_keys ops cr hc gc v hn gn)\<rparr>"

lemma compatibleD:
  assumes "compatible hc gc v"
  shows "versions_valid (c_versions hc)" "versions_valid (c_versions gc)" "PROTOCOL_VERSION \<le> v"
    "0 < c_limits hc" "c_limits hc \<le> HARD_MAX_FRAME_BYTES" "0 < c_limits gc" "c_limits gc \<le> HARD_MAX_FRAME_BYTES"
    "c_limits hc < 2 ^ 32" "c_limits gc < 2 ^ 32" "c_required_capabilities hc \<subseteq> c_capabilities hc"
  using assms
  by (auto simp: compatible_def HandshakeConfig_new_def negotiate_def FrameLimits_new_Inr HARD_MAX_FRAME_BYTES_def Let_def
      split: if_splits)

lemma the_hello_eq:
  assumes "compatible hc gc v"
  shows "host_hello hc nonce = Inr (the_hello hc nonce)"
    "the_hello hc nonce = \<lparr>h_magic = PROTOCOL_MAGIC, h_versions = c_versions hc, h_session_id = c_session_id hc,
       h_role = HostClient, h_nonce = nonce, h_capabilities = c_capabilities hc,
       h_required_capabilities = c_required_capabilities hc, h_max_frame_bytes = word_of_nat (c_limits hc)\<rparr>"
  using compatibleD(8) [OF assms] by (simp_all add: the_hello_def host_hello_def limit_u32_def)

lemma unat_u32: "n < 2 ^ 32 \<Longrightarrow> unat (word_of_nat n :: u32) = n"
  by (simp add: unat_of_nat take_bit_nat_def)

lemma min_u32:
  assumes "a < 2 ^ 32" "b < 2 ^ 32"
  shows "min (word_of_nat a :: u32) (word_of_nat b) = word_of_nat (min a b)"
  using assms by (simp add: min_def word_le_nat_alt unat_u32)

lemma guest_selects:
  assumes "compatible hc gc v"
  shows "validate_hello gc (the_hello hc nonce) = Inr ()"
    "select_version gc (the_hello hc nonce) = Inr v"
    "select_limit gc (the_hello hc nonce) = Inr (word_of_nat (min (c_limits hc) (c_limits gc)))"
    "validate_capabilities (c_capabilities hc \<inter> c_capabilities gc) (c_required_capabilities hc)
       (c_required_capabilities gc) = Inr ()"
  using assms compatibleD [OF assms]
  by (simp_all add: the_hello_eq [OF assms] validate_hello_def select_version_def select_limit_def limit_u32_def min_u32
      compatible_def FrameLimits_new_def unat_u32 validate_capabilities_Inr)

lemma the_negotiation0_eq:
  assumes "compatible hc gc v"
  shows "the_negotiation0 hc gc v hn gn =
     \<lparr>n_magic = PROTOCOL_MAGIC, n_versions = c_versions gc, n_selected_version = v, n_session_id = c_session_id hc,
      n_role = GuestServer, n_client_nonce = hn, n_server_nonce = gn, n_capabilities = c_capabilities gc,
      n_required_capabilities = c_required_capabilities gc,
      n_negotiated_capabilities = c_capabilities hc \<inter> c_capabilities gc,
      n_max_frame_bytes = word_of_nat (min (c_limits hc) (c_limits gc)), n_proof = replicate MAC_BYTES 0\<rparr>"
  using assms guest_selects(3) [OF assms, of hn]
  by (simp add: the_negotiation0_def guest_negotiation_def the_hello_eq [OF assms] compatible_def)

lemma the_keys_eq:
  assumes "compatible hc gc v"
  shows "SessionKeys_derive cr (c_bootstrap_secret hc) v (c_boundary_plan_digest hc)
     (encode_message ops (MHello (the_hello hc hn))) (encode_negotiation_core ops (the_negotiation0 hc gc v hn gn))
     = Inr (the_keys ops cr hc gc v hn gn)"
  using compatibleD(3) [OF assms] by (simp add: the_keys_def SessionKeys_derive_def Let_def)

lemma the_negotiation_core:
  "encode_negotiation_core ops (the_negotiation ops cr hc gc v hn gn) = encode_negotiation_core ops (the_negotiation0 hc gc v hn gn)"
  by (simp add: the_negotiation_def Let_def encode_negotiation_core_def)

lemma host_validates:
  assumes "compatible hc gc v" "crypto_laws cr"
  shows "validate_negotiation hc (the_hello hc hn) (the_negotiation ops cr hc gc v hn gn) =
      (if c_limits hc \<le> c_limits gc then Inr () else Inl InvalidNegotiatedFrameLimit)"
    "verify_negotiation_proof cr (fst (the_keys ops cr hc gc v hn gn)) (encode_message ops (MHello (the_hello hc hn)))
       (encode_negotiation_core ops (the_negotiation0 hc gc v hn gn)) (n_proof (the_negotiation ops cr hc gc v hn gn)) = Inr ()"
proof -
  note D = compatibleD [OF assms(1)]
  have w: "(word_of_nat (c_limits gc) :: u32) = word_of_nat (c_limits hc) \<longleftrightarrow> c_limits gc = c_limits hc"
    using D(8,9) by (metis unat_u32)
  show "validate_negotiation hc (the_hello hc hn) (the_negotiation ops cr hc gc v hn gn) =
      (if c_limits hc \<le> c_limits gc then Inr () else Inl InvalidNegotiatedFrameLimit)"
    using assms(1) D w
    by (simp add: validate_negotiation_def the_negotiation_def the_negotiation0_eq [OF assms(1)]
        the_hello_eq [OF assms(1)] Let_def validate_limit_def guest_selects(4) [OF assms(1)] limit_u32_def
        min_def FrameLimits_new_def unat_u32 compatible_def)
  show "verify_negotiation_proof cr (fst (the_keys ops cr hc gc v hn gn)) (encode_message ops (MHello (the_hello hc hn)))
       (encode_negotiation_core ops (the_negotiation0 hc gc v hn gn)) (n_proof (the_negotiation ops cr hc gc v hn gn)) = Inr ()"
    by (simp add: verify_negotiation_proof_def verify_mac_Inr [OF assms(2)] the_negotiation_def Let_def negotiation_proof_def)
qed

lemma readiness_validates:
  assumes "crypto_laws cr"
  shows "validate_readiness ops cr role n (readiness ops cr role n keys hash) keys hash = Inr ()"
  by (simp add: validate_readiness_def readiness_def Let_def verify_readiness_proof_def readiness_proof_def
      verify_mac_Inr [OF assms] encode_readiness_core_def)

lemma handshake_messages_ok:
  assumes "compatible hc gc v" "crypto_laws cr" "length hn = NONCE_BYTES" "length gn = NONCE_BYTES"
  shows "\<forall>m \<in> set (host_wire ops cr hc gc v hn gn @ guest_wire ops cr hc gc v hn gn). message_ok m"
  using assms
  by (auto simp: host_wire_def guest_wire_def the_hello_eq [OF assms(1)] the_negotiation_def Let_def
      the_negotiation0_eq [OF assms(1)] the_readiness_def readiness_def negotiation_proof_def readiness_proof_def
      mac_parts_def crypto_laws.mac_length compatible_def split: prod.splits)

definition handshake_fits :: "cbor_ops \<Rightarrow> crypto_ops \<Rightarrow> HandshakeConfig \<Rightarrow> HandshakeConfig \<Rightarrow> u16 \<Rightarrow> bytes \<Rightarrow> bytes \<Rightarrow> bool" where
  "handshake_fits ops cr hc gc v hn gn \<longleftrightarrow>
     (\<forall>m \<in> set (host_wire ops cr hc gc v hn gn @ guest_wire ops cr hc gc v hn gn).
        length (encode_message ops m) \<le> min (c_limits hc) (c_limits gc))"

context cbor_laws
begin

lemma host_completes:
  assumes "crypto_laws cr" "compatible hc gc v" "c_limits hc \<le> c_limits gc" "handshake_fits ops cr hc gc v hn gn"
    and "length hn = NONCE_BYTES" "length gn = NONCE_BYTES" "wired s (wire_bytes ops (guest_wire ops cr hc gc v hn gn) @ rest)"
  shows "\<exists>s'. host_establish_inner ops cr hc (Inr hn) s = (Some (Inr (the_session ops cr hc gc v hn gn)), s')
    \<and> wired s' rest \<and> io_output s' = io_output s @ wire_bytes ops (host_wire ops cr hc gc v hn gn)"
proof -
  let ?n = "the_negotiation ops cr hc gc v hn gn" and ?rh = "the_readiness ops cr HostClient hc gc v hn gn"
    and ?rg = "the_readiness ops cr GuestServer hc gc v hn gn" and ?hello = "the_hello hc hn"
  obtain keys hash where k: "the_keys ops cr hc gc v hn gn = (keys, hash)" by fastforce
  note D = compatibleD [OF assms(2)] and ok = handshake_messages_ok [OF assms(2,1,5,6), of ops]
    and fits = assms(4) [unfolded handshake_fits_def host_wire_def guest_wire_def]
  obtain s1 where s1: "write_bounded_message ops (MHello ?hello) (c_limits hc) s = (Some (Inr ()), s1)"
    "wired s1 (wire_bytes ops (guest_wire ops cr hc gc v hn gn) @ rest)" "io_output s1 = io_output s @ frame_bytes (encode_message ops (MHello ?hello))"
    using write_bounded_wired [OF assms(7) _ D(5), of ops "MHello ?hello"] fits by auto
  obtain s2 where s2: "read_bounded_message ops (c_limits hc) s1 = (Some (Inr (MCapabilityNegotiation ?n,
      encode_message ops (MCapabilityNegotiation ?n))), s2)" "wired s2 (frame_bytes (encode_message ops (MReadiness ?rg)) @ rest)"
    "io_output s2 = io_output s1"
    using read_bounded_wired [of s1 "MCapabilityNegotiation ?n" _ "c_limits hc"] s1(2) ok fits D(5)
    by (auto simp: guest_wire_def wire_bytes_def simp del: message_ok.simps)
  obtain s3 where s3: "write_bounded_message ops (MReadiness ?rh) (c_limits hc) s2 = (Some (Inr ()), s3)"
    "wired s3 (frame_bytes (encode_message ops (MReadiness ?rg)) @ rest)"
    "io_output s3 = io_output s2 @ frame_bytes (encode_message ops (MReadiness ?rh))"
    using write_bounded_wired [OF s2(2) _ D(5), of ops "MReadiness ?rh"] fits by auto
  obtain s4 where s4: "read_bounded_message ops (c_limits hc) s3 = (Some (Inr (MReadiness ?rg,
      encode_message ops (MReadiness ?rg))), s4)" "wired s4 rest" "io_output s4 = io_output s3"
    using read_bounded_wired [of s3 "MReadiness ?rg" _ "c_limits hc"] s3(2) ok fits D(5)
    by (auto simp: guest_wire_def simp del: message_ok.simps)
  have "n_selected_version ?n = v" "established ?n keys = Inr (the_session ops cr hc gc v hn gn)"
    using D assms(3) k
    by (simp_all add: established_def the_session_def the_negotiation_def the_negotiation0_eq [OF assms(2)] Let_def
        FrameLimits_new_def unat_u32)
  then have "host_establish_inner ops cr hc (Inr hn) s = (Some (Inr (the_session ops cr hc gc v hn gn)), s4)"
    using host_validates [OF assms(2,1), where ops = ops and hn = hn and gn = gn] assms(3) k s1(1) s2(1) s3(1) s4(1)
      the_keys_eq [OF assms(2), where cr = cr and ops = ops and hn = hn and gn = gn] readiness_validates [OF assms(1), of ops GuestServer ?n keys hash]
    by (simp add: host_establish_inner_def the_hello_eq(1) [OF assms(2)] Let_def io_bind_hit expect_negotiation_def
        expect_readiness_def io_result_def the_negotiation_core the_readiness_def)
  with s1(3) s2(3) s3(3) s4(2,3) show ?thesis by (simp add: wire_bytes_def host_wire_def)
qed

lemma guest_completes:
  assumes "crypto_laws cr" "compatible hc gc v" "c_limits hc \<le> c_limits gc" "handshake_fits ops cr hc gc v hn gn"
    and "length hn = NONCE_BYTES" "length gn = NONCE_BYTES" "wired s (wire_bytes ops (host_wire ops cr hc gc v hn gn) @ rest)"
  shows "\<exists>s'. guest_establish_inner ops cr gc (Inr gn) s = (Some (Inr (the_session ops cr hc gc v hn gn)), s')
    \<and> wired s' rest \<and> io_output s' = io_output s @ wire_bytes ops (guest_wire ops cr hc gc v hn gn)"
proof -
  let ?n = "the_negotiation ops cr hc gc v hn gn" and ?rh = "the_readiness ops cr HostClient hc gc v hn gn"
    and ?rg = "the_readiness ops cr GuestServer hc gc v hn gn" and ?hello = "the_hello hc hn"
    and ?blank = "the_negotiation0 hc gc v hn gn"
  obtain keys hash where k: "the_keys ops cr hc gc v hn gn = (keys, hash)" by fastforce
  note D = compatibleD [OF assms(2)] and ok = handshake_messages_ok [OF assms(2,1,5,6), of ops]
    and fits = assms(4) [unfolded handshake_fits_def host_wire_def guest_wire_def]
  obtain s1 where s1: "read_bounded_message ops (c_limits gc) s = (Some (Inr (MHello ?hello, encode_message ops (MHello ?hello))), s1)"
    "wired s1 (frame_bytes (encode_message ops (MReadiness ?rh)) @ rest)" "io_output s1 = io_output s"
    using read_bounded_wired [of s "MHello ?hello" _ "c_limits gc"] assms(7) ok fits D(7)
    by (auto simp: host_wire_def wire_bytes_def simp del: message_ok.simps)
  obtain s2 where s2: "write_bounded_message ops (MCapabilityNegotiation ?n) (c_limits gc) s1 = (Some (Inr ()), s2)"
    "wired s2 (frame_bytes (encode_message ops (MReadiness ?rh)) @ rest)"
    "io_output s2 = io_output s1 @ frame_bytes (encode_message ops (MCapabilityNegotiation ?n))"
    using write_bounded_wired [OF s1(2) _ D(7), of ops "MCapabilityNegotiation ?n"] fits by auto
  obtain s3 where s3: "read_bounded_message ops (c_limits gc) s2 = (Some (Inr (MReadiness ?rh,
      encode_message ops (MReadiness ?rh))), s3)" "wired s3 rest" "io_output s3 = io_output s2"
    using read_bounded_wired [of s2 "MReadiness ?rh" _ "c_limits gc"] s2(2) ok fits D(7)
    by (auto simp: host_wire_def simp del: message_ok.simps)
  obtain s4 where s4: "write_bounded_message ops (MReadiness ?rg) (c_limits gc) s3 = (Some (Inr ()), s4)"
    "wired s4 rest" "io_output s4 = io_output s3 @ frame_bytes (encode_message ops (MReadiness ?rg))"
    using write_bounded_wired [OF s3(2) _ D(7), of ops "MReadiness ?rg"] fits by auto
  have n0: "guest_negotiation gc ?hello v (word_of_nat (min (c_limits hc) (c_limits gc))) gn = ?blank"
    using guest_selects(3) [OF assms(2)] by (simp add: the_negotiation0_def)
  have n: "?blank\<lparr>n_proof := negotiation_proof cr keys (encode_message ops (MHello ?hello)) (encode_negotiation_core ops ?blank)\<rparr> = ?n"
    using k by (simp add: the_negotiation_def Let_def)
  have e: "established ?n keys = Inr (the_session ops cr hc gc v hn gn)"
    using D assms(3) k
    by (simp_all add: established_def the_session_def the_negotiation_def the_negotiation0_eq [OF assms(2)] Let_def
        FrameLimits_new_def unat_u32)
  have cfg: "c_bootstrap_secret gc = c_bootstrap_secret hc" "c_boundary_plan_digest gc = c_boundary_plan_digest hc"
    "h_capabilities ?hello = c_capabilities hc" "h_required_capabilities ?hello = c_required_capabilities hc"
    using assms(2) by (simp_all add: compatible_def the_hello_eq [OF assms(2)])
  have "guest_establish_inner ops cr gc (Inr gn) s = (Some (Inr (the_session ops cr hc gc v hn gn)), s4)"
    using guest_selects [OF assms(2)] k s1(1) s2(1) s3(1) s4(1) n e n0 cfg
      the_keys_eq [OF assms(2), where cr = cr and ops = ops and hn = hn and gn = gn]
      readiness_validates [OF assms(1), of ops HostClient ?n keys hash]
    by (simp add: guest_establish_inner_def Let_def io_bind_hit expect_hello_def
        expect_readiness_def io_result_def the_readiness_def)
  with s1(3) s2(3) s3(3) s4(2,3) show ?thesis by (simp add: wire_bytes_def guest_wire_def)
qed

end

subsection \<open>A concrete pair\<close>

definition sample_config :: "nat \<Rightarrow> HandshakeConfig" where
  "sample_config limit =
     \<lparr>c_session_id = replicate 16 7, c_versions = \<lparr>minimum = 2, maximum = 3\<rparr>, c_capabilities = {Lifecycle, Health},
      c_required_capabilities = {Lifecycle}, c_limits = limit, c_bootstrap_secret = replicate 32 35,
      c_boundary_plan_digest = replicate 32 65\<rparr>"

definition sample_nonce :: bytes where
  "sample_nonce = replicate 32 9"

lemma sample_compatible: "compatible (sample_config 1024) (sample_config 1024) 3" "compatible (sample_config 1024) (sample_config 512) 3"
  by (simp_all add: compatible_def sample_config_def HandshakeConfig_new_def versions_valid_def PROTOCOL_VERSION_def
      negotiate_def FrameLimits_new_def HARD_MAX_FRAME_BYTES_def)

lemma sample_nonce_length: "length sample_nonce = NONCE_BYTES"
  by (simp add: sample_nonce_def)

text \<open>With the CBOR instance, no handshake message needs more than 512 bytes.\<close>

lemma cbor_head_length: "length (cbor_head m n) \<le> 9"
  by (simp add: cbor_head_def)

lemma wire_lengths:
  "length (enc_array wire_cbor a) \<le> 9" "length (enc_u8 wire_cbor b) \<le> 9" "length (enc_u16 wire_cbor c) \<le> 9"
  "length (enc_u32 wire_cbor d) \<le> 9" "length (enc_bytes wire_cbor v) \<le> 9 + length v"
  by (simp_all add: wire_cbor_def cbor_head_length)

lemma wire_capabilities_length: "length (encode_capabilities wire_cbor s) \<le> 90"
proof -
  have "length (concat (map (\<lambda>c. enc_u16 wire_cbor (capability_u16 c)) cs)) \<le> 9 * length cs" for cs
    using wire_lengths(3) by (induction cs) (simp_all add: add_mono)
  from add_mono [OF wire_lengths(1) order_trans [OF this mult_le_mono2 [OF capability_iter_le]]] show ?thesis
    unfolding encode_capabilities_def length_append by simp
qed

lemma wire_handshake_length:
  assumes "message_ok m" "is_handshake m"
  shows "length (encode_message wire_cbor m) \<le> 512"
proof -
  have bytes: "length v = k \<Longrightarrow> length (enc_bytes wire_cbor v) \<le> 9 + k" for v k using wire_lengths(5) by blast
  have app: "length x \<le> a \<Longrightarrow> length y \<le> b \<Longrightarrow> length (x @ y) \<le> a + b" for x y :: bytes and a b by simp
  show ?thesis
  proof (cases m)
    case (MHello h)
    with assms(1) have b: "length (h_magic h) = 8" "length (h_session_id h) = 16" "length (h_nonce h) = 32"
      by simp_all
    show ?thesis
      unfolding MHello encode_message_def encode_message_to.simps
      by (rule order_trans, (rule app wire_lengths(1-4) wire_capabilities_length bytes [OF b(1)] bytes [OF b(2)] bytes [OF b(3)])+, simp)
  next
    case (MCapabilityNegotiation n)
    with assms(1) have b: "length (n_magic n) = 8" "length (n_session_id n) = 16" "length (n_client_nonce n) = 32" "length (n_server_nonce n) = 32" "length (n_proof n) = 32"
      by simp_all
    show ?thesis
      unfolding MCapabilityNegotiation encode_message_def encode_message_to.simps
      by (rule order_trans, (rule app wire_lengths(1-4) wire_capabilities_length bytes [OF b(1)] bytes [OF b(2)] bytes [OF b(3)] bytes [OF b(4)] bytes [OF b(5)])+, simp)
  next
    case (MReadiness r)
    with assms(1) have b: "length (r_session_id r) = 16" "length (r_proof r) = 32"
      by simp_all
    show ?thesis
      unfolding MReadiness encode_message_def encode_message_to.simps
      by (rule order_trans, (rule app wire_lengths(1-4) wire_capabilities_length bytes [OF b(1)] bytes [OF b(2)])+, simp)
  qed (use assms in auto)
qed

lemma wire_handshake_fits:
  assumes "crypto_laws cr" "compatible hc gc v" "length hn = NONCE_BYTES" "length gn = NONCE_BYTES"
    and "512 \<le> c_limits hc" "512 \<le> c_limits gc"
  shows "handshake_fits wire_cbor cr hc gc v hn gn"
proof -
  have "\<forall>m \<in> set (host_wire wire_cbor cr hc gc v hn gn @ guest_wire wire_cbor cr hc gc v hn gn). is_handshake m"
    by (simp add: host_wire_def guest_wire_def)
  with handshake_messages_ok [OF assms(2,1,3,4)] wire_handshake_length show ?thesis
    unfolding handshake_fits_def using assms(5,6) by (metis le_trans min.bounded_iff)
qed

lemmas sample_handshake_fits = wire_handshake_fits [OF sample.crypto_laws_axioms _ sample_nonce_length sample_nonce_length]

subsection \<open>Properties\<close>

lemma handshake_establish_Inr:
  "handshake_establish role inner state s = (state', Some (Inr conn), s') \<longleftrightarrow>
     state = Initial \<and> state' = EstablishedState
     \<and> (\<exists>e. inner s = (Some (Inr e), s') \<and> conn = connection_from_established role e)"
  by (auto simp: handshake_establish_def split: prod.splits option.splits sum.splits)

lemma connection_fields:
  "ac_negotiated (connection_from_established role e) =
     \<lparr>ns_version = e_version e, ns_session_id = e_session_id e, ns_capabilities = e_capabilities e, ns_limits = e_limits e\<rparr>"
  "wr_key (ac_writer (connection_from_established role e)) = directional_key (e_keys e) (role = HostClient)"
  "rd_key (ac_reader (connection_from_established role e)) = directional_key (e_keys e) (role \<noteq> HostClient)"
  by (cases role; simp add: connection_from_established_def AuthenticatedConnection_new_def FramedWriter_new_def
      FramedReader_new_def directional_key_def Let_def)+

definition sample_host_io :: io_state where
  "sample_host_io = \<lparr>io_input = [Chunk (wire_bytes wire_cbor (guest_wire wire_cbor sample_crypto (sample_config 1024)
     (sample_config 1024) 3 sample_nonce sample_nonce))], io_output = [], io_writes = []\<rparr>"

definition sample_guest_io :: io_state where
  "sample_guest_io = \<lparr>io_input = [Chunk (wire_bytes wire_cbor (host_wire wire_cbor sample_crypto (sample_config 1024)
     (sample_config 1024) 3 sample_nonce sample_nonce))], io_output = [], io_writes = []\<rparr>"

lemma wire_bytes_not_Nil: "ms \<noteq> [] \<Longrightarrow> wire_bytes ops ms \<noteq> []"
  by (cases ms) (simp_all add: wire_bytes_def frame_bytes_def)

lemma sample_wired:
  "wired sample_host_io (wire_bytes wire_cbor (guest_wire wire_cbor sample_crypto (sample_config 1024)
     (sample_config 1024) 3 sample_nonce sample_nonce))"
  "wired sample_guest_io (wire_bytes wire_cbor (host_wire wire_cbor sample_crypto (sample_config 1024)
     (sample_config 1024) 3 sample_nonce sample_nonce))"
  using wire_bytes_not_Nil [of "guest_wire _ _ _ _ _ _ _"] wire_bytes_not_Nil [of "host_wire _ _ _ _ _ _ _"]
  by (simp_all add: wired_def sample_host_io_def sample_guest_io_def plain_stream_def stream_bytes_def
      guest_wire_def host_wire_def)

lemma sample_fits_1024:
  "handshake_fits wire_cbor sample_crypto (sample_config 1024) (sample_config 1024) 3 sample_nonce sample_nonce"
  by (rule sample_handshake_fits [OF sample_compatible(1)]) (simp_all add: sample_config_def)

lemma sample_runs:
  obtains h s' g t' where
    "host_establish wire_cbor sample_crypto (sample_config 1024) (Inr sample_nonce) Initial sample_host_io
       = (EstablishedState, Some (Inr h), s')"
    "guest_establish wire_cbor sample_crypto (sample_config 1024) (Inr sample_nonce) Initial sample_guest_io
       = (EstablishedState, Some (Inr g), t')"
  using wire.host_completes [OF sample.crypto_laws_axioms sample_compatible(1) order_refl sample_fits_1024
      sample_nonce_length sample_nonce_length, of sample_host_io "[]"]
    wire.guest_completes [OF sample.crypto_laws_axioms sample_compatible(1) order_refl sample_fits_1024
      sample_nonce_length sample_nonce_length, of sample_guest_io "[]"] sample_wired
  by (auto simp: host_establish_def guest_establish_def handshake_establish_def)

text \<open>
  C3: Whatever the host reads, it reports an established connection only if the stream carried a negotiation
  that echoes its fresh nonce, names its session, picks the highest common version, exactly the common
  capabilities with every required one among them, and is tagged with a key derived from its bootstrap
  secret, its boundary plan digest and the bytes of both messages, followed by a readiness tagged with the
  guest's key of the same transcript.  The connection has those parameters and keys.
\<close>

theorem host_establishes_authenticated:
  assumes "cbor_laws ops" and "crypto_laws cr"
    and "host_establish ops cr config (Inr nonce) state s = (state', Some (Inr conn), s')"
  shows "\<exists>hello n r keys hash. host_hello config nonce = Inr hello \<and> host_accepts ops cr config hello n keys hash
    \<and> r_role r = GuestServer \<and> r_proof r = readiness_proof cr keys False hash (encode_readiness_core ops r)
    \<and> stream_bytes (io_input s) = wire_bytes ops [MCapabilityNegotiation n, MReadiness r] @ stream_bytes (io_input s')
    \<and> ac_negotiated conn = \<lparr>ns_version = n_selected_version n, ns_session_id = c_session_id config,
         ns_capabilities = n_negotiated_capabilities n, ns_limits = c_limits config\<rparr>
    \<and> wr_key (ac_writer conn) = key_host_to_guest keys \<and> rd_key (ac_reader conn) = key_guest_to_host keys"
proof -
  from assms(3) obtain e where "host_establish_inner ops cr config (Inr nonce) s = (Some (Inr e), s')"
    "conn = connection_from_established HostClient e"
    by (auto simp: host_establish_def handshake_establish_Inr)
  with cbor_laws.host_established_by [OF assms(1,2)] show ?thesis
    by (fastforce simp: connection_fields directional_key_def wire_bytes_def)
qed

theorem host_establishes_authenticated_witness:
  "\<exists>h s' hello n r keys hash.
     host_establish wire_cbor sample_crypto (sample_config 1024) (Inr sample_nonce) Initial sample_host_io
       = (EstablishedState, Some (Inr h), s')
     \<and> host_accepts wire_cbor sample_crypto (sample_config 1024) hello n keys hash
     \<and> r_proof r = readiness_proof sample_crypto keys False hash (encode_readiness_core wire_cbor r)
     \<and> wr_key (ac_writer h) = key_host_to_guest keys"
proof -
  obtain h s' where "host_establish wire_cbor sample_crypto (sample_config 1024) (Inr sample_nonce) Initial sample_host_io
       = (EstablishedState, Some (Inr h), s')"
    by (rule sample_runs)
  with host_establishes_authenticated [OF wire.cbor_laws_axioms sample.crypto_laws_axioms this] show ?thesis by blast
qed

text \<open>
  C11: Whatever the guest reads, it reports an established connection only after a hello for its session and a
  readiness tagged with the host's key of the transcript it answered: its own boundary plan digest and
  secret, the hello as received, and the version, capabilities and lower frame limit it selected.
\<close>

theorem guest_establishes_authenticated:
  assumes "cbor_laws ops" and "crypto_laws cr"
    and "guest_establish ops cr config (Inr nonce) state s = (state', Some (Inr conn), s')"
  shows "\<exists>hello n r keys hash. guest_answers ops cr config nonce hello n keys hash
    \<and> r_role r = HostClient \<and> r_proof r = readiness_proof cr keys True hash (encode_readiness_core ops r)
    \<and> stream_bytes (io_input s) = wire_bytes ops [MHello hello, MReadiness r] @ stream_bytes (io_input s')
    \<and> io_output s' = io_output s
        @ wire_bytes ops [MCapabilityNegotiation n, MReadiness (readiness ops cr GuestServer n keys hash)]
    \<and> ac_negotiated conn = \<lparr>ns_version = n_selected_version n, ns_session_id = c_session_id config,
         ns_capabilities = n_negotiated_capabilities n, ns_limits = unat (n_max_frame_bytes n)\<rparr>
    \<and> wr_key (ac_writer conn) = key_guest_to_host keys \<and> rd_key (ac_reader conn) = key_host_to_guest keys"
proof -
  from assms(3) obtain e where "guest_establish_inner ops cr config (Inr nonce) s = (Some (Inr e), s')"
    "conn = connection_from_established GuestServer e"
    by (auto simp: guest_establish_def handshake_establish_Inr)
  with cbor_laws.guest_established_by [OF assms(1,2)] show ?thesis
    by (fastforce simp: connection_fields directional_key_def wire_bytes_def)
qed

theorem guest_establishes_authenticated_witness:
  "\<exists>g t' hello n r keys hash.
     guest_establish wire_cbor sample_crypto (sample_config 1024) (Inr sample_nonce) Initial sample_guest_io
       = (EstablishedState, Some (Inr g), t')
     \<and> guest_answers wire_cbor sample_crypto (sample_config 1024) sample_nonce hello n keys hash
     \<and> r_proof r = readiness_proof sample_crypto keys True hash (encode_readiness_core wire_cbor r)
     \<and> wr_key (ac_writer g) = key_guest_to_host keys"
proof -
  obtain g t' where "guest_establish wire_cbor sample_crypto (sample_config 1024) (Inr sample_nonce) Initial sample_guest_io
       = (EstablishedState, Some (Inr g), t')"
    by (rule sample_runs)
  with guest_establishes_authenticated [OF wire.cbor_laws_axioms sample.crypto_laws_axioms this] show ?thesis by blast
qed

text \<open>
  C12: Two peers of one session, with the same secret and boundary plan digest, a common version, the required
  capabilities in common and a guest limit that is not below the host's, complete the handshake however the
  bytes are cut into pieces, and end with the same parameters and with matching keys.
\<close>

theorem handshake_completes:
  assumes "cbor_laws ops" and "crypto_laws cr" and "compatible hc gc v" and "c_limits hc \<le> c_limits gc"
    and "handshake_fits ops cr hc gc v hn gn" and "length hn = NONCE_BYTES" and "length gn = NONCE_BYTES"
    and "wired s (wire_bytes ops (guest_wire ops cr hc gc v hn gn))"
    and "wired t (wire_bytes ops (host_wire ops cr hc gc v hn gn))"
  shows "\<exists>h s' g t'. host_establish ops cr hc (Inr hn) Initial s = (EstablishedState, Some (Inr h), s')
    \<and> guest_establish ops cr gc (Inr gn) Initial t = (EstablishedState, Some (Inr g), t')
    \<and> io_output s' = io_output s @ wire_bytes ops (host_wire ops cr hc gc v hn gn)
    \<and> io_output t' = io_output t @ wire_bytes ops (guest_wire ops cr hc gc v hn gn)
    \<and> ac_negotiated h = \<lparr>ns_version = v, ns_session_id = c_session_id hc,
         ns_capabilities = c_capabilities hc \<inter> c_capabilities gc, ns_limits = c_limits hc\<rparr>
    \<and> ac_negotiated g = ac_negotiated h
    \<and> wr_key (ac_writer h) = rd_key (ac_reader g) \<and> wr_key (ac_writer g) = rd_key (ac_reader h)"
proof -
  note h = cbor_laws.host_completes [OF assms(1-7), of s "[]"]
    and g = cbor_laws.guest_completes [OF assms(1-7), of t "[]"]
  from h g assms(8,9) obtain s' t' where
    "host_establish_inner ops cr hc (Inr hn) s = (Some (Inr (the_session ops cr hc gc v hn gn)), s')"
    "guest_establish_inner ops cr gc (Inr gn) t = (Some (Inr (the_session ops cr hc gc v hn gn)), t')"
    "io_output s' = io_output s @ wire_bytes ops (host_wire ops cr hc gc v hn gn)"
    "io_output t' = io_output t @ wire_bytes ops (guest_wire ops cr hc gc v hn gn)"
    by auto
  then show ?thesis
    by (simp add: host_establish_def guest_establish_def handshake_establish_def connection_fields
        directional_key_def the_session_def)
qed

theorem handshake_completes_witness:
  "\<exists>h s' g t'. host_establish wire_cbor sample_crypto (sample_config 1024) (Inr sample_nonce) Initial sample_host_io
       = (EstablishedState, Some (Inr h), s')
    \<and> guest_establish wire_cbor sample_crypto (sample_config 1024) (Inr sample_nonce) Initial sample_guest_io
       = (EstablishedState, Some (Inr g), t')
    \<and> ac_negotiated g = ac_negotiated h
    \<and> wr_key (ac_writer h) = rd_key (ac_reader g) \<and> wr_key (ac_writer g) = rd_key (ac_reader h)"
  using handshake_completes [OF wire.cbor_laws_axioms sample.crypto_laws_axioms sample_compatible(1) order_refl
      sample_fits_1024 sample_nonce_length sample_nonce_length sample_wired]
  by blast

text \<open>
  C33: A guest whose frame limit is below the host's accepts the hello and answers with its own, lower limit, and
  the host then gives up: it compares the answer with its own limit.
\<close>

theorem lower_guest_limit_rejected:
  assumes "crypto_laws cr" and "compatible hc gc v" and "c_limits gc < c_limits hc"
  shows "validate_hello gc (the_hello hc hn) = Inr ()
    \<and> unat (n_max_frame_bytes (the_negotiation ops cr hc gc v hn gn)) = c_limits gc
    \<and> validate_negotiation hc (the_hello hc hn) (the_negotiation ops cr hc gc v hn gn) = Inl InvalidNegotiatedFrameLimit"
  using assms host_validates [OF assms(2,1)] guest_selects [OF assms(2)] compatibleD [OF assms(2)]
  by (simp add: the_negotiation_def the_negotiation0_eq [OF assms(2)] Let_def unat_u32)

theorem lower_guest_limit_rejected_witness:
  "validate_hello (sample_config 512) (the_hello (sample_config 1024) sample_nonce) = Inr ()
    \<and> unat (n_max_frame_bytes (the_negotiation wire_cbor sample_crypto (sample_config 1024) (sample_config 512) 3
        sample_nonce sample_nonce)) = c_limits (sample_config 512)
    \<and> validate_negotiation (sample_config 1024) (the_hello (sample_config 1024) sample_nonce)
        (the_negotiation wire_cbor sample_crypto (sample_config 1024) (sample_config 512) 3 sample_nonce sample_nonce)
      = Inl InvalidNegotiatedFrameLimit"
  by (rule lower_guest_limit_rejected [OF sample.crypto_laws_axioms sample_compatible(2)]) (simp add: sample_config_def)

end
