(* ===== verification/Transition_Table.thy ===== *)
theory Transition_Table
  imports Rust_Prelude
begin

section \<open>State machines guarded by a table of transitions\<close>

text \<open>
  The interface of a component that holds one state and changes it only along a table: a request is either
  granted, and the machine is in the requested state, or refused, and nothing has changed.  The lemmas are
  about any sequence of requests, which is what callers that share the machine produce when each request is
  one critical section.
\<close>

locale transition_table =
  fixes allowed :: "'s \<Rightarrow> 's \<Rightarrow> bool"
    and request :: "'s \<Rightarrow> 's \<Rightarrow> 's \<times> ('e + 'r)"
  assumes granted: "allowed s t \<Longrightarrow> fst (request s t) = t \<and> isl (snd (request s t)) = False"
    and refused: "\<not> allowed s t \<Longrightarrow> fst (request s t) = s \<and> isl (snd (request s t))"
begin

text \<open>The granted requests among \<open>ts\<close>, in order, and the state after them.\<close>

fun grants :: "'s \<Rightarrow> 's list \<Rightarrow> 's list" where
  "grants s [] = []"
| "grants s (t # ts) =
     (if isl (snd (request s t)) then grants (fst (request s t)) ts else t # grants (fst (request s t)) ts)"

fun after :: "'s \<Rightarrow> 's list \<Rightarrow> 's" where
  "after s [] = s"
| "after s (t # ts) = after (fst (request s t)) ts"

inductive path :: "'s \<Rightarrow> 's list \<Rightarrow> 's \<Rightarrow> bool" where
  path_Nil: "path s [] s"
| path_Cons: "allowed s t \<Longrightarrow> path t ts u \<Longrightarrow> path s (t # ts) u"

inductive_simps path_simps [simp]: "path s [] u" "path s (t # ts) u"

lemma path_end: "path s ts u \<Longrightarrow> u = last (s # ts)"
  by (induction rule: path.induct) auto

lemma grants_path: "path s (grants s ts) (after s ts)"
proof (induction ts arbitrary: s)
  case (Cons t ts)
  then show ?case using granted [of s t] refused [of s t] by (cases "allowed s t") (auto intro: path.intros)
qed (simp add: path.intros)

lemma path_granted: "path s ts u \<Longrightarrow> grants s ts = ts \<and> after s ts = u"
  by (induction rule: path.induct) (auto simp: granted)

lemma path_append: "path s (ts @ us) u \<longleftrightarrow> (\<exists>m. path s ts m \<and> path m us u)"
  by (induction ts arbitrary: s) auto

text \<open>A measure that never decreases, and grows when a state of \<open>once\<close> is left, shows that such a state is entered at most once.\<close>

lemma path_increasing:
  assumes "\<And>a b. allowed a b \<Longrightarrow> rank a \<le> (rank b :: nat)" and "path s ts u" and "t \<in> set ts"
  shows "rank s \<le> rank t"
  using assms(2,3) by (induction rule: path.induct) (auto dest: assms(1) intro: order_trans)

lemma entered_once:
  assumes mono: "\<And>a b. allowed a b \<Longrightarrow> rank a \<le> (rank b :: nat)"
    and strict: "\<And>b. allowed x b \<Longrightarrow> rank x < rank b" and "path s ts u"
  shows "count_list ts x \<le> 1 \<and> (s = x \<longrightarrow> count_list ts x = 0)"
  using assms(3)
proof (induction rule: path.induct)
  case (path_Cons s t ts u)
  have "x \<notin> set (t # ts)" if "s = x"
    using path_increasing [of rank, OF mono path_Cons.hyps(2)] strict [of t] path_Cons.hyps(1) that by force
  moreover have "x \<notin> set ts" if "t = x"
    using path_Cons.IH that by (simp add: count_list_0_iff)
  ultimately show ?case using path_Cons.IH by (auto simp: count_list_0_iff)
qed simp

end

end
