(* ===== verification/Runtime_Lifecycle.thy ===== *)
theory Runtime_Lifecycle
  imports Transition_Table
begin

section \<open>The lifecycle of a runtime (crates/sendbox-runtime/src/lifecycle.rs)\<close>

text \<open>
  The state of a sandbox runtime and the requests that change it.  A request validates and updates under one
  lock, so the requests of concurrent callers form a sequence, in the order in which they take the lock.
\<close>

datatype LifecycleState =
  New | Initialized | Created | Running | Stopping | Stopped | Cleaning | Cleaned | LifecycleFailed

fun can_transition_to :: "LifecycleState \<Rightarrow> LifecycleState \<Rightarrow> bool" where
  "can_transition_to New next \<longleftrightarrow> next \<in> {Initialized, Cleaning, LifecycleFailed}"
| "can_transition_to Initialized next \<longleftrightarrow> next \<in> {Created, Cleaning, LifecycleFailed}"
| "can_transition_to Created next \<longleftrightarrow> next \<in> {Running, Stopped, Cleaning, LifecycleFailed}"
| "can_transition_to Running next \<longleftrightarrow> next \<in> {Stopping, Stopped, LifecycleFailed}"
| "can_transition_to Stopping next \<longleftrightarrow> next \<in> {Stopped, LifecycleFailed}"
| "can_transition_to Stopped next \<longleftrightarrow> next \<in> {Cleaning, Cleaned, LifecycleFailed}"
| "can_transition_to Cleaning next \<longleftrightarrow> next \<in> {Cleaned, LifecycleFailed}"
| "can_transition_to LifecycleFailed next \<longleftrightarrow> next \<in> {Cleaning, Cleaned}"
| "can_transition_to Cleaned next \<longleftrightarrow> False"

datatype LifecycleTransitionError =
  Duplicate LifecycleState
| Invalid LifecycleState LifecycleState

definition transition ::
  "LifecycleState \<Rightarrow> LifecycleState \<Rightarrow> LifecycleState \<times> (LifecycleTransitionError + LifecycleState)" where
  "transition previous next =
     (if previous = next then (previous, Inl (Duplicate next))
      else if \<not> can_transition_to previous next then (previous, Inl (Invalid previous next))
      else (next, Inr previous))"

text \<open>Requests in the order of the lock, and what each caller gets.\<close>

fun transitions ::
  "LifecycleState \<Rightarrow> LifecycleState list \<Rightarrow> LifecycleState \<times> (LifecycleTransitionError + LifecycleState) list" where
  "transitions s [] = (s, [])"
| "transitions s (t # ts) =
     (case transition s t of (s1, r) \<Rightarrow> (case transitions s1 ts of (s2, rs) \<Rightarrow> (s2, r # rs)))"

definition granted_states :: "LifecycleState \<Rightarrow> LifecycleState list \<Rightarrow> LifecycleState list" where
  "granted_states s ts = map fst (filter (\<lambda>(t, r). \<not> isl r) (zip ts (snd (transitions s ts))))"

lemma no_self_transition: "\<not> can_transition_to s s"
  by (cases s) simp_all

interpretation lifecycle: transition_table can_transition_to transition
  by unfold_locales (auto simp: transition_def no_self_transition)

lemma transitions_grants:
  "granted_states s ts = lifecycle.grants s ts \<and> fst (transitions s ts) = lifecycle.after s ts"
proof (induction ts arbitrary: s)
  case (Cons t ts)
  obtain s1 r where t: "transition s t = (s1, r)" by fastforce
  with Cons show ?case by (simp add: granted_states_def case_prod_beta)
qed (simp add: granted_states_def)

text \<open>How far along a state is; failure and cleaning alternate at the same height.\<close>

fun stage :: "LifecycleState \<Rightarrow> nat" where
  "stage New = 0"
| "stage Initialized = 1"
| "stage Created = 2"
| "stage Running = 3"
| "stage Stopping = 4"
| "stage Stopped = 5"
| "stage Cleaning = 6"
| "stage LifecycleFailed = 6"
| "stage Cleaned = 7"

lemma stage_mono: "can_transition_to a b \<Longrightarrow> stage a \<le> stage b"
  by (cases a) auto

lemma stage_strict: "x \<noteq> Cleaning \<Longrightarrow> x \<noteq> LifecycleFailed \<Longrightarrow> can_transition_to x b \<Longrightarrow> stage x < stage b"
  by (cases x) auto

definition cleanup_requests :: "LifecycleState \<Rightarrow> LifecycleState list" where
  "cleanup_requests s = (if s = Cleaned then [] else if s = Stopped \<or> s = LifecycleFailed \<or> s = Cleaning then [Cleaned]
     else if s = Running \<or> s = Stopping then [Stopped, Cleaned] else [Cleaning, Cleaned])"

subsection \<open>Properties\<close>

text \<open>
  Whatever requests concurrent callers make, in whatever order, every state other than cleaning and failed
  is entered at most once, never when the runtime already started in it; in particular, of any number of
  callers that ask to start the runtime at most one succeeds.  Nothing is granted after cleanup.
\<close>

theorem lifecycle_entered_once:
  "count_list (granted_states s ts) x \<le> (if x = s \<or> s = Cleaned then 0 else 1)"
    if "x \<noteq> Cleaning" and "x \<noteq> LifecycleFailed"
proof -
  have p: "lifecycle.path s (granted_states s ts) (fst (transitions s ts))"
    by (simp add: transitions_grants lifecycle.grants_path)
  have "granted_states s ts = []" if "s = Cleaned"
    using p that by (cases "granted_states s ts") simp_all
  then show ?thesis using lifecycle.entered_once [of stage, OF stage_mono stage_strict p] that by auto
qed

theorem lifecycle_entered_once_witness:
  "count_list (granted_states New [Initialized, Created, Running, Running, Stopping, Running]) Running
     \<le> (if Running = New \<or> New = Cleaned then 0 else 1)
   \<and> count_list (granted_states New [Initialized, Created, Running, Running, Stopping, Running]) Running = 1"
  using lifecycle_entered_once [of Running New "[Initialized, Created, Running, Running, Stopping, Running]"]
  by (simp add: granted_states_def transition_def)

text \<open>
  A runtime can always be cleaned up: from every state but cleaned, at most two requests, none of which
  is refused, reach it; cleaned itself refuses every request and stays.
\<close>

theorem lifecycle_cleanup_possible:
  "fst (transitions s (cleanup_requests s)) = Cleaned \<and> filter isl (snd (transitions s (cleanup_requests s))) = []
   \<and> length (cleanup_requests s) \<le> 2 \<and> fst (transitions Cleaned ts) = Cleaned"
proof -
  have "fst (transitions Cleaned ts) = Cleaned"
    by (induction ts) (auto simp: transition_def split: prod.splits)
  then show ?thesis by (cases s) (simp_all add: cleanup_requests_def transition_def)
qed

end
