(* ===== verification/Guest_Startup.thy ===== *)
theory Guest_Startup
  imports Transition_Table
begin

section \<open>The startup of a guest (guest/sendbox-guest/src/state.rs)\<close>

text \<open>
  The stages a guest supervisor goes through before an agent may be launched.  A stage is entered by a
  request that the table allows; a failure is recorded in any stage but the last two.
\<close>

datatype StartupState =
  AwaitingBootstrap | BootstrapConsumed | ManifestVerified | RuntimePrepared | ControlsVerified | ServicesStarting
| SelfTesting | Ready | AgentLaunchPermitted | ShuttingDown | Terminated | StartupFailed

fun startup_name :: "StartupState \<Rightarrow> rstr" where
  "startup_name AwaitingBootstrap = str ''awaiting_bootstrap''"
| "startup_name BootstrapConsumed = str ''bootstrap_consumed''"
| "startup_name ManifestVerified = str ''manifest_verified''"
| "startup_name RuntimePrepared = str ''runtime_prepared''"
| "startup_name ControlsVerified = str ''controls_verified''"
| "startup_name ServicesStarting = str ''services_starting''"
| "startup_name SelfTesting = str ''self_testing''"
| "startup_name Ready = str ''ready''"
| "startup_name AgentLaunchPermitted = str ''agent_launch_permitted''"
| "startup_name ShuttingDown = str ''shutting_down''"
| "startup_name Terminated = str ''terminated''"
| "startup_name StartupFailed = str ''failed''"

definition is_allowed :: "StartupState \<Rightarrow> StartupState \<Rightarrow> bool" where
  "is_allowed from to \<longleftrightarrow> (from, to) \<in>
     {(AwaitingBootstrap, BootstrapConsumed), (BootstrapConsumed, ManifestVerified), (ManifestVerified, RuntimePrepared),
      (RuntimePrepared, ServicesStarting), (ServicesStarting, ControlsVerified), (ControlsVerified, SelfTesting),
      (SelfTesting, Ready), (Ready, AgentLaunchPermitted), (Ready, ShuttingDown), (AgentLaunchPermitted, ShuttingDown),
      (StartupFailed, ShuttingDown), (ShuttingDown, Terminated)}"

datatype GuestTransitionError = InvalidTransition rstr rstr

definition startup_transition :: "StartupState \<Rightarrow> StartupState \<Rightarrow> StartupState \<times> (GuestTransitionError + unit)" where
  "startup_transition state next =
     (if \<not> is_allowed state next then (state, Inl (InvalidTransition (startup_name state) (startup_name next)))
      else (next, Inr ()))"

definition permit_agent_launch :: "StartupState \<Rightarrow> StartupState \<times> (GuestTransitionError + unit)" where
  "permit_agent_launch state = startup_transition state AgentLaunchPermitted"

definition fail :: "StartupState \<Rightarrow> StartupState" where
  "fail state = (if state \<noteq> ShuttingDown \<and> state \<noteq> Terminated then StartupFailed else state)"

text \<open>The calls a supervisor can make.\<close>

datatype startup_call = Transition StartupState | PermitAgentLaunch | Fail

fun startup_step :: "StartupState \<Rightarrow> startup_call \<Rightarrow> StartupState" where
  "startup_step s (Transition t) = fst (startup_transition s t)"
| "startup_step s PermitAgentLaunch = fst (permit_agent_launch s)"
| "startup_step s Fail = fail s"

definition startup_run :: "StartupState \<Rightarrow> startup_call list \<Rightarrow> StartupState" where
  "startup_run s calls = foldl startup_step s calls"

interpretation startup: transition_table is_allowed startup_transition
  by unfold_locales (simp_all add: startup_transition_def)

text \<open>The stages up to the launch, and those entered up to a given one.\<close>

definition launch_stages :: "StartupState list" where
  "launch_stages = [AwaitingBootstrap, BootstrapConsumed, ManifestVerified, RuntimePrepared, ServicesStarting,
     ControlsVerified, SelfTesting, Ready, AgentLaunchPermitted]"

definition stages_to :: "StartupState \<Rightarrow> StartupState list" where
  "stages_to s = tl (takeWhile (\<lambda>x. x \<noteq> s) launch_stages @ [s])"

text \<open>The states that a run enters, in order.\<close>

fun startup_entered :: "StartupState \<Rightarrow> startup_call list \<Rightarrow> StartupState list" where
  "startup_entered s [] = []"
| "startup_entered s (c # cs) =
     (if startup_step s c = s then startup_entered s cs else startup_step s c # startup_entered (startup_step s c) cs)"

lemma startup_run_append: "startup_run s (cs @ ds) = startup_run (startup_run s cs) ds"
  by (simp add: startup_run_def)

lemma startup_run_snoc: "startup_run s (cs @ [c]) = startup_step (startup_run s cs) c"
  by (simp add: startup_run_def)

lemma startup_entered_snoc:
  "startup_entered s (cs @ [c]) = startup_entered s cs
     @ (if startup_step (startup_run s cs) c = startup_run s cs then [] else [startup_step (startup_run s cs) c])"
  by (induction cs arbitrary: s) (simp_all add: startup_run_def)

lemma startup_step_cases:
  "startup_step s c = s \<or> is_allowed s (startup_step s c) \<or> startup_step s c = StartupFailed"
  by (cases c) (auto simp: startup_transition_def permit_agent_launch_def fail_def)

lemma stages_to_step:
  "is_allowed s t \<Longrightarrow> t \<in> set launch_stages \<Longrightarrow> s \<in> set launch_stages \<and> stages_to t = stages_to s @ [t]"
  by (auto simp: is_allowed_def stages_to_def launch_stages_def)

lemma startup_entered_launch:
  "startup_run AwaitingBootstrap cs \<in> set launch_stages \<Longrightarrow>
     startup_entered AwaitingBootstrap cs = stages_to (startup_run AwaitingBootstrap cs)"
proof (induction cs rule: rev_induct)
  case Nil
  show ?case by (simp add: startup_run_def stages_to_def launch_stages_def)
next
  case (snoc c cs)
  let ?s = "startup_run AwaitingBootstrap cs" and ?t = "startup_step (startup_run AwaitingBootstrap cs) c"
  have t: "?t \<in> set launch_stages" using snoc.prems by (simp add: startup_run_snoc)
  then have "?t = ?s \<or> is_allowed ?s ?t" using startup_step_cases [of ?s c] by (auto simp: launch_stages_def)
  then show ?case
    using snoc.IH t stages_to_step [of ?s ?t]
    by (cases "?t = ?s") (auto simp: startup_run_snoc startup_entered_snoc)
qed

text \<open>The states that a launch permission can never follow.\<close>

lemma startup_ended:
  "s \<in> {StartupFailed, ShuttingDown, Terminated} \<Longrightarrow> startup_run s cs \<in> {StartupFailed, ShuttingDown, Terminated}"
proof (induction cs rule: rev_induct)
  case Nil
  then show ?case by (simp add: startup_run_def)
next
  case (snoc c cs)
  then show ?case using startup_step_cases [of "startup_run s cs" c] by (auto simp: startup_run_snoc is_allowed_def)
qed

subsection \<open>Properties\<close>

text \<open>
  C22: Whatever calls the supervisor makes, an agent launch is permitted only in a run that entered every stage
  before it exactly once and in order (bootstrap, manifest, runtime, services, controls, self test, ready)
  and nothing else; once startup has failed or shutdown has begun, it is never permitted again.
\<close>

theorem launch_after_every_stage:
  "startup_run AwaitingBootstrap (cs @ ds) = AgentLaunchPermitted \<Longrightarrow>
     startup_entered AwaitingBootstrap (cs @ ds) = tl launch_stages
     \<and> startup_run AwaitingBootstrap cs \<notin> {StartupFailed, ShuttingDown, Terminated}"
  using startup_entered_launch [of "cs @ ds"] startup_ended [of "startup_run AwaitingBootstrap cs" ds]
  by (auto simp: startup_run_append stages_to_def launch_stages_def)

theorem launch_after_every_stage_witness:
  "startup_entered AwaitingBootstrap ([PermitAgentLaunch, Transition BootstrapConsumed] @ map Transition
      [ManifestVerified, RuntimePrepared, Ready, ServicesStarting, ControlsVerified, SelfTesting, Ready] @ [PermitAgentLaunch])
     = tl launch_stages
   \<and> startup_run AwaitingBootstrap [PermitAgentLaunch, Transition BootstrapConsumed] \<notin> {StartupFailed, ShuttingDown, Terminated}"
  by (rule launch_after_every_stage) (simp add: startup_run_def startup_transition_def permit_agent_launch_def is_allowed_def)

end
