(* ===== verification/Connect_Proto.thy ===== *)
theory Connect_Proto
  imports Address Wire
begin

section \<open>The CONNECT and SOCKS5 front ends (crates/sendbox-egress/src/connect_proto.rs, socks5.rs)\<close>

text \<open>
  The two binary protocols that clients of the connection broker speak.  A stream is the bytes that the peer
  sends before it closes; \<open>read_exact\<close> fails with an I/O error when they do not suffice.  The SOCKS5
  negotiation also returns the bytes it writes.  The round trips show that the decoders read what the encoder
  writes, up to the canonical form of addresses, and that they never read past their message.
\<close>

definition PROTOCOL_VERSION :: u8 where "PROTOCOL_VERSION = 1"
definition MAX_HOSTNAME_LEN :: nat where "MAX_HOSTNAME_LEN = 253"

datatype ConnectProtocol = ConnectTcp | ConnectUdp

definition protocol_u8 :: "ConnectProtocol \<Rightarrow> u8" where
  "protocol_u8 p = (case p of ConnectTcp \<Rightarrow> 1 | ConnectUdp \<Rightarrow> 2)"

definition ConnectProtocol_from_u8 :: "u8 \<Rightarrow> ConnectProtocol option" where
  "ConnectProtocol_from_u8 value =
     (if value = 1 then Some ConnectTcp else if value = 2 then Some ConnectUdp else None)"

datatype ConnectTarget = Hostname rstr | TargetIp IpAddr

record ConnectRequest =
  cr_protocol :: ConnectProtocol
  cr_port :: u16
  cr_target :: ConnectTarget
  cr_expected_ip :: "IpAddr option"

datatype ConnectStatus =
  StatusOk | PolicyDenied | ResolutionFailed | ConnectFailed | LimitExceeded | StatusMalformed
| UnsupportedProtocol | ExpectedIpMismatch | StatusTimeout

definition status_u8 :: "ConnectStatus \<Rightarrow> u8" where
  "status_u8 s =
     (case s of StatusOk \<Rightarrow> 0 | PolicyDenied \<Rightarrow> 1 | ResolutionFailed \<Rightarrow> 2 | ConnectFailed \<Rightarrow> 3
      | LimitExceeded \<Rightarrow> 4 | StatusMalformed \<Rightarrow> 5 | UnsupportedProtocol \<Rightarrow> 6 | ExpectedIpMismatch \<Rightarrow> 7
      | StatusTimeout \<Rightarrow> 8)"

definition status_as_str :: "ConnectStatus \<Rightarrow> string" where
  "status_as_str s =
     (case s of StatusOk \<Rightarrow> ''ok'' | PolicyDenied \<Rightarrow> ''policy_denied'' | ResolutionFailed \<Rightarrow> ''resolution_failed''
      | ConnectFailed \<Rightarrow> ''connect_failed'' | LimitExceeded \<Rightarrow> ''limit_exceeded'' | StatusMalformed \<Rightarrow> ''malformed''
      | UnsupportedProtocol \<Rightarrow> ''unsupported_protocol'' | ExpectedIpMismatch \<Rightarrow> ''expected_ip_mismatch''
      | StatusTimeout \<Rightarrow> ''timeout'')"

datatype ConnectProtoError = CUnsupportedVersion u8 | CMalformed string | CIo

subsection \<open>Addresses and exact reads\<close>

definition v4_octets :: "32 word \<Rightarrow> bytes" where "v4_octets a = to_be 4 (unat a)"
definition v6_octets :: "128 word \<Rightarrow> bytes" where "v6_octets a = to_be 16 (unat a)"
definition v4_from :: "bytes \<Rightarrow> IpAddr" where "v4_from bs = V4 (word_of_nat (from_be bs))"
definition v6_from :: "bytes \<Rightarrow> IpAddr" where "v6_from bs = V6 (word_of_nat (from_be bs))"

definition read_exact :: "'e \<Rightarrow> nat \<Rightarrow> ('e, bytes) decoder" where
  "read_exact io n bs = (if n \<le> length bs then Inr (take n bs, drop n bs) else Inl io)"

text \<open>One byte, \<open>[0u8; 1]\<close>.\<close>

definition read_byte :: "'e \<Rightarrow> ('e, u8) decoder" where
  "read_byte io = and_then (read_exact io 1) (\<lambda>bs. yield (hd bs))"

subsection \<open>CONNECT requests\<close>

fun encode_ip :: "IpAddr \<Rightarrow> bytes" where
  "encode_ip (V4 a) = 4 # v4_octets a"
| "encode_ip (V6 a) = 6 # v6_octets a"

definition encode_request :: "ConnectRequest \<Rightarrow> bytes" where
  "encode_request r =
     [PROTOCOL_VERSION, protocol_u8 (cr_protocol r)] @ to_be 2 (unat (cr_port r))
     @ (case cr_target r of
          Hostname host \<Rightarrow>
            (let bs = as_bytes host; n = min (length bs) MAX_HOSTNAME_LEN
             in 1 # word_of_nat n # take n bs)
        | TargetIp ip \<Rightarrow> 2 # encode_ip ip)
     @ (case cr_expected_ip r of Some ip \<Rightarrow> 1 # encode_ip ip | None \<Rightarrow> [0])"

definition read_ip :: "(ConnectProtoError, IpAddr) decoder" where
  "read_ip = and_then (read_byte CIo) (\<lambda>version.
     if version = 4 then and_then (read_exact CIo 4) (\<lambda>octets. yield (canonicalize (v4_from octets)))
     else if version = 6 then and_then (read_exact CIo 16) (\<lambda>octets. yield (canonicalize (v6_from octets)))
     else throw (CMalformed ''invalid ip version byte''))"

definition read_target :: "(ConnectProtoError, ConnectTarget) decoder" where
  "read_target = and_then (read_byte CIo) (\<lambda>kind.
     if kind = 1 then
       and_then (read_byte CIo) (\<lambda>len.
         if len = 0 \<or> unat len > MAX_HOSTNAME_LEN then throw (CMalformed ''hostname length out of bounds'')
         else and_then (read_exact CIo (unat len)) (\<lambda>host_bytes.
           case from_utf8 host_bytes of
             None \<Rightarrow> throw (CMalformed ''hostname not utf8'')
           | Some host \<Rightarrow> yield (Hostname host)))
     else if kind = 2 then and_then read_ip (\<lambda>ip. yield (TargetIp ip))
     else throw (CMalformed ''unknown target kind''))"

definition read_expected :: "(ConnectProtoError, IpAddr option) decoder" where
  "read_expected = and_then (read_byte CIo) (\<lambda>has_expected.
     if has_expected = 0 then yield None
     else if has_expected = 1 then and_then read_ip (\<lambda>ip. yield (Some ip))
     else throw (CMalformed ''invalid has_expected_ip flag''))"

definition decode_request :: "(ConnectProtoError, ConnectRequest) decoder" where
  "decode_request = and_then (read_exact CIo 4) (\<lambda>header.
     if header ! 0 \<noteq> PROTOCOL_VERSION then throw (CUnsupportedVersion (header ! 0))
     else case ConnectProtocol_from_u8 (header ! 1) of
         None \<Rightarrow> throw (CMalformed ''unknown protocol'')
       | Some protocol \<Rightarrow>
           and_then read_target (\<lambda>target. and_then read_expected (\<lambda>expected.
             yield \<lparr>cr_protocol = protocol, cr_port = word_of_nat (from_be [header ! 2, header ! 3]),
                    cr_target = target, cr_expected_ip = expected\<rparr>)))"

definition status_frame :: "ConnectStatus \<Rightarrow> bytes" where
  "status_frame status = [PROTOCOL_VERSION, status_u8 status]"

subsection \<open>SOCKS5\<close>

definition SOCKS_VERSION :: u8 where "SOCKS_VERSION = 5"
definition METHOD_NO_AUTH :: u8 where "METHOD_NO_AUTH = 0"
definition METHOD_NONE_ACCEPTABLE :: u8 where "METHOD_NONE_ACCEPTABLE = 255"

datatype Socks5Command = SocksConnect | SocksBind | SocksUdpAssociate

datatype Socks5Reply =
  Succeeded | GeneralFailure | NotAllowed | NetworkUnreachable | HostUnreachable | ConnectionRefused
| TtlExpired | CommandNotSupported | AddressTypeNotSupported

definition reply_u8 :: "Socks5Reply \<Rightarrow> u8" where
  "reply_u8 r =
     (case r of Succeeded \<Rightarrow> 0 | GeneralFailure \<Rightarrow> 1 | NotAllowed \<Rightarrow> 2 | NetworkUnreachable \<Rightarrow> 3 | HostUnreachable \<Rightarrow> 4
      | ConnectionRefused \<Rightarrow> 5 | TtlExpired \<Rightarrow> 6 | CommandNotSupported \<Rightarrow> 7 | AddressTypeNotSupported \<Rightarrow> 8)"

record Socks5Request =
  sr_command :: Socks5Command
  sr_target :: ConnectTarget
  sr_port :: u16

datatype Socks5Error =
  SUnsupportedVersion u8 | NoAcceptableMethods | UnsupportedAddressType u8 | SMalformed string | SIo

text \<open>The result of the negotiation, the bytes written to the client and the bytes left unread.\<close>

definition negotiate :: "bytes \<Rightarrow> (Socks5Error + unit) \<times> bytes \<times> bytes" where
  "negotiate input =
     (case read_exact SIo 2 input of
        Inl e \<Rightarrow> (Inl e, [], input)
      | Inr (header, rest) \<Rightarrow>
          if header ! 0 \<noteq> SOCKS_VERSION then (Inl (SUnsupportedVersion (header ! 0)), [], rest)
          else if header ! 1 = 0 then (Inl (SMalformed ''no methods offered''), [], rest)
          else case read_exact SIo (unat (header ! 1)) rest of
              Inl e \<Rightarrow> (Inl e, [], rest)
            | Inr (methods, rest') \<Rightarrow>
                if METHOD_NO_AUTH \<notin> set methods
                then (Inl NoAcceptableMethods, [SOCKS_VERSION, METHOD_NONE_ACCEPTABLE], rest')
                else (Inr (), [SOCKS_VERSION, METHOD_NO_AUTH], rest'))"

definition socks_command :: "u8 \<Rightarrow> Socks5Command option" where
  "socks_command b =
     (if b = 1 then Some SocksConnect else if b = 2 then Some SocksBind
      else if b = 3 then Some SocksUdpAssociate else None)"

definition socks_target :: "u8 \<Rightarrow> (Socks5Error, ConnectTarget) decoder" where
  "socks_target kind =
     (if kind = 1 then and_then (read_exact SIo 4) (\<lambda>octets. yield (TargetIp (canonicalize (v4_from octets))))
      else if kind = 4 then and_then (read_exact SIo 16) (\<lambda>octets. yield (TargetIp (canonicalize (v6_from octets))))
      else if kind = 3 then
        and_then (read_byte SIo) (\<lambda>len.
          if len = 0 then throw (SMalformed ''empty domain'')
          else and_then (read_exact SIo (unat len)) (\<lambda>buf.
            case from_utf8 buf of
              None \<Rightarrow> throw (SMalformed ''domain not utf8'')
            | Some host \<Rightarrow> yield (Hostname host)))
      else throw (UnsupportedAddressType kind))"

definition socks_read_request :: "(Socks5Error, Socks5Request) decoder" where
  "socks_read_request = and_then (read_exact SIo 4) (\<lambda>header.
     if header ! 0 \<noteq> SOCKS_VERSION then throw (SUnsupportedVersion (header ! 0))
     else case socks_command (header ! 1) of
         None \<Rightarrow> throw (SMalformed ''unknown command'')
       | Some command \<Rightarrow>
           and_then (socks_target (header ! 3)) (\<lambda>target. and_then (read_exact SIo 2) (\<lambda>port.
             yield \<lparr>sr_command = command, sr_target = target, sr_port = word_of_nat (from_be port)\<rparr>)))"

fun socks_reply :: "Socks5Reply \<Rightarrow> IpAddr \<times> u16 \<Rightarrow> bytes" where
  "socks_reply reply (V4 a, port) =
     [SOCKS_VERSION, reply_u8 reply, 0, 1] @ v4_octets a @ to_be 2 (unat port)"
| "socks_reply reply (V6 a, port) =
     [SOCKS_VERSION, reply_u8 reply, 0, 4] @ v6_octets a @ to_be 2 (unat port)"

definition socks_failure :: "Socks5Reply \<Rightarrow> bytes" where
  "socks_failure reply = socks_reply reply (V4 0, 0)"

subsection \<open>Reading back\<close>

lemma read_exact_hit: "length bs = n \<Longrightarrow> read_exact io n (bs @ rest) = Inr (bs, rest)"
  by (simp add: read_exact_def)

lemma read_byte_hit: "read_byte io (b # rest) = Inr (b, rest)"
  by (simp add: read_byte_def and_then_def read_exact_def yield_def)

lemma octets_inverse [simp]: "v4_from (v4_octets a) = V4 a" "v6_from (v6_octets b) = V6 b"
proof -
  have "unat a < 256 ^ 4" "unat b < 256 ^ 16" using unat_less [of a] unat_less [of b] by simp_all
  then show "v4_from (v4_octets a) = V4 a" "v6_from (v6_octets b) = V6 b"
    by (simp_all add: v4_from_def v6_from_def v4_octets_def v6_octets_def from_be_to_be del: power_numeral)
qed

lemma length_octets [simp]: "length (v4_octets a) = 4" "length (v6_octets b) = 16"
  by (simp_all add: v4_octets_def v6_octets_def)

lemma port_inverse: "word_of_nat (from_be (to_be 2 (unat p))) = (p :: u16)"
proof -
  have "unat p < 256 ^ 2" using unat_less [of p] by simp
  then show ?thesis by (simp add: from_be_to_be)
qed

lemma read_ip_hit: "read_ip (encode_ip ip @ rest) = Inr (canonicalize ip, rest)"
  by (cases ip) (simp_all add: read_ip_def and_then_def read_byte_hit read_exact_hit yield_def)

text \<open>The requests the encoder does not clamp: hosts of one to 253 bytes.\<close>

definition request_ok :: "ConnectRequest \<Rightarrow> bool" where
  "request_ok r \<longleftrightarrow> (case cr_target r of
     Hostname host \<Rightarrow> host \<noteq> [] \<and> rlen host \<le> MAX_HOSTNAME_LEN \<and> list_all scalar host | TargetIp _ \<Rightarrow> True)"

fun canonical_target :: "ConnectTarget \<Rightarrow> ConnectTarget" where
  "canonical_target (Hostname host) = Hostname host"
| "canonical_target (TargetIp ip) = TargetIp (canonicalize ip)"

definition canonical_request :: "ConnectRequest \<Rightarrow> ConnectRequest" where
  "canonical_request r = r\<lparr>cr_target := canonical_target (cr_target r),
                          cr_expected_ip := map_option canonicalize (cr_expected_ip r)\<rparr>"

lemma rlen_pos: "s \<noteq> [] \<Longrightarrow> 0 < rlen s"
  by (cases s) (auto simp: utf8_width_def)

lemma read_host_hit:
  assumes "host \<noteq> []" "rlen host \<le> 255" "list_all scalar host"
  shows "read_exact io (unat (word_of_nat (rlen host) :: u8)) (as_bytes host @ rest) = Inr (as_bytes host, rest)"
    and "from_utf8 (as_bytes host) = Some host" and "(word_of_nat (rlen host) :: u8) \<noteq> 0"
    and "unat (word_of_nat (rlen host) :: u8) = rlen host"
proof -
  show len: "unat (word_of_nat (rlen host) :: u8) = rlen host"
    using assms(2) by (simp add: unat_of_nat take_bit_nat_def)
  then show "read_exact io (unat (word_of_nat (rlen host) :: u8)) (as_bytes host @ rest) = Inr (as_bytes host, rest)"
    by (intro read_exact_hit) (simp add: length_as_bytes)
  show "(word_of_nat (rlen host) :: u8) \<noteq> 0" using len rlen_pos [OF assms(1)] by (metis less_irrefl unat_0)
  show "from_utf8 (as_bytes host) = Some host" using assms(3) by (intro from_utf8_as_bytes) (simp add: list_all_iff)
qed

lemma read_expected_hit:
  "read_expected ((case e of Some ip \<Rightarrow> 1 # encode_ip ip | None \<Rightarrow> [0]) @ rest) = Inr (map_option canonicalize e, rest)"
  by (cases e) (simp_all add: read_expected_def and_then_def read_byte_hit read_ip_hit yield_def)

lemma read_target_host_hit:
  assumes "host \<noteq> []" "rlen host \<le> MAX_HOSTNAME_LEN" "list_all scalar host"
  shows "read_target (1 # word_of_nat (rlen host) # as_bytes host @ rest) = Inr (Hostname host, rest)"
proof -
  note h = read_host_hit [OF assms(1) _ assms(3)]
  have "rlen host \<le> 255" using assms(2) by (simp add: MAX_HOSTNAME_LEN_def)
  then show ?thesis
    using h(1) [of CIo] h(2-4) assms(2) by (simp add: read_target_def and_then_def read_byte_hit yield_def)
qed

lemma protocol_inverse: "ConnectProtocol_from_u8 (protocol_u8 p) = Some p"
  by (cases p) (simp_all add: ConnectProtocol_from_u8_def protocol_u8_def)

lemma request_read_back:
  assumes "request_ok r"
  shows "decode_request (encode_request r @ rest) = Inr (canonical_request r, rest)"
proof -
  have target: "read_target ((case cr_target r of
          Hostname host \<Rightarrow> (let bs = as_bytes host; n = min (length bs) MAX_HOSTNAME_LEN in 1 # word_of_nat n # take n bs)
        | TargetIp ip \<Rightarrow> 2 # encode_ip ip) @ more) = Inr (canonical_target (cr_target r), more)" for more
  proof (cases "cr_target r")
    case (Hostname host)
    with assms show ?thesis by (simp add: request_ok_def length_as_bytes read_target_host_hit)
  next
    case (TargetIp ip)
    then show ?thesis by (simp add: read_target_def and_then_def read_byte_hit read_ip_hit yield_def)
  qed
  obtain p0 p1 where p: "to_be 2 (unat (cr_port r)) = [p0, p1]" by (simp add: numeral_2_eq_2)
  have "word_of_nat (from_be [p0, p1]) = cr_port r" using port_inverse [of "cr_port r"] p by simp
  moreover have "read_exact CIo 4 ([PROTOCOL_VERSION, protocol_u8 (cr_protocol r)] @ [p0, p1] @ more)
    = Inr ([PROTOCOL_VERSION, protocol_u8 (cr_protocol r), p0, p1], more)" for more
    by (simp add: read_exact_def)
  ultimately show ?thesis
    unfolding decode_request_def encode_request_def p append_assoc
    by (simp add: and_then_def protocol_inverse target read_expected_hit canonical_request_def yield_def)
qed

text \<open>
  C33: The broker reads exactly what a client encodes: decoding an encoded request, whatever bytes follow,
  returns the request with its addresses in canonical form and leaves the bytes that follow unread.
\<close>

theorem connect_request_roundtrip:
  assumes "request_ok r"
  shows "decode_request (encode_request r @ rest) = Inr (canonical_request r, rest)"
  using assms by (rule request_read_back)

theorem connect_request_roundtrip_witness:
  "decode_request (encode_request \<lparr>cr_protocol = ConnectTcp, cr_port = 443, cr_target = Hostname (str ''a.io''),
       cr_expected_ip = Some (V6 0xffff0a000001)\<rparr> @ [7]) =
   Inr (\<lparr>cr_protocol = ConnectTcp, cr_port = 443, cr_target = Hostname (str ''a.io''), cr_expected_ip = Some (V4 0x0a000001)\<rparr>, [7])"
proof -
  have ok: "request_ok \<lparr>cr_protocol = ConnectTcp, cr_port = 443, cr_target = Hostname (str ''a.io''), cr_expected_ip = e\<rparr>" for e
    by (simp add: request_ok_def MAX_HOSTNAME_LEN_def scalar_def utf8_width_def)
  have "canonicalize (V6 0xffff0a000001) = V4 0x0a000001" by code_simp
  then show ?thesis
    using connect_request_roundtrip [OF ok, of "Some (V6 0xffff0a000001)" "[7]"] by (simp add: canonical_request_def)
qed

end
