(* ===== verification/Origin_Reservations.thy ===== *)
theory Origin_Reservations
  imports Domain Ip_Parse
begin

section \<open>Reserved MCP origins (crates/sendbox-egress/src/origin.rs)\<close>

text \<open>
  The origins of remote MCP servers are reserved: the connection broker refuses them, so that they are reached
  through the MCP gateway only.  The ordered sets are sets; the lock makes each method one step and is
  poisoned by a panic of another holder.  \<^verbatim>\<open>IpAddr::to_string\<close> is the standard library's.
\<close>

definition MAX_OBSERVED_NAMES_PER_ORIGIN :: nat where "MAX_OBSERVED_NAMES_PER_ORIGIN = 64"
definition MAX_OBSERVED_ADDRESSES_PER_ORIGIN :: nat where "MAX_OBSERVED_ADDRESSES_PER_ORIGIN = 256"

datatype OriginReservationError = InvalidHost rstr | InvalidPort | Poisoned | CapacityExceeded

record McpHttpOrigin =
  og_host :: rstr
  og_port :: u16

record OriginReservations =
  remote_mcp_active :: bool
  max_names :: nat
  max_addresses :: nat
  reservations_poisoned :: bool
  reserved_names :: "(rstr \<times> u16) set"
  reserved_addresses :: "(IpAddr \<times> u16) set"

subsection \<open>Addresses as text\<close>

definition show_v4 :: "u32 \<Rightarrow> rstr" where
  "show_v4 a = join_with 46 (map (\<lambda>i. show_nat (unat (octet a i))) [0, 1, 2, 3])"

fun show_hex :: "nat \<Rightarrow> nat \<Rightarrow> rstr" where
  "show_hex 0 n = []"
| "show_hex (Suc k) n =
     (if n = 0 then [] else show_hex k (n div 16) @ [if n mod 16 < 10 then 48 + int (n mod 16) else 87 + int (n mod 16)])"

definition show_segment :: "u16 \<Rightarrow> rstr" where
  "show_segment s = (if s = 0 then str ''0'' else show_hex 4 (unat s))"

text \<open>The first of the longest runs of zero segments, as its start and length.\<close>

fun zero_span :: "nat \<Rightarrow> u16 list \<Rightarrow> nat \<times> nat \<Rightarrow> nat \<times> nat \<Rightarrow> nat \<times> nat" where
  "zero_span i [] current longest = longest"
| "zero_span i (s # segments) current longest =
     (if s = 0 then
        (let start = (if snd current = 0 then i else fst current); c = (start, snd current + 1)
         in zero_span (Suc i) segments c (if snd c > snd longest then c else longest))
      else zero_span (Suc i) segments (0, 0) longest)"

definition show_v6 :: "128 word \<Rightarrow> rstr" where
  "show_v6 a =
     (case to_ipv4_mapped a of
        Some v4 \<Rightarrow> str ''::ffff:'' @ show_v4 v4
      | None \<Rightarrow>
          (let segments = map (segment a) [0..<8]; (start, len) = zero_span 0 segments (0, 0) (0, 0);
               chunk = (\<lambda>ss. join_with 58 (map show_segment ss))
           in if len > 1 then chunk (take start segments) @ str ''::'' @ chunk (drop (start + len) segments)
              else chunk segments))"

definition show_ip :: "IpAddr \<Rightarrow> rstr" where
  "show_ip ip = (case ip of V4 a \<Rightarrow> show_v4 a | V6 a \<Rightarrow> show_v6 a)"

subsection \<open>Operations\<close>

definition normalize_host :: "rstr \<Rightarrow> OriginReservationError + rstr" where
  "normalize_host host =
     (case parse_IpAddr host of
        Some address \<Rightarrow> Inr (show_ip (canonicalize address))
      | None \<Rightarrow> (case normalize_domain host of Inl _ \<Rightarrow> Inl (InvalidHost host) | Inr n \<Rightarrow> Inr n))"

definition reservations_default :: OriginReservations where
  "reservations_default =
     \<lparr>remote_mcp_active = False, max_names = 0, max_addresses = 0, reservations_poisoned = False,
      reserved_names = {}, reserved_addresses = {}\<rparr>"

definition reserve_configured ::
  "OriginReservations \<Rightarrow> rstr \<Rightarrow> u16 \<Rightarrow> OriginReservationError + OriginReservations" where
  "reserve_configured r host port =
     (if port = 0 then Inl InvalidPort
      else case normalize_host host of
          Inl e \<Rightarrow> Inl e
        | Inr n \<Rightarrow>
            if reservations_poisoned r then Inl Poisoned
            else if (n, port) \<notin> reserved_names r \<and> card (reserved_names r) \<ge> max_names r
            then Inl CapacityExceeded
            else Inr (r\<lparr>reserved_names := insert (n, port) (reserved_names r)\<rparr>))"

fun reserve_origins :: "OriginReservations \<Rightarrow> McpHttpOrigin list \<Rightarrow> OriginReservationError + OriginReservations" where
  "reserve_origins r [] = Inr r"
| "reserve_origins r (origin # origins) =
     (case reserve_configured r (og_host origin) (og_port origin) of
        Inl e \<Rightarrow> Inl e
      | Inr r' \<Rightarrow> reserve_origins r' origins)"

text \<open>\<^verbatim>\<open>checked_mul\<close> of a 64-bit \<^verbatim>\<open>usize\<close>.\<close>

definition OriginReservations_new :: "McpHttpOrigin list \<Rightarrow> OriginReservationError + OriginReservations" where
  "OriginReservations_new origins =
     (let names = length origins * (MAX_OBSERVED_NAMES_PER_ORIGIN + 1);
          addresses = length origins * MAX_OBSERVED_ADDRESSES_PER_ORIGIN
      in if names \<ge> 2 ^ 64 \<or> addresses \<ge> 2 ^ 64 then Inl CapacityExceeded
         else reserve_origins
           \<lparr>remote_mcp_active = (origins \<noteq> []), max_names = names, max_addresses = addresses,
            reservations_poisoned = False, reserved_names = {}, reserved_addresses = {}\<rparr> origins)"

definition resolution_names :: "rstr \<Rightarrow> u16 \<Rightarrow> rstr list \<Rightarrow> OriginReservationError + (rstr \<times> u16) set" where
  "resolution_names host port aliases =
     (case try_map normalize_host aliases of
        Inl e \<Rightarrow> Inl e
      | Inr ns \<Rightarrow>
          (case normalize_host host of
             Inl e \<Rightarrow> Inl e
           | Inr n \<Rightarrow> Inr (insert (n, port) ((\<lambda>a. (a, port)) ` set ns))))"

definition reserve_resolution ::
  "OriginReservations \<Rightarrow> rstr \<Rightarrow> u16 \<Rightarrow> rstr list \<Rightarrow> IpAddr list \<Rightarrow> OriginReservationError + OriginReservations" where
  "reserve_resolution r host port aliases ips =
     (if port = 0 then Inl InvalidPort
      else case resolution_names host port aliases of
          Inl e \<Rightarrow> Inl e
        | Inr names \<Rightarrow>
            (let addresses = (\<lambda>ip. (canonicalize ip, port)) ` set ips
             in if reservations_poisoned r then Inl Poisoned
                else if saturating_add 64 (card (reserved_names r)) (card (names - reserved_names r)) > max_names r
                  \<or> saturating_add 64 (card (reserved_addresses r)) (card (addresses - reserved_addresses r)) > max_addresses r
                then Inl CapacityExceeded
                else Inr (r\<lparr>reserved_names := reserved_names r \<union> names,
                           reserved_addresses := reserved_addresses r \<union> addresses\<rparr>)))"

definition denies_hostname :: "OriginReservations \<Rightarrow> rstr \<Rightarrow> u16 \<Rightarrow> OriginReservationError + bool" where
  "denies_hostname r host port =
     (case normalize_host host of
        Inl e \<Rightarrow> Inl e
      | Inr n \<Rightarrow> if reservations_poisoned r then Inl Poisoned else Inr ((n, port) \<in> reserved_names r))"

definition denies_direct_ip :: "OriginReservations \<Rightarrow> IpAddr \<Rightarrow> u16 \<Rightarrow> OriginReservationError + bool" where
  "denies_direct_ip r ip port =
     (if remote_mcp_active r then Inr True
      else if reservations_poisoned r then Inl Poisoned
      else Inr ((canonicalize ip, port) \<in> reserved_addresses r))"

subsection \<open>What stays reserved\<close>

text \<open>The resolutions observed while the broker runs; a refused one changes nothing.\<close>

fun reserve_run :: "OriginReservations \<Rightarrow> (rstr \<times> u16 \<times> rstr list \<times> IpAddr list) list \<Rightarrow> OriginReservations" where
  "reserve_run r [] = r"
| "reserve_run r ((host, port, aliases, ips) # calls) =
     reserve_run (case reserve_resolution r host port aliases ips of Inl _ \<Rightarrow> r | Inr r' \<Rightarrow> r') calls"

definition reservations_wf :: "OriginReservations \<Rightarrow> bool" where
  "reservations_wf r \<longleftrightarrow> \<not> reservations_poisoned r \<and> finite (reserved_names r) \<and> finite (reserved_addresses r)
     \<and> card (reserved_names r) \<le> max_names r \<and> card (reserved_addresses r) \<le> max_addresses r
     \<and> max_names r < 2 ^ 64 - 1 \<and> max_addresses r < 2 ^ 64 - 1"

lemma saturating_le: "saturating_add 64 a b \<le> m \<Longrightarrow> m < 2 ^ 64 - 1 \<Longrightarrow> a + b \<le> m"
  by (auto simp: saturating_add_def min_def split: if_splits)

lemma card_add: "finite A \<Longrightarrow> finite B \<Longrightarrow> card (A \<union> B) = card A + card (B - A)"
  using card_Un_disjoint [of A "B - A"] by simp

lemma resolution_names_finite: "resolution_names host port aliases = Inr names \<Longrightarrow> finite names"
  by (auto simp: resolution_names_def split: sum.splits)

lemma reserve_resolution_Inr:
  assumes "reservations_wf r" "reserve_resolution r host port aliases ips = Inr r'"
  obtains names where "resolution_names host port aliases = Inr names" "reservations_wf r'"
    "reserved_names r' = reserved_names r \<union> names" "remote_mcp_active r' = remote_mcp_active r"
    "max_names r' = max_names r" "max_addresses r' = max_addresses r"
proof -
  from assms(2) obtain names where n: "resolution_names host port aliases = Inr names"
    and r': "r' = r\<lparr>reserved_names := reserved_names r \<union> names,
               reserved_addresses := reserved_addresses r \<union> (\<lambda>ip. (canonicalize ip, port)) ` set ips\<rparr>"
    and le: "saturating_add 64 (card (reserved_names r)) (card (names - reserved_names r)) \<le> max_names r"
      "saturating_add 64 (card (reserved_addresses r))
         (card ((\<lambda>ip. (canonicalize ip, port)) ` set ips - reserved_addresses r)) \<le> max_addresses r"
    by (auto simp: reserve_resolution_def Let_def split: if_splits sum.splits)
  have "reservations_wf r'"
    using assms(1) le r' resolution_names_finite [OF n]
    by (auto simp: reservations_wf_def card_add intro!: saturating_le)
  with n r' show thesis by (intro that) simp_all
qed

lemma reserve_run_keeps:
  "reservations_wf r \<Longrightarrow> reservations_wf (reserve_run r calls) \<and> reserved_names r \<subseteq> reserved_names (reserve_run r calls)
   \<and> remote_mcp_active (reserve_run r calls) = remote_mcp_active r \<and> max_names (reserve_run r calls) = max_names r
   \<and> max_addresses (reserve_run r calls) = max_addresses r"
proof (induction calls arbitrary: r)
  case (Cons call calls)
  obtain host port aliases ips where c: "call = (host, port, aliases, ips)" by (cases call)
  show ?case
  proof (cases "reserve_resolution r host port aliases ips")
    case (Inr r')
    from reserve_resolution_Inr [OF Cons.prems Inr] have
      "reservations_wf r'" "reserved_names r \<subseteq> reserved_names r'" "remote_mcp_active r' = remote_mcp_active r"
      "max_names r' = max_names r" "max_addresses r' = max_addresses r" by auto
    with Cons.IH [of r'] c Inr show ?thesis by auto
  qed (use Cons c in simp)
qed simp

lemma reserve_run_from:
  "reservations_wf r \<Longrightarrow> x \<in> reserved_names (reserve_run r calls) \<Longrightarrow> x \<in> reserved_names r
   \<or> (\<exists>(host, port, aliases, ips) \<in> set calls. \<exists>names. resolution_names host port aliases = Inr names \<and> x \<in> names)"
proof (induction calls arbitrary: r)
  case (Cons call calls)
  obtain host port aliases ips where c: "call = (host, port, aliases, ips)" by (cases call)
  show ?case
  proof (cases "reserve_resolution r host port aliases ips")
    case (Inr r')
    then obtain names where "resolution_names host port aliases = Inr names" "reservations_wf r'"
      "reserved_names r' = reserved_names r \<union> names"
      using reserve_resolution_Inr [OF Cons.prems(1) Inr] by metis
    with Cons.IH [of r'] Cons.prems(2) c Inr show ?thesis by auto
  qed (use Cons c in auto)
qed simp

lemma reserve_origins_Inr:
  "reserve_origins r origins = Inr r' \<Longrightarrow> \<not> reservations_poisoned r \<Longrightarrow> finite (reserved_names r) \<Longrightarrow>
   card (reserved_names r) \<le> max_names r \<Longrightarrow>
   \<not> reservations_poisoned r' \<and> finite (reserved_names r') \<and> card (reserved_names r') \<le> max_names r'
   \<and> reserved_names r' = reserved_names r \<union> {(n, og_port og) | n og. og \<in> set origins \<and> normalize_host (og_host og) = Inr n}
   \<and> list_all (\<lambda>og. \<exists>n. normalize_host (og_host og) = Inr n) origins
   \<and> reserved_addresses r' = reserved_addresses r \<and> remote_mcp_active r' = remote_mcp_active r
   \<and> max_names r' = max_names r \<and> max_addresses r' = max_addresses r"
proof (induction origins arbitrary: r)
  case (Cons og origins)
  from Cons.prems(1) obtain n where n: "normalize_host (og_host og) = Inr n"
    and room: "(n, og_port og) \<in> reserved_names r \<or> card (reserved_names r) < max_names r"
    and rest: "reserve_origins (r\<lparr>reserved_names := insert (n, og_port og) (reserved_names r)\<rparr>) origins = Inr r'"
    by (auto simp: reserve_configured_def split: sum.splits if_splits)
  have "card (insert (n, og_port og) (reserved_names r)) \<le> max_names r"
    using room Cons.prems(3,4) by (auto simp: card_insert_if)
  with Cons.IH [OF rest] Cons.prems n show ?case by auto
qed simp

lemma new_reservations:
  assumes "OriginReservations_new origins = Inr r" "length origins < 2 ^ 55"
  shows "reservations_wf r" "remote_mcp_active r \<longleftrightarrow> origins \<noteq> []"
    "max_names r = 65 * length origins" "max_addresses r = 256 * length origins"
    "reserved_names r = {(n, og_port og) | n og. og \<in> set origins \<and> normalize_host (og_host og) = Inr n}"
    "list_all (\<lambda>og. \<exists>n. normalize_host (og_host og) = Inr n) origins"
  using assms reserve_origins_Inr [of "\<lparr>remote_mcp_active = (origins \<noteq> []), max_names = length origins * 65,
      max_addresses = length origins * 256, reservations_poisoned = False, reserved_names = {},
      reserved_addresses = {}\<rparr>" origins r]
  by (auto simp: OriginReservations_new_def MAX_OBSERVED_NAMES_PER_ORIGIN_def MAX_OBSERVED_ADDRESSES_PER_ORIGIN_def
    reservations_wf_def mult.commute split: if_splits)


lemma example_origin:
  "normalize_host (str ''API.io.'') = Inr (str ''api.io'')" "normalize_host (str ''api.io'') = Inr (str ''api.io'')"
  by code_simp+


end
