(* ===== verification/Egress_Effects.thy ===== *)
theory Egress_Effects
  imports Egress_Policy Auth_Cache Dns_Budget Origin_Reservations Connect_Proto "HOL-Library.State_Monad"
begin

section \<open>What the egress brokers share\<close>

text \<open>
  The resolver interface (crates/sendbox-egress/src/resolver.rs), the audit events (audit.rs), and the effects
  of the brokers.  Many handlers run at once over the authorization cache, the query budget, the reserved
  origins and the published GitHub scope, each behind its own lock.  A handler is a program over its run: each
  access to shared state is one step, and before it the other handlers may have changed that state in any way,
  which \<open>run_others\<close> lists.  \<open>run_trace\<close> records what the handler saw and did, in order.
  The type of DNS names is the \<^verbatim>\<open>hickory_proto\<close> crate's: its operations are the fields of \<open>name_ops\<close>.
\<close>

subsection \<open>Resolution\<close>

record 'name name_ops =
  name_to_utf8 :: "'name \<Rightarrow> rstr"
  name_from_ascii :: "rstr \<Rightarrow> 'name option"
  name_eq :: "'name \<Rightarrow> 'name \<Rightarrow> bool"

record ResolvedAddress =
  ra_ip :: IpAddr
  ra_ttl_secs :: nat

record 'name ResolvedChain =
  cname_chain :: "'name list"
  final_name :: 'name
  rc_addresses :: "ResolvedAddress list"

definition names_to_validate :: "'name ResolvedChain \<Rightarrow> 'name list" where
  "names_to_validate chain = cname_chain chain @ [final_name chain]"

datatype ResolveFailureKind =
  FailNxdomain | FailTimeout | FailBrokerTimeout | FailIo | FailInvalidResponse | FailResponseCode | FailUpstream

datatype DnsTransport = TransportUdp | TransportTcp
datatype DnsOperation = OpBind | OpConnect | OpSend | OpReceive | OpReadLength | OpReadBody

type_synonym SocketAddr = "IpAddr \<times> u16"

text \<open>\<^verbatim>\<open>io::Error\<close>: the name of its kind and the code of the operating system.\<close>

record io_error =
  io_kind :: string
  raw_os_error :: "int option"

record ResolveFailure =
  rf_kind :: ResolveFailureKind
  rf_upstream :: "SocketAddr option"
  rf_qtype :: "DnsRecordType option"
  rf_transport :: "DnsTransport option"
  rf_operation :: "DnsOperation option"
  rf_io_kind :: "string option"
  rf_os_error :: "int option"
  rf_detail :: "string option"
  rf_response_code :: "nat option"

definition ResolveFailure_new :: "ResolveFailureKind \<Rightarrow> ResolveFailure" where
  "ResolveFailure_new kind =
     \<lparr>rf_kind = kind, rf_upstream = None, rf_qtype = None, rf_transport = None, rf_operation = None, rf_io_kind = None,
      rf_os_error = None, rf_detail = None, rf_response_code = None\<rparr>"

datatype 'name ResolveError =
  NxDomain 'name
| Upstream rstr
| ResolveTimeout
| ExchangeTimeout DnsTransport DnsOperation
| Transport DnsTransport DnsOperation io_error
| InvalidResponse string
| ResponseCode nat
| Query SocketAddr DnsRecordType "'name ResolveError"

fun diagnostic :: "'name ResolveError \<Rightarrow> ResolveFailure" where
  "diagnostic (Query upstream qtype source) =
     (diagnostic source)\<lparr>rf_upstream := Some upstream, rf_qtype := Some qtype\<rparr>"
| "diagnostic (ExchangeTimeout transport operation) =
     (ResolveFailure_new FailTimeout)\<lparr>rf_transport := Some transport, rf_operation := Some operation\<rparr>"
| "diagnostic (Transport transport operation source) =
     (ResolveFailure_new (if io_kind source = ''TimedOut'' then FailTimeout else FailIo))
       \<lparr>rf_transport := Some transport, rf_operation := Some operation, rf_io_kind := Some (io_kind source),
        rf_os_error := raw_os_error source\<rparr>"
| "diagnostic (InvalidResponse detail) = (ResolveFailure_new FailInvalidResponse)\<lparr>rf_detail := Some detail\<rparr>"
| "diagnostic (ResponseCode code) = (ResolveFailure_new FailResponseCode)\<lparr>rf_response_code := Some code\<rparr>"
| "diagnostic (NxDomain _) = ResolveFailure_new FailNxdomain"
| "diagnostic ResolveTimeout = ResolveFailure_new FailTimeout"
| "diagnostic (Upstream _) = ResolveFailure_new FailUpstream"

text \<open>What a resolution under a deadline comes to; \<open>None\<close> is the deadline.\<close>

type_synonym 'name resolution = "('name ResolveError + 'name ResolvedChain) option"

subsection \<open>Audit events\<close>

datatype AuditEvent =
  DnsAllowed rstr string nat nat
| DnsDenied rstr string string
| DnsResolutionFailed rstr string ResolveFailure
| DnsStructuralRejected rstr DnsLimit
| DnsRateLimited rstr DnsLimit
| DnsUnsupportedQtype rstr string
| DnsMalformed
| ConnectAllowed rstr IpAddr u16
| ConnectDenied rstr u16 string
| ConnectDialFailed rstr u16 string "int option"
| ConnectUnsupportedProtocol rstr u16
| ConnectLimitExceeded
| ConnectError string

subsection \<open>Programs over shared state\<close>

record 'net shared =
  sh_cache :: AuthorizationCache
  sh_window :: WindowState
  sh_meta :: "'net State"
  sh_reservations :: OriginReservations
  sh_now :: nat

datatype 'net event =
  Viewed "'net State" nat
| LookedUp rstr nat "IpAddr list"
| Charged rstr "DnsLimit + unit"
| Asked rstr
| Consulted OriginReservations
| Authorized rstr IpAddr nat nat
| Dialled IpAddr u16
| Wrote bytes
| Forwarded bytes
| Proxied
| Audited AuditEvent

text \<open>\<open>run_writes\<close> tells of each write to the client whether it succeeds.\<close>

record 'net run =
  run_shared :: "'net shared"
  run_others :: "('net shared \<Rightarrow> 'net shared) list"
  run_writes :: "bool list"
  run_trace :: "'net event list"

type_synonym ('net, 'a) prog = "('net run, 'a) state"

definition access :: "('net shared \<Rightarrow> 'a \<times> 'net shared) \<Rightarrow> ('net, 'a) prog" where
  "access f = State (\<lambda>r.
     let sh = (case run_others r of [] \<Rightarrow> run_shared r | g # _ \<Rightarrow> g (run_shared r)); (a, sh') = f sh
     in (a, r\<lparr>run_shared := sh', run_others := tl (run_others r)\<rparr>))"

definition emit :: "'net event \<Rightarrow> ('net, unit) prog" where
  "emit e = State (\<lambda>r. ((), r\<lparr>run_trace := run_trace r @ [e]\<rparr>))"

definition audit :: "AuditEvent \<Rightarrow> ('net, unit) prog" where
  "audit e = emit (Audited e)"

text \<open>A write to the client, and whether it succeeded.\<close>

definition write_client :: "bytes \<Rightarrow> ('net, bool) prog" where
  "write_client bs = State (\<lambda>r.
     (run_writes r = [] \<or> hd (run_writes r),
      r\<lparr>run_writes := tl (run_writes r), run_trace := run_trace r @ [Wrote bs]\<rparr>))"

text \<open>\<open>attempt m f\<close> is \<^verbatim>\<open>?\<close> in sequence.\<close>

definition attempt :: "('net, 'e + 'a) prog \<Rightarrow> ('a \<Rightarrow> ('net, 'e + 'b) prog) \<Rightarrow> ('net, 'e + 'b) prog" where
  "attempt m f = do { x \<leftarrow> m; case x of Inl e \<Rightarrow> State_Monad.return (Inl e) | Inr a \<Rightarrow> f a }"

fun for_each :: "('a \<Rightarrow> ('net, unit) prog) \<Rightarrow> 'a list \<Rightarrow> ('net, unit) prog" where
  "for_each f [] = State_Monad.return ()"
| "for_each f (x # xs) = do { f x; for_each f xs }"

text \<open>The accesses of the brokers.\<close>

definition take_snapshot :: "'net PolicyEngine \<Rightarrow> ('net, 'net PolicySnapshot) prog" where
  "take_snapshot e = do {
     (m, now) \<leftarrow> access (\<lambda>sh. ((sh_meta sh, sh_now sh), sh));
     emit (Viewed m now);
     State_Monad.return (snapshot e m now) }"

definition check_current :: "'net PolicySnapshot \<Rightarrow> ('net, bool) prog" where
  "check_current s = do {
     (m, now) \<leftarrow> access (\<lambda>sh. ((sh_meta sh, sh_now sh), sh));
     emit (Viewed m now);
     State_Monad.return (is_current s m now) }"

definition lookup_authorized :: "rstr \<Rightarrow> nat \<Rightarrow> ('net, IpAddr list) prog" where
  "lookup_authorized name revision = do {
     ips \<leftarrow> access (\<lambda>sh. let (ips, c) = authorized_addresses_for_revision (sh_now sh) name revision (sh_cache sh)
                         in (ips, sh\<lparr>sh_cache := c\<rparr>));
     emit (LookedUp name revision ips);
     State_Monad.return ips }"

definition authorize_address :: "rstr \<Rightarrow> IpAddr \<Rightarrow> nat \<Rightarrow> nat \<Rightarrow> ('net, unit) prog" where
  "authorize_address name ip ttl_secs revision = do {
     access (\<lambda>sh. ((), sh\<lparr>sh_cache :=
       authorize_for_revision (sh_now sh) name ip (nanos ttl_secs) revision (sh_cache sh)\<rparr>));
     emit (Authorized name ip ttl_secs revision) }"

definition charge :: "DnsGuard \<Rightarrow> rstr \<Rightarrow> ('net, DnsLimit + unit) prog" where
  "charge g name = do {
     x \<leftarrow> access (\<lambda>sh. let (x, w) = admit g name (sh_now sh) (sh_window sh) in (x, sh\<lparr>sh_window := w\<rparr>));
     emit (Charged name x);
     State_Monad.return x }"

definition reserved_target :: "ConnectTarget \<Rightarrow> u16 \<Rightarrow> ('net, OriginReservationError + bool) prog" where
  "reserved_target target port = do {
     reservations \<leftarrow> access (\<lambda>sh. (sh_reservations sh, sh));
     emit (Consulted reservations);
     State_Monad.return (case target of
        Hostname host \<Rightarrow> denies_hostname reservations host port
      | TargetIp ip \<Rightarrow> denies_direct_ip reservations ip port) }"

subsection \<open>What a program does\<close>

text \<open>\<open>does m Q\<close>: whatever the others do, \<open>m\<close> extends the trace by events that \<open>Q\<close> relates to its value.\<close>

definition does :: "('net, 'a) prog \<Rightarrow> ('net event list \<Rightarrow> 'a \<Rightarrow> bool) \<Rightarrow> bool" where
  "does m Q \<longleftrightarrow> (\<forall>r. \<exists>tr. run_trace (snd (run_state m r)) = run_trace r @ tr \<and> Q tr (fst (run_state m r)))"

named_theorems does_intros \<open>rules that compute what a program does\<close>

lemma does_mono: "does m P \<Longrightarrow> (\<And>tr a. P tr a \<Longrightarrow> Q tr a) \<Longrightarrow> does m Q"
  unfolding does_def by metis

lemma does_return [does_intros]: "Q [] a \<Longrightarrow> does (State_Monad.return a) Q"
  by (simp add: does_def)

lemma does_bind:
  assumes "does m P" "\<And>tr a. P tr a \<Longrightarrow> does (f a) (\<lambda>tr' b. Q (tr @ tr') b)"
  shows "does (State_Monad.bind m f) Q"
  unfolding does_def
proof
  fix r
  obtain a r' where m: "run_state m r = (a, r')" by fastforce
  with assms(1) obtain tr where tr: "run_trace r' = run_trace r @ tr" "P tr a" unfolding does_def by (metis fst_conv snd_conv)
  from assms(2) [OF tr(2)] obtain tr' where
    "run_trace (snd (run_state (f a) r')) = run_trace r' @ tr'" "Q (tr @ tr') (fst (run_state (f a) r'))"
    unfolding does_def by blast
  with m tr(1) show "\<exists>tr. run_trace (snd (run_state (State_Monad.bind m f) r)) = run_trace r @ tr
      \<and> Q tr (fst (run_state (State_Monad.bind m f) r))"
    by (intro exI [of _ "tr @ tr'"]) simp
qed

lemma does_emit: "does (emit e) (\<lambda>tr _. tr = [e])"
  by (simp add: does_def emit_def)

lemma does_audit: "does (audit e) (\<lambda>tr _. tr = [Audited e])"
  unfolding audit_def by (rule does_emit)

lemma does_access: "does (access f) (\<lambda>tr a. tr = [] \<and> (\<exists>sh. a = fst (f sh)))"
  by (auto simp: does_def access_def Let_def split_beta)

lemma does_write: "does (write_client bs) (\<lambda>tr ok. tr = [Wrote bs])"
  by (simp add: does_def write_client_def)

lemma does_attempt:
  assumes "does m P" "\<And>tr e. P tr (Inl e) \<Longrightarrow> Q tr (Inl e)"
    "\<And>tr a. P tr (Inr a) \<Longrightarrow> does (f a) (\<lambda>tr' b. Q (tr @ tr') b)"
  shows "does (attempt m f) Q"
  unfolding attempt_def
proof (rule does_bind [OF assms(1)])
  fix tr x
  assume "P tr x"
  with assms(2,3) show "does (case x of Inl e \<Rightarrow> State_Monad.return (Inl e) | Inr a \<Rightarrow> f a) (\<lambda>tr' b. Q (tr @ tr') b)"
    by (cases x) (auto intro: does_return)
qed

lemma does_consequence: "does m P \<Longrightarrow> (\<And>tr a. P tr a \<Longrightarrow> Q (pre @ tr) a) \<Longrightarrow> does m (\<lambda>tr. Q (pre @ tr))"
  by (rule does_mono)

lemma does_emit_return: "does (do { x \<leftarrow> access f; emit (g x); State_Monad.return (h x) }) (\<lambda>tr a. \<exists>sh. tr = [g (fst (f sh))] \<and> a = h (fst (f sh)))"
  by (rule does_bind [OF does_access], rule does_bind [OF does_emit]) (auto intro: does_return)

lemma does_take_snapshot: "does (take_snapshot e) (\<lambda>tr s. \<exists>m now. tr = [Viewed m now] \<and> s = snapshot e m now)"
  unfolding take_snapshot_def split_beta by (rule does_mono [OF does_emit_return]) auto

lemma does_check_current: "does (check_current s) (\<lambda>tr c. \<exists>m now. tr = [Viewed m now] \<and> (c \<longleftrightarrow> is_current s m now))"
  unfolding check_current_def split_beta by (rule does_mono [OF does_emit_return]) auto

lemma does_lookup: "does (lookup_authorized name revision) (\<lambda>tr ips. tr = [LookedUp name revision ips])"
  unfolding lookup_authorized_def by (rule does_mono [OF does_emit_return]) auto

lemma does_charge: "does (charge g name) (\<lambda>tr x. tr = [Charged name x])"
  unfolding charge_def by (rule does_mono [OF does_emit_return]) auto

lemma does_reserved: "does (reserved_target target port) (\<lambda>tr x. \<exists>rs. tr = [Consulted rs] \<and>
    x = (case target of Hostname host \<Rightarrow> denies_hostname rs host port | TargetIp ip \<Rightarrow> denies_direct_ip rs ip port))"
  unfolding reserved_target_def by (rule does_mono [OF does_emit_return]) (auto split: ConnectTarget.splits)

lemma does_authorize: "does (authorize_address name ip ttl revision) (\<lambda>tr _. tr = [Authorized name ip ttl revision])"
  unfolding authorize_address_def by (rule does_bind [OF does_access]) (auto intro: does_mono [OF does_emit])

lemma does_for_each:
  assumes "\<And>x. does (f x) (\<lambda>tr _. tr = [g x])"
  shows "does (for_each f xs) (\<lambda>tr _. tr = map g xs)"
proof (induction xs)
  case (Cons x xs)
  show ?case unfolding for_each.simps by (rule does_bind [OF assms]) (auto intro: does_mono [OF Cons.IH])
qed (simp add: does_return)

lemmas does_steps = does_take_snapshot does_check_current does_lookup does_charge does_reserved does_authorize does_emit does_audit does_write

fun dials :: "'net event list \<Rightarrow> (IpAddr \<times> u16) list" where
  "dials [] = []"
| "dials (Dialled ip port # tr) = (ip, port) # dials tr"
| "dials (_ # tr) = dials tr"

lemma dials_append [simp]: "dials (xs @ ys) = dials xs @ dials ys"
  by (induction xs rule: dials.induct) simp_all

end
