(* ===== verification/Http_Proxy.thy ===== *)
theory Http_Proxy
  imports Connect_Proto Domain Ip_Parse
begin

section \<open>The HTTP front end (crates/sendbox-egress/src/http_proxy.rs)\<close>

text \<open>
  HTTP/1.x CONNECT and forward-proxy requests.  The crates \<^verbatim>\<open>httparse\<close> and \<^verbatim>\<open>http\<close> are not part of the sources:
  what the reader takes from them is the record \<open>http_ops\<close>, an argument about which nothing is assumed.  A stream
  is the list of chunks that its reads return, none longer than the buffer; the list ends where the peer
  closes.  An \<^verbatim>\<open>io::Error\<close> is its message.
\<close>

definition MAX_HEADER_BYTES :: nat where "MAX_HEADER_BYTES = 16 * 1024"
definition MAX_HEADERS :: nat where "MAX_HEADERS = 64"

record HttpProxyRequest =
  hp_target :: ConnectTarget
  hp_port :: u16
  hp_prefetched :: bytes
  hp_forwarded_head :: "bytes option"

record http_header =
  hh_name :: rstr
  hh_value :: bytes

record parsed_request =
  pq_method :: "rstr option"
  pq_path :: "rstr option"
  pq_version :: "nat option"
  pq_headers :: "http_header list"

datatype parse_status = Complete nat | Partial

record http_uri =
  uri_scheme :: "rstr option"
  uri_authority :: "rstr option"
  uri_path_and_query :: "rstr option"

text \<open>
  \<^verbatim>\<open>httparse::Request::parse\<close> with room for a number of headers, and \<^verbatim>\<open>parse\<close> for methods, URIs, authorities (their
  host and port) and header names, each with the text that the source reads from the result.
\<close>

record http_ops =
  op_request :: "nat \<Rightarrow> bytes \<Rightarrow> (parse_status \<times> parsed_request) option"
  op_method :: "rstr \<Rightarrow> rstr option"
  op_uri :: "rstr \<Rightarrow> http_uri option"
  op_authority :: "rstr \<Rightarrow> (rstr \<times> u16 option) option"
  op_header_name :: "rstr \<Rightarrow> rstr option"

subsection \<open>The bytes of a header\<close>

fun find_blank_line :: "bytes \<Rightarrow> nat option" where
  "find_blank_line (a # b # c # d # bs) =
     (if [a, b, c, d] = [13, 10, 13, 10] then Some 0 else map_option Suc (find_blank_line (b # c # d # bs)))"
| "find_blank_line _ = None"

fun read_head :: "bytes \<Rightarrow> bytes list \<Rightarrow> string + bytes \<times> nat" where
  "read_head bs chunks =
     (case find_blank_line bs of
        Some stop \<Rightarrow>
          if stop + 4 > MAX_HEADER_BYTES then Inl ''HTTP proxy header exceeds its byte limit'' else Inr (bs, stop + 4)
      | None \<Rightarrow>
          if length bs \<ge> MAX_HEADER_BYTES then Inl ''HTTP proxy header exceeds its byte limit''
          else (case chunks of
                  [] \<Rightarrow> Inl ''HTTP proxy handshake is incomplete''
                | chunk # rest \<Rightarrow>
                    if chunk = [] then Inl ''HTTP proxy handshake is incomplete'' else read_head (bs @ chunk) rest))"

declare read_head.simps [simp del]

definition crlf_framed :: "bytes \<Rightarrow> bool" where
  "crlf_framed bs \<longleftrightarrow> list_all (\<lambda>i.
     (bs ! i = 10 \<longrightarrow> i \<noteq> 0 \<and> bs ! (i - 1) = 13) \<and>
     (bs ! i = 13 \<longrightarrow> i + 1 < length bs \<and> bs ! (i + 1) = 10)) [0..<length bs]"

subsection \<open>Destinations\<close>

definition authority_byte_ok :: "u8 \<Rightarrow> bool" where
  "authority_byte_ok b \<longleftrightarrow> \<not> (b < 32 \<or> b = 127) \<and> b \<notin> {9, 10, 12, 13, 32} \<and> b \<notin> {64, 47, 92, 63, 35, 37}"

definition parse_authority :: "http_ops \<Rightarrow> rstr \<Rightarrow> u16 option \<Rightarrow> string + ConnectTarget \<times> u16" where
  "parse_authority ops value default_port =
     (if \<not> list_all authority_byte_ok (as_bytes value) then Inl ''invalid HTTP proxy authority''
      else case op_authority ops value of
          None \<Rightarrow> Inl ''invalid HTTP proxy authority''
        | Some (host0, port_u16) \<Rightarrow>
            (let explicit_port = (if starts_with value (str ''['') then \<not> ends_with value (str '']'') else 58 \<in> set value)
             in if explicit_port \<and> port_u16 = None then Inl ''HTTP proxy authority contains an invalid port''
                else case (case port_u16 of Some p \<Rightarrow> Some p | None \<Rightarrow> default_port) of
                    None \<Rightarrow> Inl ''HTTP proxy authority requires a valid port''
                  | Some port \<Rightarrow>
                      if port = 0 then Inl ''HTTP proxy authority requires a valid port''
                      else let host = rev (dropWhile (\<lambda>c. c = 93) (rev (dropWhile (\<lambda>c. c = 91) host0)))
                           in case parse_IpAddr host of
                               Some address \<Rightarrow> Inr (TargetIp (canonicalize address), port)
                             | None \<Rightarrow>
                                 (case normalize_domain host of
                                    Inl _ \<Rightarrow> Inl ''invalid HTTP proxy hostname''
                                  | Inr n \<Rightarrow> Inr (Hostname n, port))))"

text \<open>The target, its port and, unless the request is a tunnel, the path to forward.\<close>

definition destination_of ::
  "http_ops \<Rightarrow> bool \<Rightarrow> rstr \<Rightarrow> string + ConnectTarget \<times> u16 \<times> rstr option" where
  "destination_of ops tunnel destination =
     (if tunnel then
        (case parse_authority ops destination None of
           Inl e \<Rightarrow> Inl e
         | Inr (target, port) \<Rightarrow> Inr (target, port, None))
      else case op_uri ops destination of
          None \<Rightarrow> Inl ''invalid HTTP forward proxy URL''
        | Some uri \<Rightarrow>
            if uri_scheme uri \<noteq> Some (str ''http'') \<or> 35 \<in> set destination
            then Inl ''HTTP forward proxy requires an absolute plaintext HTTP URL''
            else case uri_authority uri of
                None \<Rightarrow> Inl ''HTTP forward proxy URL has no authority''
              | Some authority \<Rightarrow>
                  (case parse_authority ops authority (Some 80) of
                     Inl e \<Rightarrow> Inl e
                   | Inr (target, port) \<Rightarrow>
                       Inr (target, port, Some (case uri_path_and_query uri of None \<Rightarrow> str ''/'' | Some p \<Rightarrow> p))))"

subsection \<open>Header fields\<close>

definition named :: "http_header \<Rightarrow> string \<Rightarrow> bool" where
  "named h name \<longleftrightarrow> eq_ignore_ascii_case (hh_name h) (str name)"

record scan =
  host_seen :: bool
  content_length_seen :: bool
  transfer_encoding_seen :: bool
  connection_fields :: "rstr list"

definition scan_host :: "http_ops \<Rightarrow> bool \<Rightarrow> ConnectTarget \<Rightarrow> u16 \<Rightarrow> http_header \<Rightarrow> scan \<Rightarrow> string + scan" where
  "scan_host ops tunnel target port h sc =
     (if \<not> named h ''host'' then Inr sc
      else if host_seen sc then Inl ''duplicate HTTP proxy Host header''
      else case from_utf8 (hh_value h) of
          None \<Rightarrow> Inl ''invalid HTTP proxy Host header''
        | Some value \<Rightarrow>
            (case parse_authority ops value (Some (if tunnel then port else 80)) of
               Inl e \<Rightarrow> Inl e
             | Inr r \<Rightarrow>
                 if r \<noteq> (target, port) then Inl ''HTTP proxy Host does not match its target''
                 else Inr (sc\<lparr>host_seen := True\<rparr>)))"

definition scan_framing :: "bool \<Rightarrow> http_header \<Rightarrow> scan \<Rightarrow> string + scan" where
  "scan_framing tunnel h sc =
     (if named h ''proxy-authorization'' then Inl ''HTTP proxy credentials are not supported''
      else if named h ''content-length'' \<and>
        (content_length_seen sc \<or> hh_value h = [] \<or> \<not> list_all (\<lambda>b. 48 \<le> b \<and> b \<le> 57) (hh_value h)
         \<or> (tunnel \<and> hh_value h \<noteq> [48]))
      then Inl ''invalid or duplicate HTTP proxy Content-Length''
      else let sc1 = (if named h ''content-length'' then sc\<lparr>content_length_seen := True\<rparr> else sc)
           in if named h ''transfer-encoding'' \<and>
                (transfer_encoding_seen sc1 \<or> tunnel
                 \<or> \<not> eq_ignore_ascii_case (map uint (hh_value h)) (str ''chunked''))
              then Inl ''invalid or duplicate HTTP proxy Transfer-Encoding''
              else let sc2 = (if named h ''transfer-encoding'' then sc1\<lparr>transfer_encoding_seen := True\<rparr> else sc1)
                   in if named h ''upgrade'' then Inl ''HTTP upgrades require a CONNECT tunnel'' else Inr sc2)"

fun scan_fields :: "http_ops \<Rightarrow> rstr list \<Rightarrow> scan \<Rightarrow> string + scan" where
  "scan_fields ops [] sc = Inr sc"
| "scan_fields ops (raw # nominated) sc =
     (case op_header_name ops (trim raw) of
        None \<Rightarrow> Inl ''invalid HTTP proxy Connection field''
      | Some field \<Rightarrow>
          if field \<in> {str ''host'', str ''content-length'', str ''transfer-encoding''}
          then Inl ''HTTP proxy Connection cannot nominate routing or framing headers''
          else scan_fields ops nominated (sc\<lparr>connection_fields := connection_fields sc @ [field]\<rparr>))"

definition scan_connection :: "http_ops \<Rightarrow> http_header \<Rightarrow> scan \<Rightarrow> string + scan" where
  "scan_connection ops h sc =
     (if \<not> named h ''connection'' then Inr sc
      else case from_utf8 (hh_value h) of
          None \<Rightarrow> Inl ''invalid HTTP proxy Connection header''
        | Some value \<Rightarrow> scan_fields ops (split_on 44 value) sc)"

fun scan_headers ::
  "http_ops \<Rightarrow> bool \<Rightarrow> ConnectTarget \<Rightarrow> u16 \<Rightarrow> http_header list \<Rightarrow> scan \<Rightarrow> string + scan" where
  "scan_headers ops tunnel target port [] sc = Inr sc"
| "scan_headers ops tunnel target port (h # hs) sc =
     (case scan_host ops tunnel target port h sc of
        Inl e \<Rightarrow> Inl e
      | Inr sc1 \<Rightarrow>
          (case scan_framing tunnel h sc1 of
             Inl e \<Rightarrow> Inl e
           | Inr sc2 \<Rightarrow>
               (case scan_connection ops h sc2 of
                  Inl e \<Rightarrow> Inl e
                | Inr sc3 \<Rightarrow> scan_headers ops tunnel target port hs sc3)))"

definition dropped_header :: "rstr list \<Rightarrow> http_header \<Rightarrow> bool" where
  "dropped_header nominated h \<longleftrightarrow>
     list_ex (named h) [''connection'', ''proxy-connection'', ''keep-alive'', ''proxy-authenticate'', ''te'']
     \<or> list_ex (eq_ignore_ascii_case (hh_name h)) nominated"

definition header_line :: "http_header \<Rightarrow> bytes" where
  "header_line h = as_bytes (hh_name h) @ [58, 32] @ hh_value h @ [13, 10]"

definition forwarded_head :: "rstr \<Rightarrow> rstr \<Rightarrow> rstr list \<Rightarrow> http_header list \<Rightarrow> bytes" where
  "forwarded_head verb path nominated hs =
     as_bytes (verb @ str '' '' @ path @ str '' HTTP/1.1'' @ [13, 10])
     @ concat (map header_line (filter (\<lambda>h. \<not> dropped_header nominated h) hs))
     @ as_bytes (str ''Connection: close'' @ [13, 10, 13, 10])"

subsection \<open>The request\<close>

definition accept_request ::
  "http_ops \<Rightarrow> rstr \<Rightarrow> rstr \<Rightarrow> http_header list \<Rightarrow> bytes \<Rightarrow> string + HttpProxyRequest" where
  "accept_request ops verb destination hs prefetched =
     (let tunnel = (verb = str ''CONNECT'')
      in case destination_of ops tunnel destination of
          Inl e \<Rightarrow> Inl e
        | Inr (target, port, path) \<Rightarrow>
            (case scan_headers ops tunnel target port hs
                    \<lparr>host_seen = False, content_length_seen = False, transfer_encoding_seen = False, connection_fields = []\<rparr> of
               Inl e \<Rightarrow> Inl e
             | Inr sc \<Rightarrow>
                 if content_length_seen sc \<and> transfer_encoding_seen sc then Inl ''HTTP proxy body framing is ambiguous''
                 else if \<not> tunnel \<and> \<not> host_seen sc then Inl ''HTTP forward proxy requires one matching Host header''
                 else Inr \<lparr>hp_target = target, hp_port = port, hp_prefetched = prefetched,
                           hp_forwarded_head = map_option (\<lambda>p. forwarded_head verb p (connection_fields sc) hs) path\<rparr>))"

definition http_read_request :: "http_ops \<Rightarrow> bytes list \<Rightarrow> string + HttpProxyRequest" where
  "http_read_request ops chunks =
     (case read_head [] chunks of
        Inl e \<Rightarrow> Inl e
      | Inr (buffer, header_end) \<Rightarrow>
          (let bs = take header_end buffer; prefetched = drop header_end buffer
           in if \<not> crlf_framed bs then Inl ''HTTP proxy headers require CRLF framing''
              else case op_request ops MAX_HEADERS bs of
                  None \<Rightarrow> Inl ''invalid HTTP proxy header''
                | Some (status, q) \<Rightarrow>
                    if status \<noteq> Complete header_end \<or> pq_version q \<notin> {Some 0, Some 1}
                    then Inl ''HTTP proxy requires an HTTP/1.x request''
                    else (case pq_method q of
                            None \<Rightarrow> Inl ''HTTP proxy method is missing''
                          | Some raw \<Rightarrow>
                              (case op_method ops raw of
                                 None \<Rightarrow> Inl ''invalid HTTP proxy method''
                               | Some verb \<Rightarrow>
                                   (case pq_path q of
                                      None \<Rightarrow> Inl ''HTTP proxy target is missing''
                                    | Some destination \<Rightarrow> accept_request ops verb destination (pq_headers q) prefetched)))))"

subsection \<open>Status lines\<close>

definition http_reason :: "ConnectStatus \<Rightarrow> string" where
  "http_reason status =
     (case status of
        StatusOk \<Rightarrow> ''200 Connection Established''
      | PolicyDenied \<Rightarrow> ''403 Forbidden'' | ExpectedIpMismatch \<Rightarrow> ''403 Forbidden''
      | LimitExceeded \<Rightarrow> ''429 Too Many Requests''
      | StatusTimeout \<Rightarrow> ''408 Request Timeout''
      | ResolutionFailed \<Rightarrow> ''502 Bad Gateway'' | ConnectFailed \<Rightarrow> ''502 Bad Gateway''
      | StatusMalformed \<Rightarrow> ''400 Bad Request'' | UnsupportedProtocol \<Rightarrow> ''400 Bad Request'')"

definition http_status :: "ConnectStatus \<Rightarrow> bytes" where
  "http_status status = as_bytes (str ''HTTP/1.1 '' @ str (http_reason status) @ [13, 10]
     @ (if status = ResolutionFailed then str ''Proxy-Status: sendbox; error=dns_error'' @ [13, 10] else [])
     @ (if status = StatusOk then []
        else str ''Content-Length: 0'' @ [13, 10] @ str ''Connection: close'' @ [13, 10]) @ [13, 10])"

subsection \<open>What an accepted request looks like\<close>

abbreviation headers_named :: "string \<Rightarrow> http_header list \<Rightarrow> http_header list" where
  "headers_named name hs \<equiv> filter (\<lambda>h. named h name) hs"

definition host_matches :: "http_ops \<Rightarrow> bool \<Rightarrow> ConnectTarget \<Rightarrow> u16 \<Rightarrow> http_header \<Rightarrow> bool" where
  "host_matches ops tunnel target port h \<longleftrightarrow>
     (case from_utf8 (hh_value h) of
        None \<Rightarrow> False
      | Some v \<Rightarrow> parse_authority ops v (Some (if tunnel then port else 80)) = Inr (target, port))"

definition nominable :: "http_ops \<Rightarrow> rstr \<Rightarrow> bool" where
  "nominable ops field \<longleftrightarrow> (\<exists>raw. op_header_name ops raw = Some field)
     \<and> field \<notin> {str ''host'', str ''content-length'', str ''transfer-encoding''}"

lemma scan_host_Inr:
  "scan_host ops tunnel target port h sc = Inr sc1 \<longleftrightarrow>
     (named h ''host'' \<longrightarrow> \<not> host_seen sc \<and> host_matches ops tunnel target port h)
     \<and> sc1 = (if named h ''host'' then sc\<lparr>host_seen := True\<rparr> else sc)"
  by (auto simp: scan_host_def host_matches_def split: option.splits sum.splits)

lemma scan_framing_Inr:
  "scan_framing tunnel h sc = Inr sc1 \<Longrightarrow>
     \<not> named h ''proxy-authorization'' \<and> \<not> named h ''upgrade''
     \<and> (named h ''content-length'' \<longrightarrow> \<not> content_length_seen sc)
     \<and> (named h ''transfer-encoding'' \<longrightarrow> \<not> transfer_encoding_seen sc \<and> \<not> tunnel)
     \<and> sc1 = sc\<lparr>content_length_seen := content_length_seen sc \<or> named h ''content-length'',
               transfer_encoding_seen := transfer_encoding_seen sc \<or> named h ''transfer-encoding''\<rparr>"
  by (cases sc) (auto simp: scan_framing_def Let_def split: if_splits)

lemma scan_fields_Inr:
  "scan_fields ops raws sc = Inr sc1 \<Longrightarrow>
     \<exists>new. sc1 = sc\<lparr>connection_fields := connection_fields sc @ new\<rparr> \<and> (\<forall>f \<in> set new. nominable ops f)"
proof (induction raws arbitrary: sc)
  case Nil
  then show ?case by (intro exI [of _ "[]"]) simp
next
  case (Cons raw raws)
  from Cons.prems obtain field where f: "op_header_name ops (trim raw) = Some field"
    "field \<notin> {str ''host'', str ''content-length'', str ''transfer-encoding''}"
    "scan_fields ops raws (sc\<lparr>connection_fields := connection_fields sc @ [field]\<rparr>) = Inr sc1"
    by (auto split: option.splits if_splits)
  from Cons.IH [OF f(3)] obtain new where "sc1 = sc\<lparr>connection_fields := connection_fields sc @ field # new\<rparr>"
    "\<forall>f \<in> set new. nominable ops f" by auto
  with f(1,2) show ?case by (intro exI [of _ "field # new"]) (auto simp: nominable_def)
qed

lemma scan_connection_Inr:
  "scan_connection ops h sc = Inr sc1 \<Longrightarrow>
     \<exists>new. sc1 = sc\<lparr>connection_fields := connection_fields sc @ new\<rparr> \<and> (\<forall>f \<in> set new. nominable ops f)"
  by (auto simp: scan_connection_def dest: scan_fields_Inr split: if_splits option.splits intro: exI [of _ "[]"])

definition scanned ::
  "http_ops \<Rightarrow> bool \<Rightarrow> ConnectTarget \<Rightarrow> u16 \<Rightarrow> http_header list \<Rightarrow> scan \<Rightarrow> scan \<Rightarrow> bool" where
  "scanned ops tunnel target port hs sc sc' \<longleftrightarrow>
     list_all (host_matches ops tunnel target port) (headers_named ''host'' hs)
     \<and> length (headers_named ''host'' hs) + of_bool (host_seen sc) = of_bool (host_seen sc')
     \<and> length (headers_named ''content-length'' hs) + of_bool (content_length_seen sc) = of_bool (content_length_seen sc')
     \<and> length (headers_named ''transfer-encoding'' hs) + of_bool (transfer_encoding_seen sc) = of_bool (transfer_encoding_seen sc')
     \<and> headers_named ''proxy-authorization'' hs = [] \<and> headers_named ''upgrade'' hs = []
     \<and> (tunnel \<longrightarrow> headers_named ''transfer-encoding'' hs = [])
     \<and> (\<forall>f \<in> set (connection_fields sc'). f \<in> set (connection_fields sc) \<or> nominable ops f)"

lemma scan_headers_Inr: "scan_headers ops tunnel target port hs sc = Inr sc' \<Longrightarrow> scanned ops tunnel target port hs sc sc'"
proof (induction hs arbitrary: sc)
  case Nil
  then show ?case by (simp add: scanned_def)
next
  case (Cons h hs)
  from Cons.prems obtain sc1 sc2 sc3 where s: "scan_host ops tunnel target port h sc = Inr sc1"
    "scan_framing tunnel h sc1 = Inr sc2" "scan_connection ops h sc2 = Inr sc3"
    "scan_headers ops tunnel target port hs sc3 = Inr sc'"
    by (auto split: sum.splits)
  obtain new where new: "sc3 = sc2\<lparr>connection_fields := connection_fields sc2 @ new\<rparr>" "\<forall>f \<in> set new. nominable ops f"
    using scan_connection_Inr [OF s(3)] by blast
  note f = scan_framing_Inr [OF s(2)]
  from Cons.IH [OF s(4)] new f s(1) [unfolded scan_host_Inr] show ?case
    by (cases "named h ''host''"; cases "named h ''content-length''"; cases "named h ''transfer-encoding''")
       (auto simp: scanned_def)
qed

lemma read_head_Inr:
  "read_head bs chunks = Inr (buffer, n) \<Longrightarrow> n \<le> MAX_HEADER_BYTES \<and> (\<exists>k. buffer = bs @ concat (take k chunks))"
proof (induction bs chunks rule: read_head.induct)
  case (1 bs chunks)
  show ?case
  proof (cases "find_blank_line bs")
    case (Some stop)
    with "1.prems" show ?thesis by (auto simp: read_head.simps [of bs chunks] split: if_splits intro: exI [of _ 0])
  next
    case None
    with "1.prems" obtain chunk rest where c: "chunks = chunk # rest" "chunk \<noteq> []" "length bs < MAX_HEADER_BYTES"
      "read_head (bs @ chunk) rest = Inr (buffer, n)"
      by (auto simp: read_head.simps [of bs chunks] split: list.splits if_splits)
    with "1.IH" None obtain k where "n \<le> MAX_HEADER_BYTES" "buffer = (bs @ chunk) @ concat (take k rest)" by fastforce
    with c(1) show ?thesis by (intro conjI exI [of _ "Suc k"]) simp_all
  qed
qed

lemma destination_path: "destination_of ops tunnel d = Inr (target, port, path) \<Longrightarrow> path = None \<longleftrightarrow> tunnel"
  by (auto simp: destination_of_def split: if_splits sum.splits option.splits)

lemma routing_kept:
  assumes lower: "\<forall>raw name. op_header_name ops raw = Some name \<longrightarrow> map ascii_lower name = name"
    and nominated: "\<forall>f \<in> set nominated. nominable ops f"
    and h: "named h ''host'' \<or> named h ''content-length'' \<or> named h ''transfer-encoding''"
  shows "\<not> dropped_header nominated h"
proof -
  from h have "list_all (\<lambda>name. \<not> named h name) [''connection'', ''proxy-connection'', ''keep-alive'', ''proxy-authenticate'', ''te'']"
    by (auto simp: named_def eq_ignore_ascii_case_def ascii_lower_def)
  moreover have "\<not> eq_ignore_ascii_case (hh_name h) f" if "f \<in> set nominated" for f
  proof
    from nominated that have f: "nominable ops f" by blast
    with lower have "map ascii_lower f = f" by (auto simp: nominable_def)
    moreover assume "eq_ignore_ascii_case (hh_name h) f"
    ultimately have "f \<in> {map ascii_lower (str ''host''), map ascii_lower (str ''content-length''), map ascii_lower (str ''transfer-encoding'')}"
      using h by (auto simp: named_def eq_ignore_ascii_case_def simp del: str_simps)
    moreover have "map ascii_lower (str ''host'') = str ''host''" "map ascii_lower (str ''content-length'') = str ''content-length''"
      "map ascii_lower (str ''transfer-encoding'') = str ''transfer-encoding''" by code_simp+
    ultimately show False using f by (simp add: nominable_def del: str_simps)
  qed
  ultimately show ?thesis by (auto simp: dropped_header_def list_all_iff list_ex_iff)
qed

lemma accept_request_Inr:
  assumes "accept_request ops verb d hs prefetched = Inr req"
  obtains path sc where "destination_of ops (verb = str ''CONNECT'') d = Inr (hp_target req, hp_port req, path)"
    "scanned ops (verb = str ''CONNECT'') (hp_target req) (hp_port req) hs
       \<lparr>host_seen = False, content_length_seen = False, transfer_encoding_seen = False, connection_fields = []\<rparr> sc"
    "\<not> (content_length_seen sc \<and> transfer_encoding_seen sc)" "verb = str ''CONNECT'' \<or> host_seen sc"
    "hp_prefetched req = prefetched"
    "hp_forwarded_head req = map_option (\<lambda>p. forwarded_head verb p (connection_fields sc) hs) path"
proof -
  from assms obtain target port path sc where d: "destination_of ops (verb = str ''CONNECT'') d = Inr (target, port, path)"
    and sc: "scan_headers ops (verb = str ''CONNECT'') target port hs
       \<lparr>host_seen = False, content_length_seen = False, transfer_encoding_seen = False, connection_fields = []\<rparr> = Inr sc"
    and ok: "\<not> (content_length_seen sc \<and> transfer_encoding_seen sc)" "\<not> (verb \<noteq> str ''CONNECT'' \<and> \<not> host_seen sc)"
    and req: "req = \<lparr>hp_target = target, hp_port = port, hp_prefetched = prefetched,
       hp_forwarded_head = map_option (\<lambda>p. forwarded_head verb p (connection_fields sc) hs) path\<rparr>"
    by (auto simp: accept_request_def Let_def simp del: str_simps split: sum.splits if_splits prod.splits)
  show thesis by (rule that [of path sc]) (use d scan_headers_Inr [OF sc] ok req in auto)
qed


text \<open>An instance for one request.\<close>

definition sample_request :: parsed_request where
  "sample_request = \<lparr>pq_method = Some (str ''GET''), pq_path = Some (str ''http://a.io/''), pq_version = Some 1,
     pq_headers = [\<lparr>hh_name = str ''Host'', hh_value = as_bytes (str ''a.io'')\<rparr>, \<lparr>hh_name = str ''TE'', hh_value = []\<rparr>]\<rparr>"

definition sample_http :: http_ops where
  "sample_http = \<lparr>op_request = (\<lambda>_ bs. Some (Complete (length bs), sample_request)), op_method = Some,
     op_uri = (\<lambda>_. Some \<lparr>uri_scheme = Some (str ''http''), uri_authority = Some (str ''a.io''), uri_path_and_query = None\<rparr>),
     op_authority = (\<lambda>v. Some (v, None)), op_header_name = (\<lambda>raw. Some (map ascii_lower raw))\<rparr>"

lemma ascii_lower_again: "ascii_lower (ascii_lower c) = ascii_lower c"
  by (simp add: ascii_lower_def)

lemma sample_http_lower: "\<forall>raw name. op_header_name sample_http raw = Some name \<longrightarrow> map ascii_lower name = name"
  by (auto simp: sample_http_def ascii_lower_again)

lemma sample_accepted:
  "accept_request sample_http (str ''GET'') (str ''http://a.io/'') (pq_headers sample_request) [7] =
     Inr \<lparr>hp_target = Hostname (str ''a.io''), hp_port = 80, hp_prefetched = [7],
          hp_forwarded_head = Some (forwarded_head (str ''GET'') (str ''/'') [] (pq_headers sample_request))\<rparr>"
  by code_simp

lemma sample_read:
  "http_read_request sample_http [[13, 10], [13, 10, 7]] =
     Inr \<lparr>hp_target = Hostname (str ''a.io''), hp_port = 80, hp_prefetched = [7],
          hp_forwarded_head = Some (forwarded_head (str ''GET'') (str ''/'') [] (pq_headers sample_request))\<rparr>"
proof -
  have "read_head [] [[13, 10], [13, 10, 7]] = Inr ([13, 10, 13, 10, 7], 4)"
    by (simp add: read_head.simps [of "[]"] read_head.simps [of "[13, 10]"] read_head.simps [of "[13, 10, 13, 10, 7]"]
      MAX_HEADER_BYTES_def)
  moreover have "crlf_framed [13, 10, 13, 10]" by code_simp
  ultimately show ?thesis
    using sample_accepted
    by (simp add: http_read_request_def sample_http_def sample_request_def del: str_simps)
qed


end
