(* ===== verification/Connect_Broker.thy ===== *)
theory Connect_Broker
  imports Egress_Effects Http_Proxy
begin

section \<open>The connection broker (crates/sendbox-egress/src/connect_broker.rs)\<close>

text \<open>
  A client asks for a destination in one of three protocols; the broker checks the reserved origins, pins a
  hostname to an authorized address (from the cache, or by a resolution of its own), decides against the
  snapshot of the policy it took first, and dials.  The resolver and the dialer are functions of the broker's
  record, as is the JSON text of a resolution failure.
\<close>

record ('net, 'name) ConnectBroker =
  cb_nets :: "'net ipnet_ops"
  cb_names :: "'name name_ops"
  cb_policy :: "'net PolicyEngine"
  cb_guard :: DnsGuard
  cb_resolver :: "'name \<Rightarrow> 'name resolution"
  cb_dialer :: "SocketAddr \<Rightarrow> io_error + SocketAddr option"
  cb_http :: http_ops
  cb_json :: "ResolveFailure \<Rightarrow> bytes option"

record ConnectFailure =
  cf_status :: ConnectStatus
  cf_resolution :: "ResolveFailure option"

definition failure :: "ConnectStatus \<Rightarrow> ConnectFailure" where
  "failure status = \<lparr>cf_status = status, cf_resolution = None\<rparr>"

definition denied :: "ConnectStatus \<Rightarrow> ('net, ConnectFailure + 'a) prog" where
  "denied status = State_Monad.return (Inl (failure status))"

definition target_label :: "ConnectTarget \<Rightarrow> rstr" where
  "target_label target = (case target of Hostname host \<Rightarrow> host | TargetIp ip \<Rightarrow> show_ip ip)"

subsection \<open>Resolution\<close>

text \<open>\<^verbatim>\<open>dedup_by\<close> on a sorted list keeps the first of each run.\<close>

fun dedup_addresses :: "(IpAddr \<times> nat) list \<Rightarrow> (IpAddr \<times> nat) list" where
  "dedup_addresses (x # y # xs) =
     (if fst x = fst y then dedup_addresses (x # xs) else x # dedup_addresses (y # xs))"
| "dedup_addresses xs = xs"

definition record_type_of_ip :: "IpAddr \<Rightarrow> DnsRecordType" where
  "record_type_of_ip ip = (case ip of V4 _ \<Rightarrow> RecA | V6 _ \<Rightarrow> RecAaaa)"

definition validated_addresses ::
  "('net, 'name) ConnectBroker \<Rightarrow> 'net PolicySnapshot \<Rightarrow> ResolvedAddress list \<Rightarrow> (IpAddr \<times> nat) list" where
  "validated_addresses b policy addresses =
     (let pairs = map (\<lambda>addr. (canonicalize (ra_ip addr), ra_ttl_secs addr)) addresses;
          kept = filter (\<lambda>(ip, _). record_type_allowed (cb_guard b) (record_type_of_ip ip)
                          \<and> allowed (address_permitted (cb_nets b) policy ip)) pairs
      in take (g_max_response_records (cb_guard b)) (dedup_addresses (sort_key fst kept)))"

definition authorize_all ::
  "('net, 'name) ConnectBroker \<Rightarrow> 'net PolicySnapshot \<Rightarrow> rstr \<Rightarrow> (IpAddr \<times> nat) list \<Rightarrow> ('net, unit) prog" where
  "authorize_all b policy normalized validated =
     for_each (\<lambda>(ip, ttl_secs). authorize_address normalized ip (cap_ttl (cb_policy b) ttl_secs) (ps_revision policy)) validated"

definition accept_chain ::
  "('net, 'name) ConnectBroker \<Rightarrow> 'net PolicySnapshot \<Rightarrow> rstr \<Rightarrow> IpAddr list \<Rightarrow> 'name ResolvedChain
     \<Rightarrow> ('net, ConnectFailure + IpAddr list) prog" where
  "accept_chain b policy normalized candidates resolved =
     (if \<not> list_all (\<lambda>hop. evaluate_domain_name policy (name_to_utf8 (cb_names b) hop) = Inr True) (names_to_validate resolved)
      then denied PolicyDenied
      else let validated = validated_addresses b policy (rc_addresses resolved)
           in do {
             current \<leftarrow> check_current policy;
             if \<not> current then denied PolicyDenied
             else do {
               authorize_all b policy normalized validated;
               State_Monad.return (Inr (remdups_adj (sort (candidates @ map fst validated)))) } })"

definition fresh_resolve ::
  "('net, 'name) ConnectBroker \<Rightarrow> 'net PolicySnapshot \<Rightarrow> rstr \<Rightarrow> IpAddr list \<Rightarrow> ('net, ConnectFailure + IpAddr list) prog" where
  "fresh_resolve b policy normalized candidates = do {
     charged \<leftarrow> charge (cb_guard b) normalized;
     case charged of
       Inl limit \<Rightarrow> do { audit (DnsRateLimited normalized limit); denied PolicyDenied }
     | Inr _ \<Rightarrow>
         (case name_from_ascii (cb_names b) (normalized @ str ''.'') of
            None \<Rightarrow> denied StatusMalformed
          | Some name \<Rightarrow> do {
              emit (Asked normalized);
              case cb_resolver b name of
                Some (Inr resolved) \<Rightarrow> accept_chain b policy normalized candidates resolved
              | failed \<Rightarrow>
                  (let why = (case failed of Some (Inl e) \<Rightarrow> diagnostic e | _ \<Rightarrow> ResolveFailure_new FailBrokerTimeout)
                   in do {
                     audit (DnsResolutionFailed normalized ''connect'' why);
                     State_Monad.return
                       (if candidates = [] then Inl \<lparr>cf_status = ResolutionFailed, cf_resolution = Some why\<rparr>
                        else Inr candidates) }) }) }"

text \<open>The choice among the candidates.\<close>

definition choose_pinned ::
  "rstr \<Rightarrow> IpAddr option \<Rightarrow> IpAddr list \<Rightarrow> ConnectFailure + rstr \<times> IpAddr" where
  "choose_pinned normalized expected candidates =
     (if candidates = [] then Inl (failure PolicyDenied)
      else case expected of
          Some ip \<Rightarrow> if ip \<in> set candidates then Inr (normalized, ip) else Inl (failure ExpectedIpMismatch)
        | None \<Rightarrow> Inr (normalized, hd candidates))"

definition pin_candidates ::
  "('net, 'name) ConnectBroker \<Rightarrow> 'net PolicySnapshot \<Rightarrow> rstr \<Rightarrow> IpAddr option \<Rightarrow> ('net, ConnectFailure + rstr \<times> IpAddr) prog" where
  "pin_candidates b policy normalized expected = do {
     candidates \<leftarrow> lookup_authorized normalized (ps_revision policy);
     let need_fresh = (candidates = [] \<or> (case expected of None \<Rightarrow> False | Some ip \<Rightarrow> ip \<notin> set candidates));
     attempt
       (if \<not> need_fresh then State_Monad.return (Inr candidates)
        else if \<not> pe_allow_dns (cb_policy b) then
          (if candidates = [] then denied ResolutionFailed else State_Monad.return (Inr candidates))
        else fresh_resolve b policy normalized candidates)
       (\<lambda>cs. State_Monad.return (choose_pinned normalized expected cs)) }"

definition resolve_pinned ::
  "('net, 'name) ConnectBroker \<Rightarrow> 'net PolicySnapshot \<Rightarrow> rstr \<Rightarrow> IpAddr option \<Rightarrow> ('net, ConnectFailure + rstr \<times> IpAddr) prog" where
  "resolve_pinned b policy host expected =
     (case normalize_domain host of
        Inl _ \<Rightarrow> denied StatusMalformed
      | Inr normalized \<Rightarrow>
          (case check_structure (cb_guard b) normalized of
             Inl limit \<Rightarrow> do { audit (DnsStructuralRejected normalized limit); denied PolicyDenied }
           | Inr _ \<Rightarrow>
               (case evaluate_domain_name policy normalized of
                  Inl _ \<Rightarrow> denied StatusMalformed
                | Inr ok \<Rightarrow> if \<not> ok then denied PolicyDenied else pin_candidates b policy normalized expected)))"

subsection \<open>Authorization and dialing\<close>

record AuthorizedDial =
  ad_local :: "SocketAddr option"
  ad_target_ip :: IpAddr

definition dial_target ::
  "('net, 'name) ConnectBroker \<Rightarrow> 'net PolicySnapshot \<Rightarrow> ConnectTarget \<Rightarrow> u16 \<Rightarrow> IpAddr \<Rightarrow> ('net, ConnectFailure + AuthorizedDial) prog" where
  "dial_target b policy target port ip = do {
     emit (Dialled ip port);
     case cb_dialer b (ip, port) of
       Inr bound \<Rightarrow> do {
         current \<leftarrow> check_current policy;
         if current then State_Monad.return (Inr \<lparr>ad_local = bound, ad_target_ip = ip\<rparr>) else denied PolicyDenied }
     | Inl error \<Rightarrow> do {
         audit (ConnectDialFailed (target_label target) port (io_kind error) (raw_os_error error));
         denied ConnectFailed } }"

definition pin_target ::
  "('net, 'name) ConnectBroker \<Rightarrow> 'net PolicySnapshot \<Rightarrow> ConnectTarget \<Rightarrow> IpAddr option \<Rightarrow> ('net, ConnectFailure + IpAddr \<times> rstr option) prog" where
  "pin_target b policy target expected =
     (case target of
        Hostname host \<Rightarrow>
          attempt (resolve_pinned b policy host expected) (\<lambda>(normalized, ip). State_Monad.return (Inr (ip, Some normalized)))
      | TargetIp ip \<Rightarrow>
          if expected \<noteq> None \<and> expected \<noteq> Some ip then denied ExpectedIpMismatch
          else State_Monad.return (Inr (ip, None)))"

definition authorize_and_dial ::
  "('net, 'name) ConnectBroker \<Rightarrow> ConnectTarget \<Rightarrow> u16 \<Rightarrow> IpAddr option \<Rightarrow> ('net, ConnectFailure + AuthorizedDial) prog" where
  "authorize_and_dial b target port expected = do {
     policy \<leftarrow> take_snapshot (cb_policy b);
     reserved \<leftarrow> reserved_target target port;
     case reserved of
       Inl _ \<Rightarrow> denied StatusMalformed
     | Inr True \<Rightarrow> denied PolicyDenied
     | Inr False \<Rightarrow>
         attempt (pin_target b policy target expected) (\<lambda>(ip, name).
           let decision = (case name of
                 Some n \<Rightarrow> decide_hostname (cb_nets b) policy n ip port Tcp
               | None \<Rightarrow> decide_direct_ip (cb_nets b) policy ip port Tcp)
           in if \<not> allowed decision then denied PolicyDenied
              else do {
                current \<leftarrow> check_current policy;
                if \<not> current then denied PolicyDenied else dial_target b policy target port ip }) }"

subsection \<open>Handlers\<close>

datatype ConnectFrontend = FrontendCustom | FrontendSocks5 | FrontendHttp

text \<open>
  What a client sends: the chunks that arrive before the deadline of the handshake, the bytes that arrive before
  the second deadline of a SOCKS5 handshake, and whether the client then stalls, rather than closes.
\<close>

record client =
  cl_chunks :: "bytes list"
  cl_later :: bytes
  cl_stalls :: bool

text \<open>A write to the upstream connection; its success is decided like that of a write to the client.\<close>

definition write_upstream :: "bytes \<Rightarrow> ('net, bool) prog" where
  "write_upstream bs = State (\<lambda>r.
     (run_writes r = [] \<or> hd (run_writes r),
      r\<lparr>run_writes := tl (run_writes r), run_trace := run_trace r @ [Forwarded bs]\<rparr>))"

text \<open>A write followed by \<open>?\<close>: the rest is done if it succeeds; the handler's value tells whether it returned \<open>Ok\<close>.\<close>

definition written :: "('net, bool) prog \<Rightarrow> ('net, bool) prog \<Rightarrow> ('net, bool) prog" where
  "written w rest = do { ok \<leftarrow> w; if ok then rest else State_Monad.return False }"

definition ignoring :: "('net, bool) prog \<Rightarrow> ('net, bool) prog" where
  "ignoring w = do { w; State_Monad.return True }"

definition proxy :: "('net, bool) prog" where
  "proxy = do { emit Proxied; State_Monad.return True }"

definition resolution_failure_head :: "bytes \<Rightarrow> bytes" where
  "resolution_failure_head body = as_bytes (str ''HTTP/1.1 502 Bad Gateway'' @ [13, 10]
     @ str ''Proxy-Status: sendbox; error=dns_error'' @ [13, 10] @ str ''Content-Type: application/json'' @ [13, 10]
     @ str ''Content-Length: '' @ show_nat (length body) @ [13, 10] @ str ''Connection: close'' @ [13, 10, 13, 10])"

definition http_denied :: "('net, 'name) ConnectBroker \<Rightarrow> ConnectFailure \<Rightarrow> ('net, bool) prog" where
  "http_denied b f =
     (case cf_resolution f of
        Some why \<Rightarrow>
          (case cb_json b why of
             None \<Rightarrow> State_Monad.return False
           | Some body \<Rightarrow> written (write_client (resolution_failure_head body)) (write_client body))
      | None \<Rightarrow> write_client (http_status (cf_status f)))"

definition handle_http :: "('net, 'name) ConnectBroker \<Rightarrow> client \<Rightarrow> ('net, bool) prog" where
  "handle_http b c =
     (case http_read_request (cb_http b) (cl_chunks c) of
        Inl e \<Rightarrow>
          (let late = (e = ''HTTP proxy handshake is incomplete'' \<and> cl_stalls c)
           in do {
             audit (ConnectError (if late then ''handshake_timeout'' else ''http_handshake''));
             write_client (http_status (if late then StatusTimeout else StatusMalformed)) })
      | Inr q \<Rightarrow>
          (let label = target_label (hp_target q)
           in do {
             x \<leftarrow> authorize_and_dial b (hp_target q) (hp_port q) None;
             case x of
               Inr dial \<Rightarrow> do {
                 audit (ConnectAllowed label (ad_target_ip dial) (hp_port q));
                 written (case hp_forwarded_head q of
                            Some head \<Rightarrow> write_upstream head
                          | None \<Rightarrow> write_client (http_status StatusOk))
                   (written (write_upstream (hp_prefetched q)) proxy) }
             | Inl f \<Rightarrow> do {
                 audit (ConnectDenied label (hp_port q) (status_as_str (cf_status f)));
                 http_denied b f } }))"

definition handle_custom :: "('net, 'name) ConnectBroker \<Rightarrow> client \<Rightarrow> ('net, bool) prog" where
  "handle_custom b c =
     (case decode_request (concat (cl_chunks c)) of
        Inl e \<Rightarrow>
          if e = CIo \<and> cl_stalls c then do {
            audit (ConnectError ''handshake_timeout''); ignoring (write_client (status_frame StatusTimeout)) }
          else do { audit (ConnectError ''malformed''); ignoring (write_client (status_frame StatusMalformed)) }
      | Inr (q, _) \<Rightarrow>
          (let label = target_label (cr_target q)
           in if cr_protocol q \<noteq> ConnectTcp then do {
                audit (ConnectUnsupportedProtocol label (cr_port q));
                ignoring (write_client (status_frame UnsupportedProtocol)) }
              else do {
                x \<leftarrow> authorize_and_dial b (cr_target q) (cr_port q) (cr_expected_ip q);
                case x of
                  Inr dial \<Rightarrow>
                    written (write_client (status_frame StatusOk)) (do {
                      audit (ConnectAllowed label (ad_target_ip dial) (cr_port q));
                      proxy })
                | Inl f \<Rightarrow> do {
                    audit (ConnectDenied label (cr_port q) (status_as_str (cf_status f)));
                    ignoring (write_client (status_frame (cf_status f))) } }))"

definition socks_reply_for_status :: "ConnectStatus \<Rightarrow> Socks5Reply" where
  "socks_reply_for_status status =
     (case status of
        StatusOk \<Rightarrow> Succeeded
      | PolicyDenied \<Rightarrow> NotAllowed | ExpectedIpMismatch \<Rightarrow> NotAllowed
      | ResolutionFailed \<Rightarrow> HostUnreachable
      | ConnectFailed \<Rightarrow> ConnectionRefused
      | UnsupportedProtocol \<Rightarrow> CommandNotSupported
      | StatusMalformed \<Rightarrow> GeneralFailure | StatusTimeout \<Rightarrow> GeneralFailure | LimitExceeded \<Rightarrow> GeneralFailure)"

text \<open>The SOCKS5 request, read after the negotiation.\<close>

definition serve_socks5 :: "('net, 'name) ConnectBroker \<Rightarrow> bool \<Rightarrow> bytes \<Rightarrow> ('net, bool) prog" where
  "serve_socks5 b stalls input =
     (case socks_read_request input of
        Inl (UnsupportedAddressType _) \<Rightarrow> do {
          audit (ConnectError ''socks_address_type''); ignoring (write_client (socks_failure AddressTypeNotSupported)) }
      | Inl e \<Rightarrow> do {
          audit (ConnectError (if e = SIo \<and> stalls then ''handshake_timeout'' else ''socks_malformed''));
          ignoring (write_client (socks_failure GeneralFailure)) }
      | Inr (q, _) \<Rightarrow>
          (let label = target_label (sr_target q)
           in if sr_command q \<noteq> SocksConnect then do {
                audit (ConnectUnsupportedProtocol label (sr_port q));
                ignoring (write_client (socks_failure CommandNotSupported)) }
              else do {
                x \<leftarrow> authorize_and_dial b (sr_target q) (sr_port q) None;
                case x of
                  Inr dial \<Rightarrow>
                    written (write_client (socks_reply Succeeded (case ad_local dial of Some a \<Rightarrow> a | None \<Rightarrow> (V4 0, 0)))) (do {
                      audit (ConnectAllowed label (ad_target_ip dial) (sr_port q));
                      proxy })
                | Inl f \<Rightarrow> do {
                    audit (ConnectDenied label (sr_port q) (status_as_str (cf_status f)));
                    ignoring (write_client (socks_failure (socks_reply_for_status (cf_status f)))) } }))"

definition handle_socks5 :: "('net, 'name) ConnectBroker \<Rightarrow> client \<Rightarrow> ('net, bool) prog" where
  "handle_socks5 b c =
     (case negotiate (concat (cl_chunks c)) of
        (Inr _, out, rest) \<Rightarrow>
          do {
            ok \<leftarrow> write_client out;
            if ok then serve_socks5 b (cl_stalls c) (rest @ cl_later c)
            else do { audit (ConnectError ''socks_negotiation''); State_Monad.return True } }
      | (Inl e, out, _) \<Rightarrow> do {
          (if out = [] then State_Monad.return True else write_client out);
          audit (ConnectError (if e = SIo \<and> cl_stalls c then ''handshake_timeout'' else ''socks_negotiation''));
          State_Monad.return True })"

definition handle_client :: "('net, 'name) ConnectBroker \<Rightarrow> ConnectFrontend \<Rightarrow> client \<Rightarrow> ('net, bool) prog" where
  "handle_client b frontend c =
     (case frontend of
        FrontendCustom \<Rightarrow> handle_custom b c
      | FrontendSocks5 \<Rightarrow> handle_socks5 b c
      | FrontendHttp \<Rightarrow> handle_http b c)"

subsection \<open>Where a pinned address comes from\<close>

text \<open>
  The trace shows where a candidate was obtained: a lookup of the cache under the snapshot's revision, or a
  resolution of the name all of whose hops the snapshot grants, whose address it permits.
\<close>

definition looked_up :: "'net event list \<Rightarrow> rstr \<Rightarrow> nat \<Rightarrow> IpAddr \<Rightarrow> bool" where
  "looked_up tr name revision ip \<longleftrightarrow> (\<exists>ips. LookedUp name revision ips \<in> set tr \<and> ip \<in> set ips)"

definition resolved_to ::
  "('net, 'name) ConnectBroker \<Rightarrow> 'net PolicySnapshot \<Rightarrow> 'net event list \<Rightarrow> rstr \<Rightarrow> IpAddr \<Rightarrow> bool" where
  "resolved_to b s tr n ip \<longleftrightarrow> Charged n (Inr ()) \<in> set tr \<and> Asked n \<in> set tr \<and>
     (\<exists>name chain. name_from_ascii (cb_names b) (n @ str ''.'') = Some name \<and> cb_resolver b name = Some (Inr chain)
        \<and> (\<forall>hop \<in> set (names_to_validate chain). evaluate_domain_name s (name_to_utf8 (cb_names b) hop) = Inr True)
        \<and> (\<exists>addr \<in> set (rc_addresses chain). ip = canonicalize (ra_ip addr)
              \<and> Authorized n ip (cap_ttl (cb_policy b) (ra_ttl_secs addr)) (ps_revision s) \<in> set tr))
     \<and> allowed (address_permitted (cb_nets b) s ip)"

lemma set_dedup: "set (dedup_addresses xs) \<subseteq> set xs"
  by (induction xs rule: dedup_addresses.induct) (auto split: if_splits)

lemma set_validated:
  assumes "(ip, ttl) \<in> set (validated_addresses b s addresses)"
  shows "\<exists>addr \<in> set addresses. ip = canonicalize (ra_ip addr) \<and> ttl = ra_ttl_secs addr"
    and "allowed (address_permitted (cb_nets b) s ip)"
proof -
  from assms have "(ip, ttl) \<in> set (map (\<lambda>addr. (canonicalize (ra_ip addr), ra_ttl_secs addr)) addresses)
    \<and> allowed (address_permitted (cb_nets b) s ip)"
    unfolding validated_addresses_def Let_def by (force dest!: in_set_takeD subsetD [OF set_dedup])
  then show "\<exists>addr \<in> set addresses. ip = canonicalize (ra_ip addr) \<and> ttl = ra_ttl_secs addr"
    "allowed (address_permitted (cb_nets b) s ip)" by auto
qed

lemma does_authorize_all:
  "does (authorize_all b s n validated)
     (\<lambda>tr _. tr = map (\<lambda>(ip, ttl). Authorized n ip (cap_ttl (cb_policy b) ttl) (ps_revision s)) validated)"
  unfolding authorize_all_def by (rule does_for_each) (auto intro: does_authorize)

lemma dials_Authorized: "dials (map (\<lambda>(ip, ttl). Authorized n ip (f ttl) r) xs) = []"
  by (induction xs) auto

lemma does_denied [does_intros]: "Q [] (Inl (failure st)) \<Longrightarrow> does (denied st) Q"
  unfolding denied_def by (rule does_return)

text \<open>No dialing, and a candidate that is new was resolved.\<close>

definition fresh_ok ::
  "('net, 'name) ConnectBroker \<Rightarrow> 'net PolicySnapshot \<Rightarrow> rstr \<Rightarrow> IpAddr list \<Rightarrow> 'net event list \<Rightarrow> ConnectFailure + IpAddr list \<Rightarrow> bool" where
  "fresh_ok b s n candidates tr x \<longleftrightarrow> dials tr = [] \<and>
     (\<forall>cs ip. x = Inr cs \<longrightarrow> ip \<in> set cs \<longrightarrow> ip \<in> set candidates \<or> resolved_to b s tr n ip)"

lemma does_accept_chain:
  assumes "name_from_ascii (cb_names b) (n @ str ''.'') = Some name" "cb_resolver b name = Some (Inr chain)"
  shows "does (accept_chain b s n candidates chain) (\<lambda>tr. fresh_ok b s n candidates ([Charged n (Inr ()), Asked n] @ tr))"
proof (cases "list_all (\<lambda>hop. evaluate_domain_name s (name_to_utf8 (cb_names b) hop) = Inr True) (names_to_validate chain)")
  case False
  then show ?thesis unfolding accept_chain_def by (auto intro!: does_denied simp: fresh_ok_def)
next
  case True
  let ?v = "validated_addresses b s (rc_addresses chain)"
  have fresh: "resolved_to b s ([Charged n (Inr ()), Asked n, Viewed m now]
      @ map (\<lambda>(ip, ttl). Authorized n ip (cap_ttl (cb_policy b) ttl) (ps_revision s)) ?v) n ip"
    if v: "(ip, ttl) \<in> set ?v" for ip ttl m now
    using set_validated [OF v] True assms v unfolding resolved_to_def list_all_iff by force
  show ?thesis
    unfolding accept_chain_def using True
    by (auto simp: Let_def fresh_ok_def dials_Authorized intro!: does_bind [OF does_check_current] does_denied
      does_bind [OF does_authorize_all] does_return) (use fresh [simplified] in blast)
qed

lemma does_fresh_resolve: "does (fresh_resolve b s n candidates) (fresh_ok b s n candidates)"
  unfolding fresh_resolve_def
proof (rule does_bind [OF does_charge], goal_cases)
  case (1 tr charged)
  then show ?case
    by (auto simp: Let_def fresh_ok_def split: sum.splits option.splits
      intro!: does_bind [OF does_audit] does_bind [OF does_emit] does_denied does_return
        does_mono [OF does_accept_chain])
qed

subsection \<open>What is dialed\<close>

definition obtained ::
  "('net, 'name) ConnectBroker \<Rightarrow> 'net PolicySnapshot \<Rightarrow> 'net event list \<Rightarrow> rstr \<Rightarrow> IpAddr \<Rightarrow> bool" where
  "obtained b s tr n ip \<longleftrightarrow> looked_up tr n (ps_revision s) ip \<or> resolved_to b s tr n ip"

lemma obtained_append: "obtained b s tr n ip \<Longrightarrow> obtained b s (xs @ tr @ ys) n ip"
  unfolding obtained_def looked_up_def resolved_to_def by auto

definition pinned_ok ::
  "('net, 'name) ConnectBroker \<Rightarrow> 'net PolicySnapshot \<Rightarrow> rstr \<Rightarrow> IpAddr option \<Rightarrow> 'net event list
     \<Rightarrow> ConnectFailure + rstr \<times> IpAddr \<Rightarrow> bool" where
  "pinned_ok b s n expected tr x \<longleftrightarrow> dials tr = [] \<and>
     (\<forall>n' ip. x = Inr (n', ip) \<longrightarrow> n' = n \<and> (expected = None \<or> expected = Some ip) \<and> obtained b s tr n ip)"

lemma choose_pinned_Inr:
  "choose_pinned n expected cs = Inr (n', ip) \<Longrightarrow> n' = n \<and> ip \<in> set cs \<and> (expected = None \<or> expected = Some ip)"
  by (auto simp: choose_pinned_def split: if_splits option.splits)

lemma does_pin_candidates: "does (pin_candidates b s n expected) (pinned_ok b s n expected)"
  unfolding pin_candidates_def
proof (rule does_bind [OF does_lookup], goal_cases)
  case (1 tr candidates)
  have choose: "does (State_Monad.return (choose_pinned n expected cs)) (\<lambda>tr'. pinned_ok b s n expected ((tr @ tr0) @ tr'))"
    if "fresh_ok b s n candidates tr0 (Inr cs)" for tr0 cs
  proof (rule does_return)
    show "pinned_ok b s n expected ((tr @ tr0) @ []) (choose_pinned n expected cs)"
      using that 1 by (auto simp: pinned_ok_def fresh_ok_def obtained_def looked_up_def resolved_to_def dest!: choose_pinned_Inr)
  qed
  have "does (if \<not> need then State_Monad.return (Inr candidates)
        else if \<not> pe_allow_dns (cb_policy b) then
          (if candidates = [] then denied ResolutionFailed else State_Monad.return (Inr candidates))
        else fresh_resolve b s n candidates) (fresh_ok b s n candidates)" for need
    by (auto simp: fresh_ok_def intro!: does_return does_denied does_mono [OF does_fresh_resolve])
  then show ?case
    unfolding Let_def
    by (rule does_attempt) (use 1 in \<open>simp add: pinned_ok_def fresh_ok_def\<close>, use choose in simp)
qed

definition host_ok ::
  "('net, 'name) ConnectBroker \<Rightarrow> 'net PolicySnapshot \<Rightarrow> rstr \<Rightarrow> rstr \<Rightarrow> bool" where
  "host_ok b s host n \<longleftrightarrow> normalize_domain host = Inr n \<and> check_structure (cb_guard b) n = Inr ()"

lemma does_resolve_pinned:
  "does (resolve_pinned b s host expected) (\<lambda>tr x. dials tr = [] \<and>
     (\<forall>n ip. x = Inr (n, ip) \<longrightarrow> host_ok b s host n \<and> (expected = None \<or> expected = Some ip) \<and> obtained b s tr n ip))"
  unfolding resolve_pinned_def
  by (auto simp: host_ok_def split: sum.splits intro!: does_denied does_bind [OF does_audit]
      does_mono [OF does_pin_candidates]) (auto simp: pinned_ok_def)

definition pin_ok ::
  "('net, 'name) ConnectBroker \<Rightarrow> 'net PolicySnapshot \<Rightarrow> ConnectTarget \<Rightarrow> IpAddr option \<Rightarrow> 'net event list
     \<Rightarrow> ConnectFailure + IpAddr \<times> rstr option \<Rightarrow> bool" where
  "pin_ok b s target expected tr x \<longleftrightarrow> dials tr = [] \<and>
     (\<forall>ip name. x = Inr (ip, name) \<longrightarrow> (expected = None \<or> expected = Some ip) \<and>
        (case target of
           Hostname host \<Rightarrow> \<exists>n. name = Some n \<and> host_ok b s host n \<and> obtained b s tr n ip
         | TargetIp a \<Rightarrow> name = None \<and> ip = a))"

lemma does_pin_target: "does (pin_target b s target expected) (pin_ok b s target expected)"
proof (cases target)
  case (Hostname host)
  then show ?thesis
    by (auto simp: pin_target_def pin_ok_def intro!: does_attempt [OF does_resolve_pinned] does_return)
next
  case (TargetIp a)
  then show ?thesis by (auto simp: pin_target_def pin_ok_def intro!: does_denied does_return)
qed

text \<open>
  What a dial of \<open>ip\<close> needs: the snapshot allows it, the target is not reserved, the client's expectation is met,
  and a hostname's address was obtained for that very name.
\<close>

definition dial_permitted ::
  "('net, 'name) ConnectBroker \<Rightarrow> 'net PolicySnapshot \<Rightarrow> ConnectTarget \<Rightarrow> u16 \<Rightarrow> IpAddr option \<Rightarrow> 'net event list
     \<Rightarrow> IpAddr \<Rightarrow> bool" where
  "dial_permitted b s target port expected tr ip \<longleftrightarrow>
     (expected = None \<or> expected = Some ip) \<and> address_clear (cb_nets b) s ip \<and> port_allowed s Tcp port \<and>
     (case target of
        Hostname host \<Rightarrow> (\<exists>rs n. Consulted rs \<in> set tr \<and> denies_hostname rs host port = Inr False
          \<and> normalize_domain host = Inr n \<and> check_structure (cb_guard b) n = Inr () \<and> name_granted s n
          \<and> obtained b s tr n ip)
      | TargetIp a \<Rightarrow> (\<exists>rs. Consulted rs \<in> set tr \<and> denies_direct_ip rs a port = Inr False)
          \<and> ip = a \<and> network_granted (cb_nets b) s ip)"

text \<open>
  What \<open>authorize_and_dial\<close> does: nothing is dialed, or exactly one address is, after a snapshot that permits it
  and was still current in the step before, and it succeeds only if it was current again after dialing.
\<close>

definition dial_once ::
  "('net, 'name) ConnectBroker \<Rightarrow> ConnectTarget \<Rightarrow> u16 \<Rightarrow> IpAddr option \<Rightarrow> 'net event list
     \<Rightarrow> ConnectFailure + AuthorizedDial \<Rightarrow> bool" where
  "dial_once b target port expected tr x \<longleftrightarrow>
     (dials tr = [] \<and> (\<exists>f. x = Inl f)) \<or>
     (\<exists>m now s pre m1 now1 ip post. s = snapshot (cb_policy b) m now
        \<and> tr = Viewed m now # pre @ [Viewed m1 now1, Dialled ip port] @ post \<and> dials pre = [] \<and> dials post = [] \<and> Proxied \<notin> set post
        \<and> is_current s m1 now1 \<and> dial_permitted b s target port expected pre ip
        \<and> (\<forall>d. x = Inr d \<longrightarrow> ad_target_ip d = ip \<and> (\<exists>m2 now2. post = [Viewed m2 now2] \<and> is_current s m2 now2)))"

lemma dial_onceI:
  assumes "s = snapshot (cb_policy b) m now" "tr = Viewed m now # pre @ [Viewed m1 now1, Dialled ip port] @ post"
    "dials pre = []" "dials post = []" "Proxied \<notin> set post" "is_current s m1 now1" "dial_permitted b s target port expected pre ip"
    "\<forall>d. x = Inr d \<longrightarrow> ad_target_ip d = ip \<and> (\<exists>m2 now2. post = [Viewed m2 now2] \<and> is_current s m2 now2)"
  shows "dial_once b target port expected tr x"
  unfolding dial_once_def using assms by blast

lemma does_dial_target:
  "does (dial_target b s target port ip) (\<lambda>tr x. \<exists>post. tr = Dialled ip port # post \<and> dials post = [] \<and> Proxied \<notin> set post \<and>
     (\<forall>d. x = Inr d \<longrightarrow> ad_target_ip d = ip \<and> (\<exists>m2 now2. post = [Viewed m2 now2] \<and> is_current s m2 now2)))"
  unfolding dial_target_def
  by (rule does_bind [OF does_emit])
     (auto split: sum.splits intro!: does_bind [OF does_check_current] does_bind [OF does_audit] does_return does_denied)

lemma pin_dial_permitted:
  assumes "pin_ok b s target expected tr (Inr (ip, name))" "Consulted rs \<in> set pre"
    and "(case target of Hostname host \<Rightarrow> denies_hostname rs host port | TargetIp a \<Rightarrow> denies_direct_ip rs a port) = Inr False"
    and "allowed (case name of Some n \<Rightarrow> decide_hostname (cb_nets b) s n ip port Tcp
                            | None \<Rightarrow> decide_direct_ip (cb_nets b) s ip port Tcp)"
  shows "dial_permitted b s target port expected (pre @ tr) ip"
proof (cases target)
  case (Hostname host)
  with assms obtain n where n: "name = Some n" "host_ok b s host n" "obtained b s tr n ip" "expected = None \<or> expected = Some ip"
    by (auto simp: pin_ok_def)
  then have "normalize_domain n = Inr n" unfolding host_ok_def using normalize_domain_canonical normalize_domain_id by blast
  with Hostname assms n obtained_append [OF n(3), of pre "[]"] show ?thesis
    by (auto simp: dial_permitted_def host_ok_def decide_hostname_allowed)
next
  case (TargetIp a)
  with assms show ?thesis by (auto simp: dial_permitted_def pin_ok_def decide_direct_ip_allowed)
qed

lemma dial_once_pinned:
  assumes p: "pin_ok b s target expected tr (Inr (ip, name))" and s: "s = snapshot (cb_policy b) m now"
    and r: "(case target of Hostname host \<Rightarrow> denies_hostname rs host port | TargetIp a \<Rightarrow> denies_direct_ip rs a port) = Inr False"
    and d: "allowed (case name of Some n \<Rightarrow> decide_hostname (cb_nets b) s n ip port Tcp
                            | None \<Rightarrow> decide_direct_ip (cb_nets b) s ip port Tcp)"
  shows "does (do { current \<leftarrow> check_current s; if \<not> current then denied PolicyDenied else dial_target b s target port ip })
           (\<lambda>tr'. dial_once b target port expected (Viewed m now # Consulted rs # tr @ tr'))"
proof (rule does_bind [OF does_check_current], goal_cases)
  case (1 tr1 current)
  then obtain m1 now1 where v: "tr1 = [Viewed m1 now1]" "current \<longleftrightarrow> is_current s m1 now1" by blast
  have quiet: "dials tr = []" using p by (simp add: pin_ok_def)
  show ?case
  proof (cases current)
    case False
    with v quiet show ?thesis by (auto intro!: does_denied simp: dial_once_def)
  next
    case True
    note permitted = pin_dial_permitted [OF p _ r d, of "[Consulted rs]"]
    have "does (dial_target b s target port ip)
        (\<lambda>tr'. dial_once b target port expected (Viewed m now # (Consulted rs # tr) @ [Viewed m1 now1] @ tr'))"
    proof (rule does_mono [OF does_dial_target], goal_cases)
      case (1 tr' x)
      then obtain post where "tr' = Dialled ip port # post" "dials post = []" "Proxied \<notin> set post"
        "\<forall>d. x = Inr d \<longrightarrow> ad_target_ip d = ip \<and> (\<exists>m2 now2. post = [Viewed m2 now2] \<and> is_current s m2 now2)" by blast
      with permitted True v quiet show ?case
        by (intro dial_onceI [OF s, where pre = "Consulted rs # tr" and post = post and ip = ip and ?m1.0 = m1 and ?now1.0 = now1]) simp_all
    qed
    with True v show ?thesis by simp
  qed
qed

lemma does_authorize_and_dial: "does (authorize_and_dial b target port expected) (dial_once b target port expected)"
  unfolding authorize_and_dial_def
proof (rule does_bind [OF does_take_snapshot], goal_cases)
  case (1 tr s)
  then obtain m now where s: "tr = [Viewed m now]" "s = snapshot (cb_policy b) m now" by blast
  show ?case
  proof (rule does_bind [OF does_reserved], goal_cases)
    case (1 tr1 reserved)
    then obtain rs where rs: "tr1 = [Consulted rs]"
      "reserved = (case target of Hostname host \<Rightarrow> denies_hostname rs host port | TargetIp a \<Rightarrow> denies_direct_ip rs a port)" by blast
    show ?case
    proof (cases "reserved = Inr False")
      case False
      then show ?thesis
        using s rs(1) by (auto simp: dial_once_def split: sum.splits bool.splits intro!: does_denied)
    next
      case True
      have "does (attempt (pin_target b s target expected) (\<lambda>(ip, name).
           let decision = (case name of
                 Some n \<Rightarrow> decide_hostname (cb_nets b) s n ip port Tcp
               | None \<Rightarrow> decide_direct_ip (cb_nets b) s ip port Tcp)
           in if \<not> allowed decision then denied PolicyDenied
              else do {
                current \<leftarrow> check_current s;
                if \<not> current then denied PolicyDenied else dial_target b s target port ip }))
          (\<lambda>tr'. dial_once b target port expected (Viewed m now # Consulted rs # tr'))"
      proof (rule does_attempt [OF does_pin_target], goal_cases)
        case (1 tr2 e)
        then show ?case by (simp add: pin_ok_def dial_once_def)
      next
        case (2 tr2 a)
        obtain ip name where a: "a = (ip, name)" by fastforce
        show ?case
        proof (cases "allowed (case name of Some n \<Rightarrow> decide_hostname (cb_nets b) s n ip port Tcp
                            | None \<Rightarrow> decide_direct_ip (cb_nets b) s ip port Tcp)")
          case False
          then show ?thesis using a 2 by (auto simp: Let_def pin_ok_def dial_once_def intro!: does_denied)
        next
          case True
          then show ?thesis
            using dial_once_pinned [OF 2 [unfolded a] s(2), of rs port] rs \<open>reserved = Inr False\<close> a by (simp add: Let_def)
        qed
      qed
      with True s rs(1) show ?thesis by simp
    qed
  qed
qed

subsection \<open>Handlers dial what was requested\<close>

definition quiet :: "('net, 'a) prog \<Rightarrow> bool" where
  "quiet m \<longleftrightarrow> does m (\<lambda>tr _. dials tr = [])"

lemma quiet_return: "quiet (State_Monad.return a)"
  unfolding quiet_def by (rule does_return) simp

lemma quiet_bind: "quiet m \<Longrightarrow> (\<And>a. quiet (f a)) \<Longrightarrow> quiet (State_Monad.bind m f)"
  unfolding quiet_def by (rule does_bind) (auto elim: does_mono)

lemma quiet_steps: "quiet (audit e)" "quiet (write_client bs)" "quiet (write_upstream bs)" "quiet proxy"
proof -
  show "quiet (audit e)" unfolding quiet_def by (rule does_mono [OF does_audit]) simp
  show "quiet (write_client bs)" unfolding quiet_def by (rule does_mono [OF does_write]) simp
  show "quiet (write_upstream bs)" by (simp add: quiet_def does_def write_upstream_def)
  show "quiet proxy"
    unfolding proxy_def quiet_def by (rule does_bind [OF does_emit]) (auto intro: does_return)
qed

lemma quiet_writes: "quiet w \<Longrightarrow> quiet rest \<Longrightarrow> quiet (written w rest)" "quiet w \<Longrightarrow> quiet (ignoring w)"
  by (auto simp: written_def ignoring_def intro!: quiet_bind quiet_return)

lemmas quiet_intros = quiet_return quiet_bind quiet_steps quiet_writes

definition unproxied :: "('net, 'a) prog \<Rightarrow> bool" where
  "unproxied m \<longleftrightarrow> does m (\<lambda>tr _. Proxied \<notin> set tr)"

lemma unproxied_bind: "unproxied m \<Longrightarrow> (\<And>a. unproxied (f a)) \<Longrightarrow> unproxied (State_Monad.bind m f)"
  unfolding unproxied_def by (rule does_bind) (auto elim: does_mono)

lemma unproxied_steps: "unproxied (State_Monad.return a)" "unproxied (audit e)" "unproxied (write_client bs)"
proof -
  show "unproxied (State_Monad.return a)" unfolding unproxied_def by (rule does_return) simp
  show "unproxied (audit e)" unfolding unproxied_def by (rule does_mono [OF does_audit]) simp
  show "unproxied (write_client bs)" unfolding unproxied_def by (rule does_mono [OF does_write]) simp
qed

lemma unproxied_writes:
  "unproxied w \<Longrightarrow> unproxied rest \<Longrightarrow> unproxied (written w rest)" "unproxied w \<Longrightarrow> unproxied (ignoring w)"
  by (auto simp: written_def ignoring_def intro!: unproxied_bind unproxied_steps)

lemmas unproxied_intros = unproxied_bind unproxied_steps unproxied_writes

lemma does_conj: "does m P \<Longrightarrow> does m Q \<Longrightarrow> does m (\<lambda>tr a. P tr a \<and> Q tr a)"
  unfolding does_def by (metis same_append_eq)

definition served ::
  "('net, 'name) ConnectBroker \<Rightarrow> ConnectTarget \<Rightarrow> u16 \<Rightarrow> IpAddr option \<Rightarrow> 'net event list \<Rightarrow> bool" where
  "served b target port expected tr \<longleftrightarrow>
     (\<exists>core x post. tr = core @ post \<and> dials post = [] \<and> dial_once b target port expected core x
        \<and> (Proxied \<in> set post \<longrightarrow> (\<exists>d. x = Inr d)))"

lemma does_served:
  assumes "\<And>x. quiet (f x)" "\<And>e. unproxied (f (Inl e))"
  shows "does (State_Monad.bind (authorize_and_dial b target port expected) f) (\<lambda>tr _. served b target port expected tr)"
proof (rule does_bind [OF does_authorize_and_dial], goal_cases)
  case (1 tr x)
  have "does (f x) (\<lambda>tr' _. dials tr' = [] \<and> (Proxied \<in> set tr' \<longrightarrow> (\<exists>d. x = Inr d)))"
  proof (cases x)
    case (Inl e)
    from assms(2) [of e, unfolded unproxied_def] assms(1) [of "Inl e", unfolded quiet_def] Inl show ?thesis
      by (auto intro: does_mono [OF does_conj])
  next
    case (Inr d)
    with assms(1) [of x, unfolded quiet_def] show ?thesis by simp
  qed
  then show ?case by (rule does_mono) (use 1 in \<open>auto simp: served_def\<close>)
qed

text \<open>The request that a client of a front end makes.\<close>

definition requested ::
  "('net, 'name) ConnectBroker \<Rightarrow> ConnectFrontend \<Rightarrow> client \<Rightarrow> ConnectTarget \<Rightarrow> u16 \<Rightarrow> IpAddr option \<Rightarrow> bool" where
  "requested b frontend c target port expected \<longleftrightarrow>
     (case frontend of
        FrontendCustom \<Rightarrow> (\<exists>q rest. decode_request (concat (cl_chunks c)) = Inr (q, rest) \<and> cr_protocol q = ConnectTcp
          \<and> target = cr_target q \<and> port = cr_port q \<and> expected = cr_expected_ip q)
      | FrontendSocks5 \<Rightarrow> (\<exists>out rest q rest'. negotiate (concat (cl_chunks c)) = (Inr (), out, rest)
          \<and> socks_read_request (rest @ cl_later c) = Inr (q, rest') \<and> sr_command q = SocksConnect
          \<and> target = sr_target q \<and> port = sr_port q \<and> expected = None)
      | FrontendHttp \<Rightarrow> (\<exists>q. http_read_request (cb_http b) (cl_chunks c) = Inr q
          \<and> target = hp_target q \<and> port = hp_port q \<and> expected = None))"

definition handled ::
  "('net, 'name) ConnectBroker \<Rightarrow> ConnectFrontend \<Rightarrow> client \<Rightarrow> 'net event list \<Rightarrow> bool" where
  "handled b frontend c tr \<longleftrightarrow> dials tr = [] \<or>
     (\<exists>target port expected pre core. requested b frontend c target port expected \<and> tr = pre @ core \<and> dials pre = []
        \<and> served b target port expected core)"

lemma handledI:
  assumes "requested b frontend c target port expected" "\<And>x. quiet (f x)" "\<And>e. unproxied (f (Inl e))"
  shows "does (State_Monad.bind (authorize_and_dial b target port expected) f) (\<lambda>tr _. handled b frontend c tr)"
proof (rule does_mono [OF does_served [of f, OF assms(2,3)]])
  show "handled b frontend c tr" if "served b target port expected tr" for tr
    unfolding handled_def using assms(1) that by (intro disjI2 exI conjI) (assumption | rule append_Nil [symmetric] | simp)+
qed

lemma handled_quiet: "quiet m \<Longrightarrow> does m (\<lambda>tr _. handled b frontend c tr)"
  unfolding quiet_def by (erule does_mono) (simp add: handled_def)

lemma does_handle_custom: "does (handle_custom b c) (\<lambda>tr _. handled b FrontendCustom c tr)"
  unfolding handle_custom_def
  by (auto simp: Let_def requested_def split: sum.splits prod.splits
      intro!: handledI quiet_intros unproxied_intros intro: handled_quiet)

lemma quiet_http_denied: "quiet (http_denied b f)"
  unfolding http_denied_def by (auto split: option.splits intro!: quiet_intros)

lemma unproxied_http_denied: "unproxied (http_denied b f)"
  unfolding http_denied_def by (auto split: option.splits intro!: unproxied_intros)

lemma does_handle_http: "does (handle_http b c) (\<lambda>tr _. handled b FrontendHttp c tr)"
  unfolding handle_http_def
  by (auto simp: Let_def requested_def split: sum.splits option.splits
      intro!: handledI quiet_intros unproxied_intros intro: handled_quiet quiet_http_denied unproxied_http_denied)

lemma handled_prefix: "dials pre = [] \<Longrightarrow> handled b frontend c tr \<Longrightarrow> handled b frontend c (pre @ tr)"
  unfolding handled_def by (metis append.assoc append_Nil dials_append)

lemma does_serve_socks5:
  assumes "negotiate (concat (cl_chunks c)) = (Inr (), out, rest)"
  shows "does (serve_socks5 b (cl_stalls c) (rest @ cl_later c)) (\<lambda>tr _. handled b FrontendSocks5 c tr)"
  unfolding serve_socks5_def using assms
  by (auto simp: Let_def requested_def split: sum.splits prod.splits Socks5Error.splits
      intro!: handledI quiet_intros unproxied_intros intro: handled_quiet)

lemma does_handle_socks5: "does (handle_socks5 b c) (\<lambda>tr _. handled b FrontendSocks5 c tr)"
proof (cases "negotiate (concat (cl_chunks c))")
  case (fields x out rest)
  show ?thesis
  proof (cases x)
    case (Inl e)
    then show ?thesis
      unfolding handle_socks5_def fields by (auto intro!: handled_quiet quiet_intros)
  next
    case (Inr u)
    with fields have n: "negotiate (concat (cl_chunks c)) = (Inr (), out, rest)" by simp
    show ?thesis
      unfolding handle_socks5_def n prod.case sum.case
    proof (rule does_bind [OF does_write], goal_cases)
      case (1 tr ok)
      have "does (if ok then serve_socks5 b (cl_stalls c) (rest @ cl_later c)
          else do { audit (ConnectError ''socks_negotiation''); State_Monad.return True }) (\<lambda>tr _. handled b FrontendSocks5 c tr)"
        by (auto intro!: does_serve_socks5 [OF n] handled_quiet quiet_intros)
      then show ?case by (rule does_mono) (use 1 in \<open>simp add: handled_prefix [of "[Wrote out]", simplified]\<close>)
    qed
  qed
qed

lemma does_handle_client: "does (handle_client b frontend c) (\<lambda>tr _. handled b frontend c tr)"
  by (cases frontend) (simp_all add: handle_client_def does_handle_custom does_handle_socks5 does_handle_http)

subsection \<open>Properties\<close>

lemma handled_dial:
  assumes "handled b frontend c tr" "(ip, port) \<in> set (dials tr)"
  obtains target expected m now s pre before m1 now1 after where "requested b frontend c target port expected"
    "s = snapshot (cb_policy b) m now" "tr = pre @ [Viewed m now] @ before @ [Viewed m1 now1, Dialled ip port] @ after"
    "dials (pre @ before @ after) = []" "is_current s m1 now1" "dial_permitted b s target port expected before ip"
    "Proxied \<in> set after \<longrightarrow> (\<exists>m2 now2 rest. after = Viewed m2 now2 # rest \<and> is_current s m2 now2)"
proof -
  from assms obtain target port' expected pre core x post where h: "requested b frontend c target port' expected"
    "tr = pre @ core @ post" "dials pre = []" "dials post = []" "dial_once b target port' expected core x"
    "Proxied \<in> set post \<longrightarrow> (\<exists>d. x = Inr d)" "(ip, port) \<in> set (dials core)"
    by (auto simp: handled_def served_def)
  from h(5,7) obtain m now s before m1 now1 ip' mid where d: "s = snapshot (cb_policy b) m now"
    "core = Viewed m now # before @ [Viewed m1 now1, Dialled ip' port'] @ mid" "dials before = []" "dials mid = []"
    "Proxied \<notin> set mid" "is_current s m1 now1" "dial_permitted b s target port' expected before ip'"
    "\<forall>d. x = Inr d \<longrightarrow> ad_target_ip d = ip' \<and> (\<exists>m2 now2. mid = [Viewed m2 now2] \<and> is_current s m2 now2)"
    unfolding dial_once_def by (elim disjE exE conjE) (simp, blast)
  from d(2-4) h(7) have "ip' = ip" "port' = port" by simp_all
  with d h show thesis by (intro that [of target expected s m now pre before m1 now1 "mid @ post"]) auto
qed

text \<open>
  C1: Whatever a client sends over any front end, and whatever other handlers do meanwhile to the cache, the
  budget, the reserved origins and the published scope, an address is dialed only for a decoded TCP request, at
  its port, if the policy snapshot taken first permits it (the address is clear, the port and the name or network
  are granted), the target was not reserved, the client's expected address is that one, a hostname's address was
  obtained for that very name, and the snapshot was still current in the step before dialing.  At most one address
  is dialed per request, and bytes are proxied only if the snapshot was current again after the dial.
\<close>

theorem broker_dials_permitted:
  assumes "run_state (handle_client b frontend c) r = (ok, r')"
    and "(ip, port) \<in> set (dials (drop (length (run_trace r)) (run_trace r')))"
  shows "\<exists>target expected m now s pre before m1 now1 after. requested b frontend c target port expected
    \<and> s = snapshot (cb_policy b) m now
    \<and> run_trace r' = run_trace r @ pre @ [Viewed m now] @ before @ [Viewed m1 now1, Dialled ip port] @ after
    \<and> dials (pre @ before @ after) = [] \<and> is_current s m1 now1 \<and> dial_permitted b s target port expected before ip
    \<and> (Proxied \<in> set after \<longrightarrow> (\<exists>m2 now2 rest. after = Viewed m2 now2 # rest \<and> is_current s m2 now2))"
proof -
  from does_handle_client [of b frontend c, unfolded does_def] assms(1) obtain tr where
    tr: "run_trace r' = run_trace r @ tr" "handled b frontend c tr" by (metis fst_conv snd_conv)
  with assms(2) have "(ip, port) \<in> set (dials tr)" by simp
  then obtain target expected m now s pre before m1 now1 after where "requested b frontend c target port expected"
    "s = snapshot (cb_policy b) m now" "tr = pre @ [Viewed m now] @ before @ [Viewed m1 now1, Dialled ip port] @ after"
    "dials (pre @ before @ after) = []" "is_current s m1 now1" "dial_permitted b s target port expected before ip"
    "Proxied \<in> set after \<longrightarrow> (\<exists>m2 now2 rest. after = Viewed m2 now2 # rest \<and> is_current s m2 now2)"
    by (rule handled_dial [OF tr(2)])
  with tr(1) show ?thesis by - (intro exI conjI, assumption+, simp, assumption+)
qed

text \<open>A broker over a small policy whose dialer always connects, and a run of it.\<close>

definition sample_guard :: DnsGuard where
  "sample_guard = \<lparr>g_max_qname_octets = 20, g_max_labels = 4, g_max_label_octets = 8, g_allowed_record_types = [RecA],
     g_max_response_records = 2, g_window = 9, g_max_queries = 3, g_max_query_octets = 40, g_max_unique_names = 3,
     g_max_dynamic_labels = 3\<rparr>"

definition sample_engine :: "(IpAddr \<times> nat) PolicyEngine" where
  "sample_engine =
     \<lparr>pe_default_action = Allow, pe_allow_dns = True, pe_allowed_domains = [], pe_blocked_domains = [str ''b.io''],
      pe_allowed_networks = [], pe_blocked_networks = [(V4 0x0a000000, 8)], pe_allowed_ports = [],
      pe_max_concurrent_connections = 8,
      pe_dns = \<lparr>max_ttl_secs = 7, max_qname_octets = 20, max_labels = 4, max_label_octets = 8, allowed_record_types = [RecA],
        max_response_records = 2, budget = \<lparr>window_secs = 1, max_queries = 3, max_query_octets = 40, max_unique_names = 3,
          max_dynamic_labels = 3\<rparr>\<rparr>, pe_github_meta = False\<rparr>"

definition sample_broker :: "(IpAddr \<times> nat, rstr) ConnectBroker" where
  "sample_broker = \<lparr>cb_nets = cidr_ops, cb_names = \<lparr>name_to_utf8 = id, name_from_ascii = Some, name_eq = (=)\<rparr>,
     cb_policy = sample_engine, cb_guard = sample_guard,
     cb_resolver = (\<lambda>n. Some (Inr \<lparr>cname_chain = [], final_name = n, rc_addresses = [\<lparr>ra_ip = V4 0x01010101, ra_ttl_secs = 9\<rparr>]\<rparr>)),
     cb_dialer = (\<lambda>_. Inr None), cb_http = sample_http, cb_json = (\<lambda>_. None)\<rparr>"

definition sample_client :: client where
  "sample_client = \<lparr>cl_chunks = [encode_request \<lparr>cr_protocol = ConnectTcp, cr_port = 443, cr_target = TargetIp (V4 0x01010101),
     cr_expected_ip = None\<rparr>], cl_later = [], cl_stalls = False\<rparr>"

definition sample_run :: "bool list \<Rightarrow> (IpAddr \<times> nat) run" where
  "sample_run writes = \<lparr>run_shared = \<lparr>sh_cache = with_capacity 9, sh_window = WindowState_empty, sh_meta = State_default,
       sh_reservations = reservations_default, sh_now = 0\<rparr>,
     run_others = [\<lambda>sh. sh\<lparr>sh_now := 5\<rparr>], run_writes = writes, run_trace = []\<rparr>"

lemma sample_decode:
  "decode_request (concat (cl_chunks sample_client)) =
     Inr (\<lparr>cr_protocol = ConnectTcp, cr_port = 443, cr_target = TargetIp (V4 0x01010101), cr_expected_ip = None\<rparr>, [])"
  (is "_ = Inr (?q, [])")
  using request_read_back [of ?q "[]"] by (simp add: sample_client_def request_ok_def canonical_request_def)

lemma sample_decoded:
  "handle_client sample_broker FrontendCustom sample_client = do {
     x \<leftarrow> authorize_and_dial sample_broker (TargetIp (V4 0x01010101)) 443 None;
     case x of
       Inr dial \<Rightarrow> written (write_client (status_frame StatusOk)) (do {
         audit (ConnectAllowed (target_label (TargetIp (V4 0x01010101))) (ad_target_ip dial) 443); proxy })
     | Inl f \<Rightarrow> do {
         audit (ConnectDenied (target_label (TargetIp (V4 0x01010101))) 443 (status_as_str (cf_status f)));
         ignoring (write_client (status_frame (cf_status f))) } }"
  by (simp add: handle_client_def handle_custom_def sample_decode Let_def)

lemma sample_trace:
  "dials (run_trace (snd (run_state (handle_client sample_broker FrontendCustom sample_client) (sample_run [])))) = [(V4 0x01010101, 443)]"
  "fst (run_state (handle_client sample_broker FrontendCustom sample_client) (sample_run [False])) = False"
  "dials (run_trace (snd (run_state (handle_client sample_broker FrontendCustom sample_client) (sample_run [False])))) = [(V4 0x01010101, 443)]"
  "list_all (\<lambda>e. case e of Audited _ \<Rightarrow> False | _ \<Rightarrow> True)
     (run_trace (snd (run_state (handle_client sample_broker FrontendCustom sample_client) (sample_run [False]))))"
  unfolding sample_decoded by code_simp+

theorem broker_dials_permitted_witness:
  "\<exists>m now before m1 now1. requested sample_broker FrontendCustom sample_client (TargetIp (V4 0x01010101)) 443 None
     \<and> is_current (snapshot sample_engine m now) m1 now1
     \<and> dial_permitted sample_broker (snapshot sample_engine m now) (TargetIp (V4 0x01010101)) 443 None before (V4 0x01010101)"
proof -
  obtain ok r' where r: "run_state (handle_client sample_broker FrontendCustom sample_client) (sample_run []) = (ok, r')" by fastforce
  moreover have "(V4 0x01010101, 443) \<in> set (dials (drop (length (run_trace (sample_run []))) (run_trace r')))"
    using sample_trace(1) r by (simp add: sample_run_def)
  ultimately have "\<exists>target expected m now before m1 now1. requested sample_broker FrontendCustom sample_client target 443 expected
    \<and> is_current (snapshot (cb_policy sample_broker) m now) m1 now1
    \<and> dial_permitted sample_broker (snapshot (cb_policy sample_broker) m now) target 443 expected before (V4 0x01010101)"
    using broker_dials_permitted [OF r] by metis
  then obtain target expected m now before m1 now1 where h: "requested sample_broker FrontendCustom sample_client target 443 expected"
    "is_current (snapshot (cb_policy sample_broker) m now) m1 now1"
    "dial_permitted sample_broker (snapshot (cb_policy sample_broker) m now) target 443 expected before (V4 0x01010101)"
    by blast
  have "target = TargetIp (V4 0x01010101)" "expected = None"
    using h(1) by (auto simp: requested_def sample_decode)
  with h show ?thesis by (auto simp: sample_broker_def)
qed


end
