(* ===== verification/Dns_Broker.thy ===== *)
theory Dns_Broker
  imports Egress_Effects
begin

section \<open>The DNS broker (crates/sendbox-egress/src/dns_broker.rs)\<close>

text \<open>
  The broker answers A and AAAA queries for names that the policy grants, and records an authorization for each
  address it answers.  Messages are the \<^verbatim>\<open>hickory_proto\<close> crate's: decoding, encoding and the two constructors of
  responses that the source calls are the fields of \<open>dns_ops\<close>; the fields of a message are those that the
  source reads or sets.
\<close>

datatype RecordType = TypeA | TypeAAAA | TypeCNAME | TypeTXT | TypeMX | TypeNS | TypeSOA | TypeSRV | TypePTR | TypeOther nat

datatype ResponseCode = NoError | FormErr | ServFail | NXDomain | NotImp | Refused | CodeOther nat

datatype MessageType = MessageQuery | MessageResponse
datatype OpCode = OpQuery | OpOther nat

datatype 'name RData = RDataA "32 word" | RDataAAAA "128 word" | RDataCNAME 'name

record 'name dns_query =
  dq_name :: 'name
  dq_type :: RecordType

record 'name Message =
  dm_id :: u16
  dm_message_type :: MessageType
  dm_op_code :: OpCode
  dm_recursion_desired :: bool
  dm_recursion_available :: bool
  dm_response_code :: ResponseCode
  dm_queries :: "'name dns_query list"
  dm_answers :: "('name \<times> nat \<times> 'name RData) list"

record 'name dns_ops =
  message_from_vec :: "bytes \<Rightarrow> 'name Message option"
  message_to_vec :: "'name Message \<Rightarrow> bytes option"
  message_response :: "u16 \<Rightarrow> OpCode \<Rightarrow> 'name Message"
  message_error_msg :: "u16 \<Rightarrow> OpCode \<Rightarrow> ResponseCode \<Rightarrow> 'name Message"

record ('net, 'name) DnsBroker =
  db_nets :: "'net ipnet_ops"
  db_names :: "'name name_ops"
  db_messages :: "'name dns_ops"
  db_policy :: "'net PolicyEngine"
  db_guard :: DnsGuard
  db_resolver :: "'name \<Rightarrow> 'name resolution"

datatype 'name QueryOutcome =
  Answered "('name \<times> 'name RData) list" nat nat string
| QueryDenied ResponseCode string

definition record_type_of :: "RecordType \<Rightarrow> DnsRecordType option" where
  "record_type_of t = (case t of TypeA \<Rightarrow> Some RecA | TypeAAAA \<Rightarrow> Some RecAaaa | _ \<Rightarrow> None)"

definition dns_record_type_name :: "DnsRecordType \<Rightarrow> string" where
  "dns_record_type_name t = (case t of RecA \<Rightarrow> ''A'' | RecAaaa \<Rightarrow> ''AAAA'')"

definition record_type_name :: "RecordType \<Rightarrow> string" where
  "record_type_name t =
     (case t of TypeA \<Rightarrow> ''A'' | TypeAAAA \<Rightarrow> ''AAAA'' | TypeCNAME \<Rightarrow> ''CNAME'' | TypeTXT \<Rightarrow> ''TXT'' | TypeMX \<Rightarrow> ''MX''
      | TypeNS \<Rightarrow> ''NS'' | TypeSOA \<Rightarrow> ''SOA'' | TypeSRV \<Rightarrow> ''SRV'' | TypePTR \<Rightarrow> ''PTR'' | TypeOther _ \<Rightarrow> ''other'')"

definition response_code_name :: "ResponseCode \<Rightarrow> string" where
  "response_code_name c =
     (case c of NoError \<Rightarrow> ''noerror'' | FormErr \<Rightarrow> ''formerr'' | ServFail \<Rightarrow> ''servfail'' | NXDomain \<Rightarrow> ''nxdomain''
      | NotImp \<Rightarrow> ''notimp'' | Refused \<Rightarrow> ''refused'' | CodeOther _ \<Rightarrow> ''other'')"

subsection \<open>Validation of a resolution\<close>

fun validate_hops :: "('net, 'name) DnsBroker \<Rightarrow> 'net PolicySnapshot \<Rightarrow> 'name list \<Rightarrow> (ResponseCode \<times> string) option" where
  "validate_hops b policy [] = None"
| "validate_hops b policy (hop # hops) =
     (case evaluate_domain_name policy (name_to_utf8 (db_names b) hop) of
        Inr True \<Rightarrow> validate_hops b policy hops
      | Inr False \<Rightarrow> Some (Refused, ''cname hop or owner denied by domain policy'')
      | Inl _ \<Rightarrow> Some (FormErr, ''cname hop failed normalization''))"

definition is_ipv4 :: "IpAddr \<Rightarrow> bool" where
  "is_ipv4 ip = (case ip of V4 _ \<Rightarrow> True | V6 _ \<Rightarrow> False)"

definition matching_addresses :: "DnsRecordType \<Rightarrow> ResolvedAddress list \<Rightarrow> ResolvedAddress list" where
  "matching_addresses qtype addresses =
     filter (\<lambda>addr. is_ipv4 (ra_ip addr) = (qtype = RecA))
       (map (\<lambda>addr. \<lparr>ra_ip = canonicalize (ra_ip addr), ra_ttl_secs = ra_ttl_secs addr\<rparr>) addresses)"

definition min_ttl :: "ResolvedAddress list \<Rightarrow> nat" where
  "min_ttl addresses = (case map ra_ttl_secs addresses of [] \<Rightarrow> 0 | t # ts \<Rightarrow> fold min ts t)"

definition address_rdata :: "IpAddr \<Rightarrow> 'name RData" where
  "address_rdata ip = (case ip of V4 a \<Rightarrow> RDataA a | V6 a \<Rightarrow> RDataAAAA a)"

definition answer_records ::
  "('net, 'name) DnsBroker \<Rightarrow> 'name \<Rightarrow> 'name ResolvedChain \<Rightarrow> ResolvedAddress list \<Rightarrow> ('name \<times> 'name RData) list" where
  "answer_records b name chain addresses =
     map (\<lambda>(owner, target). (owner, RDataCNAME target))
       (filter (\<lambda>(owner, target). \<not> name_eq (db_names b) owner target)
          (zip (name # cname_chain chain) (cname_chain chain @ [final_name chain])))
     @ map (\<lambda>addr. (final_name chain, address_rdata (ra_ip addr))) addresses"

definition denied_query :: "ResponseCode \<Rightarrow> string \<Rightarrow> ('net, 'name QueryOutcome) prog" where
  "denied_query code why = State_Monad.return (QueryDenied code why)"

definition answer_chain ::
  "('net, 'name) DnsBroker \<Rightarrow> 'net PolicySnapshot \<Rightarrow> rstr \<Rightarrow> 'name \<Rightarrow> DnsRecordType \<Rightarrow> 'name ResolvedChain
     \<Rightarrow> ('net, 'name QueryOutcome) prog" where
  "answer_chain b policy original name qtype chain =
     (case validate_hops b policy (names_to_validate chain) of
        Some (code, why) \<Rightarrow> denied_query code why
      | None \<Rightarrow>
          (let matching = matching_addresses qtype (rc_addresses chain)
           in if \<not> list_all (\<lambda>addr. allowed (address_permitted (db_nets b) policy (ra_ip addr))) matching
              then denied_query Refused ''resolved address is restricted by policy''
              else let kept = take (g_max_response_records (db_guard b)) matching; ttl = cap_ttl (db_policy b) (min_ttl kept)
                   in do {
                     current \<leftarrow> check_current policy;
                     if \<not> current then denied_query ServFail ''network scope changed during resolution''
                     else do {
                       for_each (\<lambda>addr. authorize_address original (ra_ip addr) ttl (ps_revision policy)) kept;
                       State_Monad.return
                         (Answered (answer_records b name chain kept) ttl (length kept) (dns_record_type_name qtype)) } }))"

definition resolve_granted ::
  "('net, 'name) DnsBroker \<Rightarrow> 'net PolicySnapshot \<Rightarrow> rstr \<Rightarrow> 'name \<Rightarrow> DnsRecordType \<Rightarrow> ('net, 'name QueryOutcome) prog" where
  "resolve_granted b policy original name qtype = do {
     charged \<leftarrow> charge (db_guard b) original;
     case charged of
       Inl limit \<Rightarrow> do {
         audit (DnsRateLimited original limit);
         denied_query Refused ''query exfiltration budget exceeded'' }
     | Inr _ \<Rightarrow> do {
         emit (Asked original);
         case db_resolver b name of
           Some (Inr chain) \<Rightarrow> answer_chain b policy original name qtype chain
         | Some (Inl error) \<Rightarrow>
             (let nxdomain = (case error of NxDomain _ \<Rightarrow> True | _ \<Rightarrow> False)
              in do {
                audit (DnsResolutionFailed original ''dns'' (diagnostic error));
                denied_query (if nxdomain then NXDomain else ServFail)
                  (if nxdomain then ''upstream reports nxdomain'' else ''upstream resolution failed'') })
         | None \<Rightarrow> do {
             audit (DnsResolutionFailed original ''dns'' (ResolveFailure_new FailBrokerTimeout));
             denied_query ServFail ''upstream resolution deadline exceeded'' } } }"

definition resolve_and_validate ::
  "('net, 'name) DnsBroker \<Rightarrow> 'name \<Rightarrow> DnsRecordType \<Rightarrow> ('net, 'name QueryOutcome) prog" where
  "resolve_and_validate b name qtype = do {
     policy \<leftarrow> take_snapshot (db_policy b);
     case normalize_domain (name_to_utf8 (db_names b) name) of
       Inl _ \<Rightarrow> denied_query FormErr ''qname failed normalization''
     | Inr original \<Rightarrow>
         (case check_structure (db_guard b) original of
            Inl limit \<Rightarrow> do {
              audit (DnsStructuralRejected original limit);
              denied_query Refused ''qname violates a structural limit'' }
          | Inr _ \<Rightarrow>
              (case evaluate_domain_name policy original of
                 Inl _ \<Rightarrow> denied_query FormErr ''qname failed normalization''
               | Inr ok \<Rightarrow>
                   if \<not> ok then denied_query Refused ''qname denied by domain policy''
                   else resolve_granted b policy original name qtype)) }"

subsection \<open>Messages\<close>

definition to_vec_or_default :: "('net, 'name) DnsBroker \<Rightarrow> 'name Message \<Rightarrow> bytes" where
  "to_vec_or_default b m = (case message_to_vec (db_messages b) m of None \<Rightarrow> [] | Some bs \<Rightarrow> bs)"

definition encode_answer ::
  "('net, 'name) DnsBroker \<Rightarrow> 'name Message \<Rightarrow> 'name dns_query \<Rightarrow> ('name \<times> 'name RData) list \<Rightarrow> nat \<Rightarrow> bytes" where
  "encode_answer b request query answers ttl =
     (let response = message_response (db_messages b) (dm_id request) OpQuery
      in to_vec_or_default b (response\<lparr>
           dm_recursion_desired := dm_recursion_desired request, dm_recursion_available := True,
           dm_response_code := NoError, dm_queries := dm_queries response @ [query],
           dm_answers := dm_answers response @ map (\<lambda>(owner, rdata). (owner, ttl, rdata)) answers\<rparr>))"

definition encode_error :: "('net, 'name) DnsBroker \<Rightarrow> 'name Message \<Rightarrow> ResponseCode \<Rightarrow> bytes" where
  "encode_error b request code =
     (let response = message_error_msg (db_messages b) (dm_id request) (dm_op_code request) code
      in to_vec_or_default b (response\<lparr>dm_queries := dm_queries response @ dm_queries request\<rparr>))"

definition answer_query ::
  "('net, 'name) DnsBroker \<Rightarrow> 'name Message \<Rightarrow> 'name dns_query \<Rightarrow> DnsRecordType \<Rightarrow> ('net, bytes option) prog" where
  "answer_query b request query qtype = do {
     outcome \<leftarrow> resolve_and_validate b (dq_name query) qtype;
     case outcome of
       Answered answers ttl answer_count type_name \<Rightarrow> do {
         audit (DnsAllowed (name_to_utf8 (db_names b) (dq_name query)) type_name answer_count ttl);
         State_Monad.return (Some (encode_answer b request query answers ttl)) }
     | QueryDenied code why \<Rightarrow> do {
         audit (DnsDenied (name_to_utf8 (db_names b) (dq_name query)) (response_code_name code) why);
         State_Monad.return (Some (encode_error b request code)) } }"

definition handle_message :: "('net, 'name) DnsBroker \<Rightarrow> bytes \<Rightarrow> ('net, bytes option) prog" where
  "handle_message b request_bytes =
     (case message_from_vec (db_messages b) request_bytes of
        None \<Rightarrow> do { audit DnsMalformed; State_Monad.return None }
      | Some request \<Rightarrow>
          if dm_message_type request \<noteq> MessageQuery \<or> dm_op_code request \<noteq> OpQuery
          then State_Monad.return (Some (encode_error b request NotImp))
          else (case dm_queries request of
                  [query] \<Rightarrow>
                    (case record_type_of (dq_type query) of
                       Some qtype \<Rightarrow>
                         if record_type_allowed (db_guard b) qtype then answer_query b request query qtype
                         else do {
                           audit (DnsUnsupportedQtype (name_to_utf8 (db_names b) (dq_name query)) (record_type_name (dq_type query)));
                           State_Monad.return (Some (encode_error b request NotImp)) }
                     | None \<Rightarrow> do {
                         audit (DnsUnsupportedQtype (name_to_utf8 (db_names b) (dq_name query)) (record_type_name (dq_type query)));
                         State_Monad.return (Some (encode_error b request NotImp)) })
                | _ \<Rightarrow> State_Monad.return (Some (encode_error b request FormErr))))"

text \<open>
  A TCP connection: a length, that many bytes, and the length and bytes of the response.  The input is what arrives
  before the read deadlines; the value tells whether the handler returned \<open>Ok\<close>.
\<close>

definition MAX_TCP_MESSAGE_BYTES :: nat where "MAX_TCP_MESSAGE_BYTES = 65535"
definition MAX_UDP_MESSAGE_BYTES :: nat where "MAX_UDP_MESSAGE_BYTES = 4096"

definition handle_tcp_connection :: "('net, 'name) DnsBroker \<Rightarrow> nat \<Rightarrow> bytes \<Rightarrow> ('net, bool) prog" where
  "handle_tcp_connection b max_bytes input =
     (if length input < 2 then State_Monad.return False
      else let message_len = from_be (take 2 input)
           in if message_len = 0 \<or> message_len > max_bytes then State_Monad.return True
              else if length (drop 2 input) < message_len then State_Monad.return False
              else do {
                response \<leftarrow> handle_message b (take message_len (drop 2 input));
                case response of
                  None \<Rightarrow> State_Monad.return True
                | Some bs \<Rightarrow> do {
                    ok \<leftarrow> write_client (to_be 2 (min (length bs) 65535));
                    if ok then write_client bs else State_Monad.return False } })"

text \<open>A datagram, when a permit is available: an oversized one is dropped unread.\<close>

definition handle_datagram :: "('net, 'name) DnsBroker \<Rightarrow> nat \<Rightarrow> bytes \<Rightarrow> ('net, unit) prog" where
  "handle_datagram b max_bytes datagram =
     (if length datagram > max_bytes then State_Monad.return ()
      else do {
        response \<leftarrow> handle_message b datagram;
        case response of
          None \<Rightarrow> State_Monad.return ()
        | Some bs \<Rightarrow> do { write_client bs; State_Monad.return () } })"

subsection \<open>What is answered\<close>

fun authorized :: "'net event list \<Rightarrow> (rstr \<times> IpAddr \<times> nat \<times> nat) list" where
  "authorized [] = []"
| "authorized (Authorized name ip ttl revision # tr) = (name, ip, ttl, revision) # authorized tr"
| "authorized (_ # tr) = authorized tr"

lemma authorized_append [simp]: "authorized (xs @ ys) = authorized xs @ authorized ys"
  by (induction xs rule: authorized.induct) simp_all

lemma authorized_map: "authorized (map (\<lambda>addr. Authorized n (ra_ip addr) t r) addrs) = map (\<lambda>addr. (n, ra_ip addr, t, r)) addrs"
  by (induction addrs) simp_all

fun rdata_address :: "'name RData \<Rightarrow> IpAddr option" where
  "rdata_address (RDataA a) = Some (V4 a)"
| "rdata_address (RDataAAAA a) = Some (V6 a)"
| "rdata_address (RDataCNAME _) = None"

text \<open>The addresses that a list of answer records gives.\<close>

definition answered_addresses :: "('name \<times> 'name RData) list \<Rightarrow> IpAddr list" where
  "answered_addresses answers = List.map_filter (rdata_address \<circ> snd) answers"

lemma rdata_address_rdata: "rdata_address (address_rdata ip) = Some ip"
  by (cases ip) (simp_all add: address_rdata_def)

lemma answered_addresses_records: "answered_addresses (answer_records b name chain addrs) = map ra_ip addrs"
proof -
  have "List.map_filter (rdata_address \<circ> snd) (map (\<lambda>(owner, target). (owner, RDataCNAME target)) xs) = []" for xs :: "('name \<times> 'name) list"
    by (induction xs) (auto simp: List.map_filter_simps)
  moreover have "List.map_filter (rdata_address \<circ> snd) (map (\<lambda>addr. (owner, address_rdata (ra_ip addr))) addrs) = map ra_ip addrs" for owner :: 'name
    by (induction addrs) (auto simp: List.map_filter_simps rdata_address_rdata)
  ultimately show ?thesis
    unfolding answered_addresses_def answer_records_def by (simp add: List.map_filter_def)
qed

definition hops_granted :: "('net, 'name) DnsBroker \<Rightarrow> 'net PolicySnapshot \<Rightarrow> 'name ResolvedChain \<Rightarrow> bool" where
  "hops_granted b s chain \<longleftrightarrow> (\<forall>hop \<in> set (names_to_validate chain).
     \<exists>n. normalize_domain (name_to_utf8 (db_names b) hop) = Inr n \<and> name_granted s n)"

lemma evaluate_domain_name_True: "evaluate_domain_name s name = Inr True \<longleftrightarrow> (\<exists>n. normalize_domain name = Inr n \<and> name_granted s n)"
  by (auto simp: evaluate_domain_name_def evaluate_domain_allowed split: sum.splits)

lemma validate_hops_None: "validate_hops b s hops = None \<longleftrightarrow> (\<forall>hop \<in> set hops. evaluate_domain_name s (name_to_utf8 (db_names b) hop) = Inr True)"
  by (induction hops) (auto split: sum.splits bool.splits)

lemma address_permitted_clear: "allowed (address_permitted ops s ip) \<longleftrightarrow> address_clear ops s ip"
  by (cases ops s ip rule: check_address_cases) (simp_all add: address_permitted_def)

lemma min_ttl_le: "addr \<in> set addrs \<Longrightarrow> min_ttl addrs \<le> ra_ttl_secs addr"
proof -
  have "fold min ts t \<le> t \<and> (\<forall>x \<in> set ts. fold min ts t \<le> x)" for ts and t :: nat
  proof (induction ts arbitrary: t)
    case (Cons a ts)
    from Cons [of "min a t"] show ?case by auto
  qed simp
  then show "addr \<in> set addrs \<Longrightarrow> min_ttl addrs \<le> ra_ttl_secs addr"
    by (cases addrs) (auto simp: min_ttl_def)
qed

text \<open>
  What an answered query shows: the name and every hop are granted by the snapshot, each answered address is clear,
  of the queried family and among the resolved ones, their number and the lifetime are bounded, and exactly they
  are authorized, under the name and the revision of the snapshot.
\<close>

definition answer_ok ::
  "('net, 'name) DnsBroker \<Rightarrow> 'net PolicySnapshot \<Rightarrow> 'name \<Rightarrow> DnsRecordType \<Rightarrow> rstr \<Rightarrow> 'name ResolvedChain
     \<Rightarrow> ('name \<times> 'name RData) list \<Rightarrow> nat \<Rightarrow> (rstr \<times> IpAddr \<times> nat \<times> nat) list \<Rightarrow> bool" where
  "answer_ok b s name qtype original chain answers ttl auths \<longleftrightarrow>
     db_resolver b name = Some (Inr chain) \<and> hops_granted b s chain
     \<and> auths = map (\<lambda>ip. (original, ip, ttl, ps_revision s)) (answered_addresses answers)
     \<and> list_all (\<lambda>ip. address_clear (db_nets b) s ip \<and> is_ipv4 ip = (qtype = RecA)
          \<and> (\<exists>addr \<in> set (rc_addresses chain). ip = canonicalize (ra_ip addr) \<and> ttl \<le> ra_ttl_secs addr)) (answered_addresses answers)
     \<and> length (answered_addresses answers) \<le> g_max_response_records (db_guard b) \<and> ttl \<le> max_ttl_secs (pe_dns (db_policy b))"

lemma does_answer_chain:
  assumes "db_resolver b name = Some (Inr chain)"
  shows "does (answer_chain b s original name qtype chain) (\<lambda>tr x. case x of
      Answered answers ttl n _ \<Rightarrow> n = length (answered_addresses answers) \<and> (\<exists>m now tr'. tr = Viewed m now # tr' \<and> is_current s m now)
        \<and> answer_ok b s name qtype original chain answers ttl (authorized tr)
    | QueryDenied _ _ \<Rightarrow> authorized tr = [])"
proof (cases "validate_hops b s (names_to_validate chain)")
  case (Some e)
  then show ?thesis
    by (cases e) (auto simp: answer_chain_def denied_query_def intro!: does_return)
next
  case None
  let ?m = "matching_addresses qtype (rc_addresses chain)"
  let ?k = "take (g_max_response_records (db_guard b)) ?m"
  let ?ttl = "cap_ttl (db_policy b) (min_ttl ?k)"
  have hops: "hops_granted b s chain"
    using None by (simp add: validate_hops_None hops_granted_def evaluate_domain_name_True)
  have ok: "answer_ok b s name qtype original chain (answer_records b name chain ?k) ?ttl
      (map (\<lambda>addr. (original, ra_ip addr, ?ttl, ps_revision s)) ?k)"
    if p: "list_all (\<lambda>addr. allowed (address_permitted (db_nets b) s (ra_ip addr))) ?m"
  proof -
    have "address_clear (db_nets b) s (ra_ip addr) \<and> is_ipv4 (ra_ip addr) = (qtype = RecA)
        \<and> (\<exists>a \<in> set (rc_addresses chain). ra_ip addr = canonicalize (ra_ip a) \<and> ?ttl \<le> ra_ttl_secs a)" if k: "addr \<in> set ?k" for addr
    proof -
      from k have m: "addr \<in> set ?m" by (rule in_set_takeD)
      then obtain a where a: "a \<in> set (rc_addresses chain)" "ra_ip addr = canonicalize (ra_ip a)" "ra_ttl_secs addr = ra_ttl_secs a"
        "is_ipv4 (ra_ip addr) = (qtype = RecA)" by (auto simp: matching_addresses_def)
      from min_ttl_le [OF k] a(3) have "?ttl \<le> ra_ttl_secs a" by (simp add: cap_ttl_def)
      with a m p show ?thesis by (auto simp: list_all_iff address_permitted_clear)
    qed
    then show ?thesis
      unfolding answer_ok_def answered_addresses_records
      using assms hops by (auto simp: list_all_iff cap_ttl_def)
  qed
  have auth: "does (for_each (\<lambda>addr. authorize_address original (ra_ip addr) ?ttl (ps_revision s)) ?k)
      (\<lambda>tr _. authorized tr = map (\<lambda>addr. (original, ra_ip addr, ?ttl, ps_revision s)) ?k)"
    by (rule does_mono [OF does_for_each [OF does_authorize]]) (simp add: authorized_map)
  show ?thesis
    unfolding answer_chain_def None option.case Let_def denied_query_def
    by (auto intro!: does_return does_bind [OF does_check_current] does_bind [OF auth]
      simp: answered_addresses_records ok)
qed

definition resolution_ok ::
  "('net, 'name) DnsBroker \<Rightarrow> 'net PolicySnapshot \<Rightarrow> rstr \<Rightarrow> 'name \<Rightarrow> DnsRecordType \<Rightarrow> 'net event list \<Rightarrow> 'name QueryOutcome \<Rightarrow> bool" where
  "resolution_ok b s original name qtype tr x \<longleftrightarrow> (case x of
      Answered answers ttl n _ \<Rightarrow> n = length (answered_addresses answers)
        \<and> (\<exists>m now tr'. tr = [Charged original (Inr ()), Asked original, Viewed m now] @ tr' \<and> is_current s m now)
        \<and> (\<exists>chain. answer_ok b s name qtype original chain answers ttl (authorized tr))
    | QueryDenied _ _ \<Rightarrow> authorized tr = [])"

lemma resolution_ok_denied [simp]: "resolution_ok b s original name qtype tr (QueryDenied code why) \<longleftrightarrow> authorized tr = []"
  by (simp add: resolution_ok_def)

lemma does_resolve_granted: "does (resolve_granted b s original name qtype) (resolution_ok b s original name qtype)"
  unfolding resolve_granted_def
proof (rule does_bind [OF does_charge], goal_cases)
  case (1 tr charged)
  show ?case
  proof (cases charged)
    case (Inl limit)
    with 1 show ?thesis
      by (auto simp: denied_query_def intro!: does_bind [OF does_audit] does_return)
  next
    case (Inr u)
    then have tr: "tr = [Charged original (Inr ())]" using 1 by simp
    have "does (answer_chain b s original name qtype chain)
        (\<lambda>tr'. resolution_ok b s original name qtype ([Charged original (Inr ()), Asked original] @ tr'))"
      if r: "db_resolver b name = Some (Inr chain)" for chain
      by (rule does_mono [OF does_answer_chain [OF r]]) (auto simp: resolution_ok_def split: QueryOutcome.splits)
    with Inr tr show ?thesis
      by (auto simp: denied_query_def Let_def split: option.splits sum.splits
        intro!: does_bind [OF does_emit] does_bind [OF does_audit] does_return)
  qed
qed

definition query_ok ::
  "('net, 'name) DnsBroker \<Rightarrow> 'name \<Rightarrow> DnsRecordType \<Rightarrow> 'net event list \<Rightarrow> 'name QueryOutcome \<Rightarrow> bool" where
  "query_ok b name qtype tr x \<longleftrightarrow> (case x of
      Answered answers ttl n _ \<Rightarrow> n = length (answered_addresses answers) \<and>
        (\<exists>m now s original m1 now1 tr' chain. s = snapshot (db_policy b) m now
          \<and> tr = [Viewed m now, Charged original (Inr ()), Asked original, Viewed m1 now1] @ tr' \<and> is_current s m1 now1
          \<and> normalize_domain (name_to_utf8 (db_names b) name) = Inr original
          \<and> check_structure (db_guard b) original = Inr () \<and> name_granted s original
          \<and> answer_ok b s name qtype original chain answers ttl (authorized tr))
    | QueryDenied _ _ \<Rightarrow> authorized tr = [])"

lemma query_ok_denied [simp]: "query_ok b name qtype tr (QueryDenied code why) \<longleftrightarrow> authorized tr = []"
  by (simp add: query_ok_def)

lemma does_resolve_and_validate: "does (resolve_and_validate b name qtype) (query_ok b name qtype)"
  unfolding resolve_and_validate_def
proof (rule does_bind [OF does_take_snapshot], goal_cases)
  case (1 tr s)
  then obtain m now where s: "tr = [Viewed m now]" "s = snapshot (db_policy b) m now" by blast
  have "does (resolve_granted b s original name qtype) (\<lambda>tr'. query_ok b name qtype (Viewed m now # tr'))"
    if o: "normalize_domain (name_to_utf8 (db_names b) name) = Inr original" "check_structure (db_guard b) original = Inr ()"
      "evaluate_domain_name s original = Inr True" for original
  proof (rule does_mono [OF does_resolve_granted], goal_cases)
    case (1 tr' x)
    have "name_granted s original"
      using o normalize_domain_canonical normalize_domain_id by (fastforce simp: evaluate_domain_name_True)
    with 1 o s(2) show ?case
      by (auto simp: resolution_ok_def query_ok_def split: QueryOutcome.splits)
  qed
  with s(1) show ?case
    by (auto simp: denied_query_def split: sum.splits intro!: does_bind [OF does_audit] does_return)
qed

text \<open>What a handler does with a message: an error response and no authorization, or an answer.\<close>

definition message_ok :: "('net, 'name) DnsBroker \<Rightarrow> bytes \<Rightarrow> 'net event list \<Rightarrow> bytes option \<Rightarrow> bool" where
  "message_ok b bs tr response \<longleftrightarrow>
     (authorized tr = [] \<and> (response = None \<or> (\<exists>request code. response = Some (encode_error b request code))))
     \<or> (\<exists>request query qtype answers ttl m now s original m1 now1 chain rest.
          message_from_vec (db_messages b) bs = Some request \<and> dm_queries request = [query]
        \<and> record_type_of (dq_type query) = Some qtype \<and> record_type_allowed (db_guard b) qtype
        \<and> response = Some (encode_answer b request query answers ttl)
        \<and> s = snapshot (db_policy b) m now \<and> is_current s m1 now1
        \<and> tr = [Viewed m now, Charged original (Inr ()), Asked original, Viewed m1 now1] @ rest
        \<and> normalize_domain (name_to_utf8 (db_names b) (dq_name query)) = Inr original
        \<and> check_structure (db_guard b) original = Inr () \<and> name_granted s original
        \<and> answer_ok b s (dq_name query) qtype original chain answers ttl (authorized tr))"

lemma message_ok_error: "authorized tr = [] \<Longrightarrow> message_ok b bs tr (Some (encode_error b request code))"
  unfolding message_ok_def by blast

lemma message_ok_none: "authorized tr = [] \<Longrightarrow> message_ok b bs tr None"
  unfolding message_ok_def by blast

lemma does_answer_query:
  assumes "message_from_vec (db_messages b) bs = Some request" "dm_queries request = [query]"
    "record_type_of (dq_type query) = Some qtype" "record_type_allowed (db_guard b) qtype"
  shows "does (answer_query b request query qtype) (message_ok b bs)"
  unfolding answer_query_def
proof (rule does_bind [OF does_resolve_and_validate], goal_cases)
  case (1 tr x)
  show ?case
  proof (cases x)
    case (Answered answers ttl n type_name)
    with 1 obtain m now s original m1 now1 tr' chain where q: "s = snapshot (db_policy b) m now"
      "tr = [Viewed m now, Charged original (Inr ()), Asked original, Viewed m1 now1] @ tr'" "is_current s m1 now1"
      "normalize_domain (name_to_utf8 (db_names b) (dq_name query)) = Inr original"
      "check_structure (db_guard b) original = Inr ()" "name_granted s original"
      "answer_ok b s (dq_name query) qtype original chain answers ttl (authorized tr)"
      by (auto simp: query_ok_def)
    have "message_ok b bs (tr @ [Audited e]) (Some (encode_answer b request query answers ttl))" for e
      unfolding message_ok_def
    proof (rule disjI2, intro exI conjI)
      show "tr @ [Audited e] = [Viewed m now, Charged original (Inr ()), Asked original, Viewed m1 now1] @ (tr' @ [Audited e])"
        using q(2) by simp
      show "answer_ok b s (dq_name query) qtype original chain answers ttl (authorized (tr @ [Audited e]))" using q(7) by simp
    qed (fact refl assms q)+
    with Answered show ?thesis by (auto intro!: does_bind [OF does_audit] does_return)
  next
    case (QueryDenied code why)
    with 1 have "authorized tr = []" by (simp add: query_ok_def)
    with QueryDenied show ?thesis
      by (auto intro!: message_ok_error does_bind [OF does_audit] does_return)
  qed
qed

lemma does_handle_message: "does (handle_message b bs) (message_ok b bs)"
  unfolding handle_message_def
  by (auto split: option.splits list.splits intro!: does_answer_query message_ok_error message_ok_none
      does_bind [OF does_audit] does_return)

text \<open>
  C8: For every message, whatever the resolver answers and whatever other connections do to the shared state
  meanwhile, the DNS broker either authorizes no address and sends at most an error response, or it answers the one
  question of the message: its type is enabled, the snapshot it took grants the name and every alias of the
  resolution and was still current after the lookup, the query was charged to the budget before the lookup, each
  answered address is clear of the blocked networks, of the queried family and one that the resolver gave, their
  number and lifetime are within the limits, and the authorizations recorded are those of the answered addresses.
\<close>

theorem dns_answers_permitted:
  "\<exists>tr. run_trace (snd (run_state (handle_message b bs) r)) = run_trace r @ tr
     \<and> message_ok b bs tr (fst (run_state (handle_message b bs) r))"
  using does_handle_message unfolding does_def by blast

end
