(* ===== verification/Egress_Gateway.thy ===== *)
theory Egress_Gateway
  imports Connect_Broker Dns_Broker
begin

section \<open>The gateway and its listener loops (crates/sendbox-egress/src/gateway.rs)\<close>

text \<open>
  The gateway runs the CONNECT broker behind one or two listeners and the DNS broker behind a UDP and a TCP
  listener.  The loops of one broker share a semaphore of permits; each accepted connection or datagram is a session
  that holds a permit until it ends.  The tasks, the sessions and the cancellation are a step relation: any
  running task or session may make the next step.  What a session does is the program of its handler.
\<close>

subsection \<open>Binding the DNS listeners\<close>

definition EPHEMERAL_DNS_BIND_ATTEMPTS :: nat where "EPHEMERAL_DNS_BIND_ATTEMPTS = 32"

text \<open>
  The results of the attempts to bind are arguments: the address that the UDP socket obtains in an attempt, and
  whether a TCP listener can be bound to an address then.  An error is its kind.
\<close>

fun bind_attempts ::
  "u16 \<Rightarrow> (nat \<Rightarrow> string + SocketAddr) \<Rightarrow> (nat \<Rightarrow> SocketAddr \<Rightarrow> string option) \<Rightarrow> nat \<Rightarrow> nat \<Rightarrow> string + SocketAddr \<times> SocketAddr" where
  "bind_attempts port bind_udp bind_tcp i 0 = Inl ''AddrInUse''"
| "bind_attempts port bind_udp bind_tcp i (Suc n) =
     (case bind_udp i of
        Inl e \<Rightarrow> Inl e
      | Inr resolved \<Rightarrow>
          (case bind_tcp i resolved of
             None \<Rightarrow> Inr (resolved, resolved)
           | Some e \<Rightarrow>
               if port = 0 \<and> e = ''AddrInUse'' then bind_attempts port bind_udp bind_tcp (Suc i) n else Inl e))"

definition bind_dns_pair ::
  "SocketAddr \<Rightarrow> (nat \<Rightarrow> string + SocketAddr) \<Rightarrow> (nat \<Rightarrow> SocketAddr \<Rightarrow> string option) \<Rightarrow> string + SocketAddr \<times> SocketAddr" where
  "bind_dns_pair addr bind_udp bind_tcp =
     bind_attempts (snd addr) bind_udp bind_tcp 0 (if snd addr = 0 then EPHEMERAL_DNS_BIND_ATTEMPTS else 1)"

lemma bind_attempts_Inr:
  "bind_attempts port bind_udp bind_tcp i n = Inr (udp, tcp) \<Longrightarrow>
     \<exists>k. i \<le> k \<and> k < i + n \<and> bind_udp k = Inr udp \<and> bind_tcp k udp = None \<and> tcp = udp"
proof (induction port bind_udp bind_tcp i n rule: bind_attempts.induct)
  case (2 port bind_udp bind_tcp i n)
  then consider "bind_udp i = Inr udp" "bind_tcp i udp = None" "tcp = udp"
    | b e where "bind_udp i = Inr b" "bind_tcp i b = Some e" "port = 0 \<and> e = ''AddrInUse''"
      "bind_attempts port bind_udp bind_tcp (Suc i) n = Inr (udp, tcp)"
    by (auto split: sum.splits option.splits if_splits)
  then show ?case
  proof cases
    case 2
    from "2.IH" [OF this] obtain k where "Suc i \<le> k" "k < Suc i + n" "bind_udp k = Inr udp" "bind_tcp k udp = None" "tcp = udp"
      by blast
    then show ?thesis by (intro exI [of _ k]) simp
  qed (intro exI [of _ i], simp)
qed simp

text \<open>Both listeners have the same address, and an ephemeral port is tried a bounded number of times.\<close>

lemma bind_dns_pair_Inr:
  assumes "bind_dns_pair addr bind_udp bind_tcp = Inr (udp, tcp)"
  shows "tcp = udp \<and> (\<exists>k < EPHEMERAL_DNS_BIND_ATTEMPTS. bind_udp k = Inr udp \<and> bind_tcp k udp = None)"
proof -
  obtain k where "k < (if snd addr = 0 then EPHEMERAL_DNS_BIND_ATTEMPTS else 1)" "bind_udp k = Inr udp" "bind_tcp k udp = None" "tcp = udp"
    using bind_attempts_Inr [OF assms [unfolded bind_dns_pair_def]] by auto
  then show ?thesis by (intro conjI exI [of _ k]) (auto simp: EPHEMERAL_DNS_BIND_ATTEMPTS_def split: if_splits)
qed

subsection \<open>Preparation\<close>

text \<open>The query guard and the cache that both brokers share.\<close>

definition gateway_shared :: "'net PolicyEngine \<Rightarrow> DnsGuard \<times> AuthorizationCache" where
  "gateway_shared e =
     (let dns = pe_dns e
      in (DnsGuard_from_policy dns, with_capacity (capacity_for (max_unique_names (budget dns)) (max_response_records dns))))"

datatype prepare_error = Interrupted | RefreshFailed GitHubMetaError

definition prepare_github_meta ::
  "'net PolicyEngine \<Rightarrow> nat \<Rightarrow> bool \<Rightarrow> ('net State \<Rightarrow> 'net State \<times> (GitHubMetaError + unit)) \<Rightarrow> bool \<times> 'net State
     \<Rightarrow> (prepare_error + unit) \<times> bool \<times> 'net State" where
  "prepare_github_meta e now cancelled refresh st =
     (case st of (prepared, metadata) \<Rightarrow>
        if \<not> pe_github_meta e then (Inr (), st)
        else if prepared \<and> snd (view now metadata) \<noteq> None then (Inr (), st)
        else if cancelled then (Inl Interrupted, st)
        else case refresh metadata of
            (metadata', Inl err) \<Rightarrow> (Inl (RefreshFailed err), prepared, metadata')
          | (metadata', Inr _) \<Rightarrow> (Inr (), True, metadata'))"

text \<open>Whether \<^verbatim>\<open>serve\<close> ends at once, with which result.\<close>

definition serve_refused :: "bool \<Rightarrow> prepare_error + unit \<Rightarrow> (prepare_error + unit) option" where
  "serve_refused cancelled result =
     (case result of Inr _ \<Rightarrow> None | Inl err \<Rightarrow> Some (if cancelled then Inr () else Inl err))"

text \<open>The guard that \<^verbatim>\<open>serve\<close> drops when it ends.\<close>

definition run_guard_drop :: "AuthorizationCache \<times> 'net State \<times> bool \<Rightarrow> AuthorizationCache \<times> 'net State \<times> bool" where
  "run_guard_drop st = (case st of (cache, metadata, prepared) \<Rightarrow> (cache_clear cache, meta_clear metadata, False))"

subsection \<open>Tasks and sessions\<close>

datatype gateway_task = RefreshTask | ConnectLoop ConnectFrontend | UdpLoop | TcpLoop

datatype 'c session = ConnectSession ConnectFrontend 'c | DnsDatagram bytes | DnsConnection 'c

record GatewayConfig =
  gc_frontend :: ConnectFrontend
  gc_max_udp_message_bytes :: nat
  gc_max_concurrent_queries :: nat

record GatewayListeners =
  gl_dns_udp :: bool
  gl_dns_tcp :: bool
  gl_http_proxy :: bool

datatype loop_event = LimitExceededAudited | RejectionWritten bytes

record 'c gateway =
  gw_cancelled :: bool
  gw_tasks :: "gateway_task list"
  gw_finished :: "(gateway_task \<times> (string + unit)) list"
  gw_joined :: "(string + unit) list"
  gw_permits :: nat
  gw_in_flight :: nat
  gw_sessions :: "'c session list"
  gw_returned :: "(string + unit) option"
  gw_log :: "loop_event list"

definition serve_tasks :: "'net PolicyEngine \<Rightarrow> GatewayConfig \<Rightarrow> GatewayListeners \<Rightarrow> gateway_task list" where
  "serve_tasks e cfg ls =
     (if pe_github_meta e then [RefreshTask] else [])
     @ [ConnectLoop (gc_frontend cfg)]
     @ (if gl_http_proxy ls then [ConnectLoop FrontendHttp] else [])
     @ (if pe_allow_dns e \<and> gl_dns_udp ls \<and> gl_dns_tcp ls then [UdpLoop, TcpLoop] else [])"

definition serve_start :: "'net PolicyEngine \<Rightarrow> GatewayConfig \<Rightarrow> GatewayListeners \<Rightarrow> 'c gateway" where
  "serve_start e cfg ls =
     \<lparr>gw_cancelled = False, gw_tasks = serve_tasks e cfg ls, gw_finished = [], gw_joined = [],
      gw_permits = nat (pe_max_concurrent_connections e), gw_in_flight = gc_max_concurrent_queries cfg, gw_sessions = [],
      gw_returned = None, gw_log = []\<rparr>"

text \<open>One connection in \<^verbatim>\<open>run_with_frontend\<close>, one datagram in \<^verbatim>\<open>run_udp\<close>, one connection in \<^verbatim>\<open>run_tcp\<close>.\<close>

definition rejection :: "ConnectFrontend \<Rightarrow> loop_event list" where
  "rejection f = LimitExceededAudited #
     (case f of
        FrontendCustom \<Rightarrow> [RejectionWritten (status_frame LimitExceeded)]
      | FrontendSocks5 \<Rightarrow> []
      | FrontendHttp \<Rightarrow> [RejectionWritten (http_status LimitExceeded)])"

definition accept_connection :: "ConnectFrontend \<Rightarrow> 'c \<Rightarrow> 'c gateway \<Rightarrow> 'c gateway" where
  "accept_connection f c s =
     (if gw_permits s > 0 then s\<lparr>gw_permits := gw_permits s - 1, gw_sessions := gw_sessions s @ [ConnectSession f c]\<rparr>
      else s\<lparr>gw_log := gw_log s @ rejection f\<rparr>)"

definition receive_datagram :: "GatewayConfig \<Rightarrow> bytes \<Rightarrow> 'c gateway \<Rightarrow> 'c gateway" where
  "receive_datagram cfg d s =
     (if length d > gc_max_udp_message_bytes cfg then s
      else if gw_in_flight s = 0 then s
      else s\<lparr>gw_in_flight := gw_in_flight s - 1, gw_sessions := gw_sessions s @ [DnsDatagram d]\<rparr>)"

definition accept_dns :: "'c \<Rightarrow> 'c gateway \<Rightarrow> 'c gateway" where
  "accept_dns c s =
     (if gw_in_flight s = 0 then s
      else s\<lparr>gw_in_flight := gw_in_flight s - 1, gw_sessions := gw_sessions s @ [DnsConnection c]\<rparr>)"

text \<open>The end of a session drops its permit.\<close>

definition end_session :: "'c session list \<Rightarrow> 'c session \<Rightarrow> 'c session list \<Rightarrow> 'c gateway \<Rightarrow> 'c gateway" where
  "end_session xs x ys s =
     (case x of
        ConnectSession _ _ \<Rightarrow> s\<lparr>gw_sessions := xs @ ys, gw_permits := gw_permits s + 1\<rparr>
      | _ \<Rightarrow> s\<lparr>gw_sessions := xs @ ys, gw_in_flight := gw_in_flight s + 1\<rparr>)"

text \<open>The result of \<^verbatim>\<open>serve\<close> from the results of its tasks in the order in which they were joined.\<close>

fun serve_result :: "(string + unit) list \<Rightarrow> string + unit" where
  "serve_result [] = Inr ()"
| "serve_result (Inl e # rs) = Inl e"
| "serve_result (Inr _ # rs) = serve_result rs"

definition finish_task :: "gateway_task \<Rightarrow> string + unit \<Rightarrow> 'c gateway \<Rightarrow> 'c gateway" where
  "finish_task t r s = s\<lparr>gw_tasks := remove1 t (gw_tasks s), gw_finished := gw_finished s @ [(t, r)]\<rparr>"

inductive gw_step :: "GatewayConfig \<Rightarrow> 'c gateway \<Rightarrow> 'c gateway \<Rightarrow> bool" for cfg where
  gw_cancel: "\<not> gw_cancelled s \<Longrightarrow> gw_step cfg s (s\<lparr>gw_cancelled := True\<rparr>)"
| gw_connect: "ConnectLoop f \<in> set (gw_tasks s) \<Longrightarrow> \<not> gw_cancelled s \<Longrightarrow> gw_step cfg s (accept_connection f c s)"
| gw_datagram: "UdpLoop \<in> set (gw_tasks s) \<Longrightarrow> \<not> gw_cancelled s \<Longrightarrow> gw_step cfg s (receive_datagram cfg d s)"
| gw_dns: "TcpLoop \<in> set (gw_tasks s) \<Longrightarrow> \<not> gw_cancelled s \<Longrightarrow> gw_step cfg s (accept_dns c s)"
| gw_fail: "t \<in> set (gw_tasks s) \<Longrightarrow> gw_step cfg s (finish_task t (Inl e) s)"
| gw_stop: "t \<in> set (gw_tasks s) \<Longrightarrow> gw_cancelled s \<Longrightarrow> gw_step cfg s (finish_task t (Inr ()) s)"
| gw_join: "gw_finished s = xs @ (t, r) # ys \<Longrightarrow>
    gw_step cfg s (s\<lparr>gw_finished := xs @ ys, gw_joined := gw_joined s @ [r], gw_cancelled := True\<rparr>)"
| gw_return: "gw_tasks s = [] \<Longrightarrow> gw_finished s = [] \<Longrightarrow> gw_returned s = None \<Longrightarrow>
    gw_step cfg s (s\<lparr>gw_returned := Some (serve_result (gw_joined s)), gw_cancelled := True\<rparr>)"
| gw_session: "gw_sessions s = xs @ x # ys \<Longrightarrow> gw_step cfg s (end_session xs x ys s)"

inductive_cases gw_stepE: "gw_step cfg s s'"

definition gw_reachable :: "'net PolicyEngine \<Rightarrow> GatewayConfig \<Rightarrow> GatewayListeners \<Rightarrow> 'c gateway \<Rightarrow> bool" where
  "gw_reachable e cfg ls s \<longleftrightarrow> (gw_step cfg)\<^sup>*\<^sup>* (serve_start e cfg ls) s"

subsection \<open>Permits\<close>

fun is_connect :: "'c session \<Rightarrow> bool" where
  "is_connect (ConnectSession _ _) = True"
| "is_connect _ = False"

definition connect_sessions :: "'c gateway \<Rightarrow> nat" where
  "connect_sessions s = length (filter is_connect (gw_sessions s))"

definition dns_sessions :: "'c gateway \<Rightarrow> nat" where
  "dns_sessions s = length (filter (\<lambda>x. \<not> is_connect x) (gw_sessions s))"

fun served_by :: "'net PolicyEngine \<Rightarrow> GatewayConfig \<Rightarrow> GatewayListeners \<Rightarrow> 'c session \<Rightarrow> bool" where
  "served_by e cfg ls (ConnectSession f _) \<longleftrightarrow> ConnectLoop f \<in> set (serve_tasks e cfg ls)"
| "served_by e cfg ls (DnsDatagram d) \<longleftrightarrow> UdpLoop \<in> set (serve_tasks e cfg ls) \<and> length d \<le> gc_max_udp_message_bytes cfg"
| "served_by e cfg ls (DnsConnection _) \<longleftrightarrow> TcpLoop \<in> set (serve_tasks e cfg ls)"

definition gw_ok :: "'net PolicyEngine \<Rightarrow> GatewayConfig \<Rightarrow> GatewayListeners \<Rightarrow> 'c gateway \<Rightarrow> bool" where
  "gw_ok e cfg ls s \<longleftrightarrow>
     gw_permits s + connect_sessions s = nat (pe_max_concurrent_connections e)
     \<and> gw_in_flight s + dns_sessions s = gc_max_concurrent_queries cfg
     \<and> set (gw_tasks s) \<subseteq> set (serve_tasks e cfg ls) \<and> list_all (served_by e cfg ls) (gw_sessions s)
     \<and> (gw_joined s \<noteq> [] \<longrightarrow> gw_cancelled s)
     \<and> length (gw_tasks s) + length (gw_finished s) + length (gw_joined s) = length (serve_tasks e cfg ls)
     \<and> (\<forall>r. gw_returned s = Some r \<longrightarrow> gw_cancelled s \<and> gw_tasks s = [] \<and> gw_finished s = [] \<and> r = serve_result (gw_joined s))"

lemma length_remove1_Suc: "t \<in> set ts \<Longrightarrow> length ts = Suc (length (remove1 t ts))"
  by (induction ts) auto

lemma gw_running: "gw_ok e cfg ls s \<Longrightarrow> t \<in> set (gw_tasks s) \<Longrightarrow> gw_returned s = None"
  by (cases "gw_returned s") (auto simp: gw_ok_def)

lemma gw_ok_start: "gw_ok e cfg ls (serve_start e cfg ls)"
  by (simp add: gw_ok_def serve_start_def connect_sessions_def dns_sessions_def)

lemma gw_ok_step: "gw_step cfg s s' \<Longrightarrow> gw_ok e cfg ls s \<Longrightarrow> gw_ok e cfg ls s'"
proof (induction rule: gw_step.induct)
  case (gw_connect f s c)
  then show ?case by (auto simp: gw_ok_def accept_connection_def connect_sessions_def dns_sessions_def)
next
  case (gw_datagram s d)
  then show ?case by (auto simp: gw_ok_def receive_datagram_def connect_sessions_def dns_sessions_def)
next
  case (gw_dns s c)
  then show ?case by (auto simp: gw_ok_def accept_dns_def connect_sessions_def dns_sessions_def)
next
  case (gw_fail t s err)
  then show ?case using gw_running [OF gw_fail.prems gw_fail.hyps(1)]
    by (auto simp: gw_ok_def finish_task_def connect_sessions_def dns_sessions_def dest: length_remove1_Suc set_remove1_subset [THEN subsetD])
next
  case (gw_stop t s)
  then show ?case using gw_running [OF gw_stop.prems gw_stop.hyps(1)]
    by (auto simp: gw_ok_def finish_task_def connect_sessions_def dns_sessions_def dest: length_remove1_Suc set_remove1_subset [THEN subsetD])
next
  case (gw_session s xs x ys)
  then show ?case by (cases x) (auto simp: gw_ok_def end_session_def connect_sessions_def dns_sessions_def)
qed (auto simp: gw_ok_def connect_sessions_def dns_sessions_def)

lemma gw_reachable_ok: "gw_reachable e cfg ls s \<Longrightarrow> gw_ok e cfg ls s"
  unfolding gw_reachable_def by (induction rule: rtranclp_induct) (auto intro: gw_ok_start gw_ok_step)

text \<open>
  C19: Whatever connections and datagrams arrive and however tasks and sessions interleave, the permits in use are
  exactly the sessions: at most the configured number of connections over all CONNECT front ends and of DNS queries over both
  transports.  Sessions only exist behind listeners that were started, so no query is served when the policy disables
  DNS, and a connection is turned away exactly when all permits are taken.
\<close>

theorem gateway_sessions_bounded:
  assumes "gw_reachable e cfg ls s"
  shows "gw_permits s + connect_sessions s = nat (pe_max_concurrent_connections e)
    \<and> gw_in_flight s + dns_sessions s = gc_max_concurrent_queries cfg
    \<and> list_all (served_by e cfg ls) (gw_sessions s)
    \<and> (\<not> pe_allow_dns e \<longrightarrow> dns_sessions s = 0)
    \<and> (gw_log (accept_connection f c s) \<noteq> gw_log s \<longleftrightarrow> connect_sessions s = nat (pe_max_concurrent_connections e))"
proof (intro conjI impI)
  note ok = gw_reachable_ok [OF assms, unfolded gw_ok_def]
  show "gw_permits s + connect_sessions s = nat (pe_max_concurrent_connections e)"
    "gw_in_flight s + dns_sessions s = gc_max_concurrent_queries cfg" "list_all (served_by e cfg ls) (gw_sessions s)"
    using ok by blast+
  show "dns_sessions s = 0" if "\<not> pe_allow_dns e"
  proof -
    have "is_connect x" if "served_by e cfg ls x" for x
      using that \<open>\<not> pe_allow_dns e\<close> by (cases x) (auto simp: serve_tasks_def split: if_splits)
    with ok show ?thesis by (auto simp: dns_sessions_def list_all_iff filter_empty_conv)
  qed
  show "(gw_log (accept_connection f c s) \<noteq> gw_log s) = (connect_sessions s = nat (pe_max_concurrent_connections e))"
    using ok by (auto simp: accept_connection_def rejection_def)
qed

definition sample_gateway :: "(IpAddr \<times> nat) PolicyEngine" where
  "sample_gateway = sample_engine\<lparr>pe_max_concurrent_connections := 1\<rparr>"

definition sample_config :: GatewayConfig where
  "sample_config = \<lparr>gc_frontend = FrontendCustom, gc_max_udp_message_bytes = 3, gc_max_concurrent_queries = 2\<rparr>"

definition sample_listeners :: GatewayListeners where
  "sample_listeners = \<lparr>gl_dns_udp = True, gl_dns_tcp = True, gl_http_proxy = True\<rparr>"

definition busy_gateway :: "nat gateway" where
  "busy_gateway = accept_connection FrontendCustom 7 (serve_start sample_gateway sample_config sample_listeners)"

lemma busy_reachable: "gw_reachable sample_gateway sample_config sample_listeners busy_gateway"
proof -
  have "gw_step sample_config (serve_start sample_gateway sample_config sample_listeners) busy_gateway"
    unfolding busy_gateway_def
    by (rule gw_connect) (simp_all add: serve_start_def serve_tasks_def sample_config_def)
  then show ?thesis unfolding gw_reachable_def by (rule r_into_rtranclp)
qed

theorem gateway_sessions_bounded_witness:
  "gw_reachable sample_gateway sample_config sample_listeners busy_gateway
    \<and> gw_permits busy_gateway + connect_sessions busy_gateway = 1 \<and> gw_in_flight busy_gateway + dns_sessions busy_gateway = 2
    \<and> connect_sessions busy_gateway = 1
    \<and> gw_log (accept_connection FrontendHttp 8 busy_gateway) \<noteq> gw_log busy_gateway"
proof -
  have "connect_sessions busy_gateway = 1" by code_simp
  with busy_reachable gateway_sessions_bounded [OF busy_reachable, of FrontendHttp 8] show ?thesis
    by (simp add: sample_gateway_def sample_config_def)
qed

subsection \<open>Shutdown\<close>

definition gw_left :: "'c gateway \<Rightarrow> nat" where
  "gw_left s = 2 * length (gw_tasks s) + length (gw_finished s) + length (gw_sessions s) + (if gw_returned s = None then 1 else 0)"

lemma gw_step_left: "gw_step cfg s s' \<Longrightarrow> gw_cancelled s \<Longrightarrow> gw_cancelled s' \<and> gw_left s' < gw_left s"
proof (induction rule: gw_step.induct)
  case (gw_session s xs x ys)
  then show ?case by (cases x) (auto simp: gw_left_def end_session_def)
qed (auto simp: gw_left_def finish_task_def dest: length_remove1_Suc)

lemma gw_stuck:
  assumes "\<nexists>s'. gw_step cfg s s'"
  shows "gw_tasks s = [] \<and> gw_finished s = [] \<and> gw_sessions s = [] \<and> gw_returned s \<noteq> None"
proof (intro conjI)
  show t: "gw_tasks s = []" using assms gw_fail [of _ s cfg] by (cases "gw_tasks s") auto
  show f: "gw_finished s = []"
    using assms gw_join [of s "[]" _ _ _ cfg] by (cases "gw_finished s") auto
  show "gw_sessions s = []" using assms gw_session [of s "[]" _ _ cfg] by (cases "gw_sessions s") auto
  show "gw_returned s \<noteq> None" using assms gw_return [OF t f] by blast
qed

lemma gw_drains: "gw_cancelled s \<Longrightarrow> \<exists>s'. (gw_step cfg)\<^sup>*\<^sup>* s s' \<and> (\<nexists>s''. gw_step cfg s' s'')"
proof (induction "gw_left s" arbitrary: s rule: less_induct)
  case less
  show ?case
  proof (cases "\<exists>s'. gw_step cfg s s'")
    case True
    then obtain s1 where s1: "gw_step cfg s s1" by blast
    from less.hyps [of s1] gw_step_left [OF s1 less.prems] obtain s' where "(gw_step cfg)\<^sup>*\<^sup>* s1 s'" "\<nexists>s''. gw_step cfg s' s''" by blast
    with s1 show ?thesis by (blast intro: converse_rtranclp_into_rtranclp)
  qed blast
qed

lemma serve_result_Inr: "serve_result rs = Inr () \<longleftrightarrow> list_all (\<lambda>r. r = Inr ()) rs"
  by (induction rs rule: serve_result.induct) auto



end
