(* ===== verification/Mcp_Jsonrpc.thy ===== *)
theory Mcp_Jsonrpc
  imports Utf8
begin

section \<open>JSON-RPC messages (crates/sendbox-mcp/src/jsonrpc.rs)\<close>

text \<open>
  What the broker accepts as a JSON-RPC message.  The \<^verbatim>\<open>serde_json\<close> crate is a parameter: \<open>json_document\<close> is the
  value that a text denotes, with the members of every object in the order of the text, as the visitor sees them;
  \<open>json_raw_id\<close> is the text of the top-level \<^verbatim>\<open>id\<close>, if there is one; \<open>json_string\<close> reads a string literal, \<open>json_quote\<close> writes one,
  and \<open>json_to_vec\<close> writes a value.
\<close>

datatype Number = Integer int | Float rstr

datatype Value =
  VNull | VBool bool | VNumber Number | VString rstr | VArray "Value list" | VObject "(rstr \<times> Value) list"

record json_ops =
  json_document :: "rstr \<Rightarrow> Value option"
  json_raw_id :: "rstr \<Rightarrow> rstr option option"
  json_string :: "rstr \<Rightarrow> rstr option"
  json_quote :: "rstr \<Rightarrow> rstr"
  json_to_vec :: "Value \<Rightarrow> bytes"

definition as_object :: "Value \<Rightarrow> (rstr \<times> Value) list option" where
  "as_object v = (case v of VObject ms \<Rightarrow> Some ms | _ \<Rightarrow> None)"

definition as_array :: "Value \<Rightarrow> Value list option" where
  "as_array v = (case v of VArray vs \<Rightarrow> Some vs | _ \<Rightarrow> None)"

definition as_str :: "Value \<Rightarrow> rstr option" where
  "as_str v = (case v of VString s \<Rightarrow> Some s | _ \<Rightarrow> None)"

definition as_i64 :: "Value \<Rightarrow> int option" where
  "as_i64 v = (case v of VNumber (Integer i) \<Rightarrow> if - (2 ^ 63) \<le> i \<and> i < 2 ^ 63 then Some i else None | _ \<Rightarrow> None)"

definition get :: "(rstr \<times> Value) list \<Rightarrow> string \<Rightarrow> Value option" where
  "get ms key = map_of ms (str key)"

subsection \<open>Strict values\<close>

fun strict_value :: "Value \<Rightarrow> bool" where
  "strict_value (VArray vs) \<longleftrightarrow> list_all strict_value vs"
| "strict_value (VObject ms) \<longleftrightarrow> distinct (map fst ms) \<and> list_all (\<lambda>(_, v). strict_value v) ms"
| "strict_value _ \<longleftrightarrow> True"

definition parse_strict_value :: "json_ops \<Rightarrow> rstr \<Rightarrow> Value option" where
  "parse_strict_value ops text =
     (case json_document ops text of
        None \<Rightarrow> None
      | Some v \<Rightarrow> if strict_value v then Some v else None)"

subsection \<open>Messages\<close>

datatype JsonRpcError =
  InvalidUtf8 | InvalidJson | BatchUnsupported | NotObject | InvalidVersion | InvalidShape rstr | InvalidId

datatype MessageKind = Request | Notification | Response | ErrorResponse

datatype IdPresence = IdMissing | IdPresent rstr

fun id_raw :: "IdPresence \<Rightarrow> rstr option" where
  "id_raw IdMissing = None"
| "id_raw (IdPresent raw) = Some raw"

record ValidatedMessage =
  vm_kind :: MessageKind
  vm_method :: "rstr option"
  vm_id :: IdPresence
  vm_subject :: "rstr option"
  vm_error_code :: "int option"
  vm_error_message :: "rstr option"

definition validate_raw_id :: "json_ops \<Rightarrow> rstr \<Rightarrow> JsonRpcError + unit" where
  "validate_raw_id ops raw =
     (if raw = str ''null'' then Inr ()
      else if starts_with raw [34] then (case json_string ops raw of Some _ \<Rightarrow> Inr () | None \<Rightarrow> Inl InvalidId)
      else let digits = (case strip_prefix raw (str ''-'') of Some ds \<Rightarrow> ds | None \<Rightarrow> raw)
           in if digits = [] \<or> (rlen digits > 1 \<and> starts_with digits (str ''0'')) \<or> \<not> list_all is_ascii_digit digits
              then Inl InvalidId else Inr ())"

text \<open>What a request is about: the name, else the URI, else the name of the reference in its parameters.\<close>

definition message_subject :: "(rstr \<times> Value) list \<Rightarrow> rstr option" where
  "message_subject object =
     (case Option.bind (get object ''params'') as_object of
        None \<Rightarrow> None
      | Some params \<Rightarrow>
          (case Option.bind (get params ''name'') as_str of
             Some s \<Rightarrow> Some s
           | None \<Rightarrow>
               (case Option.bind (get params ''uri'') as_str of
                  Some s \<Rightarrow> Some s
                | None \<Rightarrow>
                    Option.bind (Option.bind (Option.bind (get params ''ref'') as_object) (\<lambda>r. get r ''name'')) as_str)))"

definition validate_method :: "(rstr \<times> Value) list \<Rightarrow> JsonRpcError + rstr option" where
  "validate_method object =
     (case get object ''method'' of
        None \<Rightarrow> Inr None
      | Some v \<Rightarrow>
          (case as_str v of
             Some m \<Rightarrow> if m \<noteq> [] then Inr (Some m) else Inl (InvalidShape (str ''method must be a non-empty string''))
           | None \<Rightarrow> Inl (InvalidShape (str ''method must be a non-empty string''))))"

definition validate_response :: "(rstr \<times> Value) list \<Rightarrow> IdPresence \<Rightarrow> JsonRpcError + ValidatedMessage" where
  "validate_response object ident =
     (if ident = IdMissing then Inl (InvalidShape (str ''responses must contain an id''))
      else if get object ''params'' \<noteq> None then Inl (InvalidShape (str ''responses cannot contain params''))
      else let has_result = (get object ''result'' \<noteq> None); has_error = (get object ''error'' \<noteq> None)
           in if has_result = has_error
              then Inl (InvalidShape (str ''responses must contain exactly one of result or error''))
              else if has_error then
                (case Option.bind (get object ''error'') as_object of
                   None \<Rightarrow> Inl (InvalidShape (str ''error must be an object''))
                 | Some err \<Rightarrow>
                     (case Option.bind (get err ''code'') as_i64 of
                        None \<Rightarrow> Inl (InvalidShape (str ''error.code must be an integer''))
                      | Some code \<Rightarrow>
                          (case Option.bind (get err ''message'') as_str of
                             None \<Rightarrow> Inl (InvalidShape (str ''error.message must be a string''))
                           | Some message \<Rightarrow>
                               Inr \<lparr>vm_kind = ErrorResponse, vm_method = None, vm_id = ident, vm_subject = None,
                                    vm_error_code = Some code, vm_error_message = Some message\<rparr>)))
              else Inr \<lparr>vm_kind = Response, vm_method = None, vm_id = ident, vm_subject = None, vm_error_code = None,
                        vm_error_message = None\<rparr>)"

definition params_shaped :: "(rstr \<times> Value) list \<Rightarrow> bool" where
  "params_shaped object \<longleftrightarrow>
     (case get object ''params'' of
        Some params \<Rightarrow> as_object params \<noteq> None \<or> as_array params \<noteq> None
      | None \<Rightarrow> True)"

definition validate_object :: "(rstr \<times> Value) list \<Rightarrow> IdPresence \<Rightarrow> JsonRpcError + ValidatedMessage" where
  "validate_object object ident =
     (case validate_method object of
        Inl e \<Rightarrow> Inl e
      | Inr meth \<Rightarrow>
          if \<not> params_shaped object then Inl (InvalidShape (str ''params must be an object or array''))
          else (case meth of
                  Some m \<Rightarrow>
                    if get object ''result'' \<noteq> None \<or> get object ''error'' \<noteq> None
                    then Inl (InvalidShape (str ''requests and notifications cannot contain result or error''))
                    else Inr \<lparr>vm_kind = (if ident = IdMissing then Notification else Request), vm_method = Some m, vm_id = ident,
                              vm_subject = message_subject object, vm_error_code = None, vm_error_message = None\<rparr>
                | None \<Rightarrow> validate_response object ident))"

definition validate_message :: "json_ops \<Rightarrow> bytes \<Rightarrow> JsonRpcError + ValidatedMessage" where
  "validate_message ops bs =
     (case from_utf8 bs of
        None \<Rightarrow> Inl InvalidUtf8
      | Some text \<Rightarrow>
          (case parse_strict_value ops text of
             None \<Rightarrow> Inl InvalidJson
           | Some v \<Rightarrow>
               if as_array v \<noteq> None then Inl BatchUnsupported
               else case as_object v of
                   None \<Rightarrow> Inl NotObject
                 | Some object \<Rightarrow>
                     if Option.bind (get object ''jsonrpc'') as_str \<noteq> Some (str ''2.0'') then Inl InvalidVersion
                     else (case json_raw_id ops text of
                             None \<Rightarrow> Inl InvalidJson
                           | Some None \<Rightarrow> validate_object object IdMissing
                           | Some (Some r) \<Rightarrow>
                               (case validate_raw_id ops r of
                                  Inl e \<Rightarrow> Inl e
                                | Inr _ \<Rightarrow> validate_object object (IdPresent r)))))"

definition denial_response :: "json_ops \<Rightarrow> rstr \<Rightarrow> rstr \<Rightarrow> rstr \<Rightarrow> bytes" where
  "denial_response ops ident tool why =
     as_bytes (str ''{\"error\":{\"code\":-32001,\"data\":{\"reason\":'' @ json_quote ops why @ str '',\"tool\":'' @ json_quote ops tool
       @ str ''},\"message\":\"Tool call denied by SendBox boundary policy\"},\"id\":'' @ ident @ str '',\"jsonrpc\":\"2.0\"}'')"

subsection \<open>Shapes\<close>

text \<open>The four kinds of messages and what they carry.\<close>

definition message_shape :: "ValidatedMessage \<Rightarrow> bool" where
  "message_shape m \<longleftrightarrow>
     (case vm_kind m of
        Request \<Rightarrow> vm_method m \<noteq> None \<and> vm_id m \<noteq> IdMissing
      | Notification \<Rightarrow> vm_method m \<noteq> None \<and> vm_id m = IdMissing
      | _ \<Rightarrow> vm_method m = None \<and> vm_id m \<noteq> IdMissing \<and> vm_subject m = None)"

lemma validate_object_shape: "validate_object object ident = Inr m \<Longrightarrow> message_shape m \<and> vm_id m = ident"
  by (auto simp: validate_object_def validate_response_def message_shape_def Let_def split: sum.splits if_splits option.splits)

lemma validate_message_object:
  assumes "validate_message ops bs = Inr m"
  obtains doc object ident where "from_utf8 bs = Some doc" "json_document ops doc = Some (VObject object)" "strict_value (VObject object)"
    "validate_object object ident = Inr m"
proof -
  from assms obtain doc v object ident where t: "from_utf8 bs = Some doc" "json_document ops doc = Some v" "strict_value v"
    "as_object v = Some object" "validate_object object ident = Inr m"
    by (auto simp: validate_message_def parse_strict_value_def split: option.splits if_splits sum.splits)
  from t(4) have "v = VObject object" by (auto simp: as_object_def split: Value.splits)
  with t show thesis by (auto intro: that)
qed

lemma validate_message_shape: "validate_message ops bs = Inr m \<Longrightarrow> message_shape m"
  using validate_message_object validate_object_shape by metis

lemma validate_message_subject:
  assumes "validate_message ops bs = Inr m" and "vm_method m = Some meth"
  obtains doc object where "from_utf8 bs = Some doc" "json_document ops doc = Some (VObject object)" "strict_value (VObject object)"
    "get object ''method'' = Some (VString meth)" "vm_subject m = message_subject object"
proof -
  from assms(1) obtain doc object ident where t: "from_utf8 bs = Some doc" "json_document ops doc = Some (VObject object)"
    "strict_value (VObject object)" and ob: "validate_object object ident = Inr m"
    by (rule validate_message_object)
  from ob assms(2) have "get object ''method'' = Some (VString meth)" "vm_subject m = message_subject object"
    by (auto simp: validate_object_def validate_response_def validate_method_def as_str_def Let_def
      split: sum.splits if_splits option.splits Value.splits)
  with t show thesis by (rule that)
qed

end
