(* ===== verification/Hex.thy ===== *)
theory Hex
  imports Wire
begin

section \<open>Hexadecimal text\<close>

text \<open>
  Bytes written as two lower-case hexadecimal digits each (\<^verbatim>\<open>format!("{byte:02x}")\<close>) and read back
  with \<^verbatim>\<open>u8::from_str_radix(_, 16)\<close>, which also takes upper-case digits.
\<close>

definition hex_char :: "nat \<Rightarrow> rchar" where
  "hex_char n = (if n < 10 then 48 + int n else 87 + int n)"

definition hex_byte :: "u8 \<Rightarrow> rstr" where
  "hex_byte b = [hex_char (unat b div 16), hex_char (unat b mod 16)]"

definition is_ascii_hexdigit :: "rchar \<Rightarrow> bool" where
  "is_ascii_hexdigit c \<longleftrightarrow> 48 \<le> c \<and> c \<le> 57 \<or> 65 \<le> c \<and> c \<le> 70 \<or> 97 \<le> c \<and> c \<le> 102"

definition hex_value :: "rchar \<Rightarrow> nat" where
  "hex_value c = nat (if c \<le> 57 then c - 48 else if c \<le> 70 then c - 55 else c - 87)"

fun unhex :: "rstr \<Rightarrow> bytes" where
  "unhex (a # b # s) = word_of_nat (hex_value a * 16 + hex_value b) # unhex s"
| "unhex _ = []"

lemma hex_char_less: "n < 16 \<Longrightarrow> is_ascii_hexdigit (hex_char n) \<and> hex_value (hex_char n) = n \<and> hex_char n < 128"
  by (auto simp: hex_char_def is_ascii_hexdigit_def hex_value_def)

lemma byte_halves: "unat b div 16 < 16" "unat b mod 16 < 16" for b :: u8
  using unat_less [of b] by (simp_all add: less_mult_imp_div_less)

lemma length_hex: "length (concat (map hex_byte bs)) = 2 * length bs"
  by (induction bs) (simp_all add: hex_byte_def)

lemma hex_digits: "c \<in> set (concat (map hex_byte bs)) \<Longrightarrow> is_ascii_hexdigit c \<and> c < 128"
  using hex_char_less byte_halves by (fastforce simp: hex_byte_def)

lemma unhex_hex [simp]: "unhex (concat (map hex_byte bs)) = bs"
proof (induction bs)
  case (Cons b bs)
  have "hex_value (hex_char (unat b div 16)) * 16 + hex_value (hex_char (unat b mod 16)) = unat b"
    using hex_char_less byte_halves by simp
  with Cons show ?case by (simp add: hex_byte_def)
qed simp

lemma length_unhex: "length (unhex s) = length s div 2"
  by (induction s rule: unhex.induct) simp_all

lemma rlen_hex: "rlen (concat (map hex_byte bs)) = 2 * length bs"
  using rlen_ascii [of "concat (map hex_byte bs)"] hex_digits length_hex by metis

end
