(* ===== verification/Mcp_Policy.thy ===== *)
theory Mcp_Policy
  imports Mcp_Jsonrpc Glob Policy_Types Origin_Reservations Hex
begin

section \<open>The tool policy (crates/sendbox-mcp/src/policy.rs)\<close>

text \<open>
  Which server a policy is bound to, which tool calls it forwards and which tools of a list it shows.  SHA-256 and
  the parser of the \<^verbatim>\<open>url\<close> crate are parameters.  Only the fields that this code reads of the policy document
  (crates/sendbox-policy/src/lib.rs) are modelled; the servers are in the order of their identifiers.
\<close>

datatype ToolTransport = TransportStdio | TransportStreamableHttp | TransportStreamableHttp2025

record ServerToolPolicy =
  st_default_action :: Action
  st_allowlist :: "rstr list"
  st_denylist :: "rstr list"

datatype McpServerPolicy =
  StdioServer "rstr list" ServerToolPolicy
| StreamableHttp rstr ServerToolPolicy
| StreamableHttp2025 rstr ServerToolPolicy

record ToolCallPolicy =
  tc_default_action :: Action
  tc_allowlist :: "rstr list"
  tc_denylist :: "rstr list"
  tc_allowed_server_commands :: "rstr list list"
  tc_servers :: "(rstr \<times> McpServerPolicy) list"

definition uses_hierarchical_servers :: "ToolCallPolicy \<Rightarrow> bool" where
  "uses_hierarchical_servers policy \<longleftrightarrow> tc_servers policy \<noteq> []"

subsection \<open>Endpoints and fingerprints\<close>

datatype url_host = HostDomain rstr | HostIpv4 "32 word" | HostIpv6 "128 word"

record endpoint_url =
  eu_scheme :: rstr
  eu_username :: rstr
  eu_password :: "rstr option"
  eu_query :: "rstr option"
  eu_fragment :: "rstr option"
  eu_host :: "url_host option"
  eu_port_or_known_default :: "u16 option"
  eu_path :: rstr

definition endpoint_host :: "url_host \<Rightarrow> rstr" where
  "endpoint_host h =
     (case h of
        HostDomain d \<Rightarrow> map ascii_lower d
      | HostIpv4 a \<Rightarrow> show_v4 a
      | HostIpv6 a \<Rightarrow> str ''['' @ show_v6 a @ str '']'')"

definition normalize_parsed_http_endpoint :: "endpoint_url \<Rightarrow> rstr + rstr" where
  "normalize_parsed_http_endpoint url =
     (if eu_scheme url \<notin> {str ''http'', str ''https''} then Inl (str ''MCP endpoint scheme must be http or https'')
      else if eu_username url \<noteq> [] \<or> eu_password url \<noteq> None then Inl (str ''MCP endpoint URL cannot contain user information'')
      else if eu_query url \<noteq> None \<or> eu_fragment url \<noteq> None
      then Inl (str ''MCP endpoint URL cannot contain a query or fragment'')
      else case eu_host url of
          None \<Rightarrow> Inl (str ''MCP endpoint URL must contain a host'')
        | Some host \<Rightarrow>
            (case eu_port_or_known_default url of
               None \<Rightarrow> Inl (str ''MCP endpoint URL must have a known port'')
             | Some port \<Rightarrow>
                 Inr (eu_scheme url @ str ''://'' @ endpoint_host host @ str '':'' @ show_nat (unat port) @ eu_path url)))"

definition normalize_mcp_http_endpoint :: "(rstr \<Rightarrow> rstr + endpoint_url) \<Rightarrow> rstr \<Rightarrow> rstr + rstr" where
  "normalize_mcp_http_endpoint url_parse value =
     (case url_parse value of
        Inl e \<Rightarrow> Inl (str ''invalid MCP endpoint URL: '' @ e)
      | Inr url \<Rightarrow> normalize_parsed_http_endpoint url)"

definition sha256_hex :: "(bytes \<Rightarrow> bytes) \<Rightarrow> bytes \<Rightarrow> rstr" where
  "sha256_hex sha bs = concat (map hex_byte (sha bs))"

definition stdio_preimage :: "rstr list \<Rightarrow> bytes" where
  "stdio_preimage command =
     as_bytes (str ''sendbox-mcp-stdio-v1'') @ [0] @ concat (map (\<lambda>part. to_be 8 (rlen part) @ as_bytes part) command)"

definition stdio_fingerprint :: "(bytes \<Rightarrow> bytes) \<Rightarrow> rstr list \<Rightarrow> rstr" where
  "stdio_fingerprint sha command = sha256_hex sha (stdio_preimage command)"

definition http_fingerprint :: "(bytes \<Rightarrow> bytes) \<Rightarrow> ToolTransport \<Rightarrow> rstr \<Rightarrow> rstr" where
  "http_fingerprint sha transport endpoint =
     (let name = (case transport of TransportStdio \<Rightarrow> ''stdio'' | TransportStreamableHttp \<Rightarrow> ''streamable_http''
                  | TransportStreamableHttp2025 \<Rightarrow> ''streamable_http_2025'')
      in sha256_hex sha (as_bytes (str ''sendbox-mcp-http-v1'' @ [0] @ str name @ [0] @ endpoint)))"

subsection \<open>Servers\<close>

record ServerIdentity =
  si_id :: rstr
  si_fingerprint :: rstr
  si_transport :: ToolTransport
  si_endpoint :: "rstr option"

record ResolvedServerPolicy =
  rp_identity :: ServerIdentity
  rp_tools :: ServerToolPolicy

definition stdio_matches :: "ToolCallPolicy \<Rightarrow> rstr list \<Rightarrow> (rstr \<times> ServerToolPolicy) list" where
  "stdio_matches policy command =
     List.map_filter (\<lambda>(i, server). case server of
        StdioServer configured tools \<Rightarrow> if configured = command then Some (i, tools) else None
      | _ \<Rightarrow> None) (tc_servers policy)"

definition resolve_stdio_server :: "(bytes \<Rightarrow> bytes) \<Rightarrow> ToolCallPolicy \<Rightarrow> rstr list \<Rightarrow> string + ResolvedServerPolicy" where
  "resolve_stdio_server sha policy command =
     (let fingerprint = stdio_fingerprint sha command
      in if uses_hierarchical_servers policy then
           (case stdio_matches policy command of
              [] \<Rightarrow> Inl ''MCP server command is not mapped to an allowed server policy''
            | [(i, tools)] \<Rightarrow>
                Inr \<lparr>rp_identity = \<lparr>si_id = i, si_fingerprint = fingerprint, si_transport = TransportStdio, si_endpoint = None\<rparr>,
                     rp_tools = tools\<rparr>
            | _ \<Rightarrow> Inl ''MCP server command maps to more than one server policy'')
         else if command \<notin> set (tc_allowed_server_commands policy) then Inl ''MCP server command is not exactly approved''
         else Inr \<lparr>rp_identity = \<lparr>si_id = str ''legacy-'' @ take 16 fingerprint, si_fingerprint = fingerprint,
                     si_transport = TransportStdio, si_endpoint = None\<rparr>,
                   rp_tools = \<lparr>st_default_action = tc_default_action policy, st_allowlist = tc_allowlist policy,
                     st_denylist = tc_denylist policy\<rparr>\<rparr>)"

definition resolve_http_endpoint ::
  "(bytes \<Rightarrow> bytes) \<Rightarrow> (rstr \<Rightarrow> rstr + endpoint_url) \<Rightarrow> rstr \<Rightarrow> ToolTransport \<Rightarrow> rstr \<Rightarrow> ServerToolPolicy \<Rightarrow> rstr + ResolvedServerPolicy" where
  "resolve_http_endpoint sha url_parse server_id transport url tools =
     (case normalize_mcp_http_endpoint url_parse url of
        Inl e \<Rightarrow> Inl e
      | Inr endpoint \<Rightarrow>
          Inr \<lparr>rp_identity = \<lparr>si_id = server_id, si_fingerprint = http_fingerprint sha transport endpoint,
                 si_transport = transport, si_endpoint = Some endpoint\<rparr>, rp_tools = tools\<rparr>)"

definition resolve_http_server ::
  "(bytes \<Rightarrow> bytes) \<Rightarrow> (rstr \<Rightarrow> rstr + endpoint_url) \<Rightarrow> ToolCallPolicy \<Rightarrow> rstr \<Rightarrow> rstr + ResolvedServerPolicy" where
  "resolve_http_server sha url_parse policy server_id =
     (case map_of (tc_servers policy) server_id of
        None \<Rightarrow> Inl (str ''unknown MCP server policy'')
      | Some (StreamableHttp url tools) \<Rightarrow> resolve_http_endpoint sha url_parse server_id TransportStreamableHttp url tools
      | Some (StreamableHttp2025 url tools) \<Rightarrow> resolve_http_endpoint sha url_parse server_id TransportStreamableHttp2025 url tools
      | Some (StdioServer _ _) \<Rightarrow> Inl (str ''MCP server policy is not an HTTP transport''))"

subsection \<open>Decisions\<close>

record CompiledToolPolicy =
  ct_identity :: ServerIdentity
  ct_default_action :: Action
  ct_allowlist :: "rstr list"
  ct_denylist :: "rstr list"

definition compile_resolved :: "ResolvedServerPolicy \<Rightarrow> CompiledToolPolicy" where
  "compile_resolved config =
     \<lparr>ct_identity = rp_identity config, ct_default_action = st_default_action (rp_tools config),
      ct_allowlist = st_allowlist (rp_tools config), ct_denylist = st_denylist (rp_tools config)\<rparr>"

definition compile_legacy_unbound :: "(bytes \<Rightarrow> bytes) \<Rightarrow> ToolCallPolicy \<Rightarrow> CompiledToolPolicy" where
  "compile_legacy_unbound sha config =
     \<lparr>ct_identity = \<lparr>si_id = str ''legacy-unbound'', si_fingerprint = stdio_fingerprint sha [], si_transport = TransportStdio,
        si_endpoint = None\<rparr>,
      ct_default_action = tc_default_action config, ct_allowlist = tc_allowlist config, ct_denylist = tc_denylist config\<rparr>"

datatype AuditOutcome = Allowed | Denied | Dropped

record AuditDecision =
  ad_server_id :: rstr
  ad_server_fingerprint :: rstr
  ad_transport :: ToolTransport
  ad_endpoint :: "rstr option"
  ad_method :: rstr
  ad_tool :: "rstr option"
  ad_outcome :: AuditOutcome
  ad_matched_rule :: "rstr option"
  ad_reason :: "rstr option"

definition tool_decision ::
  "CompiledToolPolicy \<Rightarrow> rstr \<Rightarrow> rstr option \<Rightarrow> AuditOutcome \<Rightarrow> rstr option \<Rightarrow> rstr option \<Rightarrow> AuditDecision" where
  "tool_decision p meth tool outcome rule why =
     \<lparr>ad_server_id = si_id (ct_identity p), ad_server_fingerprint = si_fingerprint (ct_identity p),
      ad_transport = si_transport (ct_identity p), ad_endpoint = si_endpoint (ct_identity p), ad_method = meth, ad_tool = tool,
      ad_outcome = outcome, ad_matched_rule = rule, ad_reason = why\<rparr>"

definition evaluate_tool_for_method :: "CompiledToolPolicy \<Rightarrow> rstr \<Rightarrow> rstr \<Rightarrow> AuditDecision" where
  "evaluate_tool_for_method p raw meth =
     (let tool = trim raw
      in if tool = [] then tool_decision p meth None Denied None (Some (str ''MCP tool entry is missing a name''))
         else case find (glob_matches tool) (ct_denylist p) of
             Some pattern \<Rightarrow>
               tool_decision p meth (Some tool) Denied (Some pattern)
                 (Some (str ''Tool '' @ [39] @ tool @ [39] @ str '' matches deny pattern '' @ [39] @ pattern @ [39]))
           | None \<Rightarrow>
               (case find (glob_matches tool) (ct_allowlist p) of
                  Some pattern \<Rightarrow> tool_decision p meth (Some tool) Allowed (Some pattern) None
                | None \<Rightarrow>
                    (case ct_default_action p of
                       Allow \<Rightarrow> tool_decision p meth (Some tool) Allowed None None
                     | Deny \<Rightarrow> tool_decision p meth (Some tool) Denied None
                         (Some (str ''Tool '' @ [39] @ tool @ [39] @ str '' is not in the allowlist'')))))"

definition evaluate_tool :: "CompiledToolPolicy \<Rightarrow> rstr \<Rightarrow> AuditDecision" where
  "evaluate_tool p tool = evaluate_tool_for_method p tool (str ''tools/call'')"

datatype PolicyAction = Forward AuditDecision | Respond bytes AuditDecision | DropMessage AuditDecision | Terminate string

definition refuse_call :: "json_ops \<Rightarrow> ValidatedMessage \<Rightarrow> rstr \<Rightarrow> AuditDecision \<Rightarrow> PolicyAction" where
  "refuse_call ops m tool decision =
     (let why = (case ad_reason decision of Some r \<Rightarrow> r | None \<Rightarrow> str ''denied'')
      in case (vm_kind m, vm_id m) of
          (Notification, IdMissing) \<Rightarrow> DropMessage (decision\<lparr>ad_outcome := Dropped\<rparr>)
        | (Request, IdPresent i) \<Rightarrow> Respond (denial_response ops i (trim tool) why) decision
        | _ \<Rightarrow> Terminate ''invalid tools/call JSON-RPC shape'')"

definition evaluate_message :: "json_ops \<Rightarrow> CompiledToolPolicy \<Rightarrow> ValidatedMessage \<Rightarrow> PolicyAction" where
  "evaluate_message ops p m =
     (if vm_method m \<noteq> Some (str ''tools/call'') then
        Forward (tool_decision p (case vm_method m of Some meth \<Rightarrow> meth | None \<Rightarrow> str ''response'') None Allowed None None)
      else case vm_subject m of
          None \<Rightarrow> Terminate ''MCP tools/call request is missing params.name''
        | Some tool \<Rightarrow>
            (let decision = evaluate_tool p tool
             in if ad_outcome decision = Allowed then Forward decision else refuse_call ops m tool decision))"

subsection \<open>Lists of tools\<close>

record FilteredToolList =
  fl_payload :: bytes
  fl_decisions :: "AuditDecision list"

definition tool_name :: "Value \<Rightarrow> rstr option" where
  "tool_name tool =
     (case Option.bind (Option.bind (as_object tool) (\<lambda>ms. get ms ''name'')) as_str of
        Some name \<Rightarrow> if trim name \<noteq> [] then Some name else None
      | None \<Rightarrow> None)"

fun filter_tools ::
  "CompiledToolPolicy \<Rightarrow> rstr set \<Rightarrow> Value list \<Rightarrow> JsonRpcError + Value list \<times> AuditDecision list" where
  "filter_tools p names [] = Inr ([], [])"
| "filter_tools p names (tool # tools) =
     (case tool_name tool of
        None \<Rightarrow> Inl (InvalidShape (str ''tools/list entries must contain a non-empty string name''))
      | Some name \<Rightarrow>
          if name \<in> names
          then Inl (InvalidShape (str ''tools/list contains duplicate tool name '' @ [39] @ name @ [39]))
          else (case filter_tools p (insert name names) tools of
                  Inl e \<Rightarrow> Inl e
                | Inr (kept, decisions) \<Rightarrow>
                    (let decision = evaluate_tool_for_method p name (str ''tools/list'')
                     in Inr (if ad_outcome decision = Allowed then tool # kept else kept, decision # decisions))))"

definition put :: "string \<Rightarrow> Value \<Rightarrow> (rstr \<times> Value) list \<Rightarrow> (rstr \<times> Value) list" where
  "put key v ms = map (\<lambda>(k, w). if k = str key then (k, v) else (k, w)) ms"

definition filter_tools_list_response :: "json_ops \<Rightarrow> CompiledToolPolicy \<Rightarrow> bytes \<Rightarrow> JsonRpcError + FilteredToolList" where
  "filter_tools_list_response ops p bs =
     (case validate_message ops bs of
        Inl e \<Rightarrow> Inl e
      | Inr m \<Rightarrow>
          if vm_kind m = ErrorResponse then Inr \<lparr>fl_payload = bs, fl_decisions = []\<rparr>
          else if vm_kind m \<noteq> Response then Inl (InvalidShape (str ''tools/list result must be a JSON-RPC response''))
          else (case Option.bind (Option.bind (from_utf8 bs) (json_document ops)) as_object of
                  None \<Rightarrow> Inl InvalidJson
                | Some root \<Rightarrow>
                    (case Option.bind (get root ''result'') as_object of
                       None \<Rightarrow> Inl (InvalidShape (str ''tools/list result must be an object''))
                     | Some result \<Rightarrow>
                         (case Option.bind (get result ''tools'') as_array of
                            None \<Rightarrow> Inl (InvalidShape (str ''tools/list result.tools must be an array''))
                          | Some tools \<Rightarrow>
                              (case filter_tools p {} tools of
                                 Inl e \<Rightarrow> Inl e
                               | Inr (kept, decisions) \<Rightarrow>
                                   Inr \<lparr>fl_payload = json_to_vec ops
                                          (VObject (put ''result'' (VObject (put ''tools'' (VArray kept) result)) root)),
                                        fl_decisions = decisions\<rparr>)))))"

subsection \<open>Fingerprints tell commands apart\<close>

definition command_ok :: "rstr list \<Rightarrow> bool" where
  "command_ok command \<longleftrightarrow> list_all (\<lambda>part. rlen part < 2 ^ 64 \<and> list_all scalar part) command"

lemma as_bytes_inj:
  assumes "list_all scalar a" and "list_all scalar b" and "as_bytes a = as_bytes b"
  shows "a = b"
proof -
  have "Some a = from_utf8 (as_bytes a)" using from_utf8_as_bytes [of a] assms(1) by (simp add: list_all_iff)
  also have "\<dots> = Some b" unfolding assms(3) using from_utf8_as_bytes [of b] assms(2) by (simp add: list_all_iff)
  finally show ?thesis by simp
qed

definition part_bytes :: "rstr \<Rightarrow> bytes" where
  "part_bytes part = to_be 8 (rlen part) @ as_bytes part"

lemma part_bytes_inj:
  assumes "part_bytes x @ xs = part_bytes y @ ys" and "command_ok [x]" and "command_ok [y]"
  shows "x = y \<and> xs = ys"
proof -
  have ok: "rlen x < 256 ^ 8" "list_all scalar x" "rlen y < 256 ^ 8" "list_all scalar y"
    using assms(2,3) by (simp_all add: command_ok_def)
  from assms(1) have b: "to_be 8 (rlen x) = to_be 8 (rlen y)" and r: "as_bytes x @ xs = as_bytes y @ ys"
    by (simp_all add: part_bytes_def append_eq_append_conv)
  have "rlen x = from_be (to_be 8 (rlen x))" by (rule from_be_to_be [OF ok(1), symmetric])
  also have "\<dots> = rlen y" unfolding b by (rule from_be_to_be [OF ok(3)])
  finally have "length (as_bytes x) = length (as_bytes y)" by (simp add: length_as_bytes)
  with r have "as_bytes x = as_bytes y" "xs = ys" by (simp_all add: append_eq_append_conv)
  with ok show ?thesis by (simp add: as_bytes_inj)
qed

lemma command_parts_inj:
  "command_ok xs \<Longrightarrow> command_ok ys \<Longrightarrow> concat (map part_bytes xs) = concat (map part_bytes ys) \<Longrightarrow> xs = ys"
proof (induction xs arbitrary: ys)
  case Nil
  then show ?case by (cases ys) (simp_all add: part_bytes_def)
next
  case (Cons x xs)
  then obtain y ys' where ys: "ys = y # ys'" by (cases ys) (simp_all add: part_bytes_def)
  have "x = y \<and> concat (map part_bytes xs) = concat (map part_bytes ys')"
    using Cons.prems ys by (intro part_bytes_inj) (simp_all add: command_ok_def)
  with Cons ys show ?case by (simp add: command_ok_def)
qed

text \<open>
  C40: The bytes that are hashed into the fingerprint of a command determine the command: two commands have the same
  preimage only if they are the same list of arguments, however their arguments are cut.
\<close>

theorem stdio_preimage_injective:
  assumes "command_ok xs" and "command_ok ys" and "stdio_preimage xs = stdio_preimage ys"
  shows "xs = ys"
proof (rule command_parts_inj [OF assms(1,2)])
  show "concat (map part_bytes xs) = concat (map part_bytes ys)"
    using assms(3) unfolding stdio_preimage_def part_bytes_def append_assoc [symmetric] by (rule same_append_eq [THEN iffD1])
qed

theorem stdio_preimage_injective_witness:
  "command_ok [str ''npx'', str ''ab''] \<and> command_ok [str ''np'', str ''xab''] \<and> stdio_preimage [str ''npx'', str ''ab''] \<noteq> stdio_preimage [str ''np'', str ''xab'']"
proof -
  have "command_ok [str ''npx'', str ''ab'']" "command_ok [str ''np'', str ''xab'']"
    by (simp_all add: command_ok_def scalar_def rlen_def utf8_width_def)
  with stdio_preimage_injective [of "[str ''npx'', str ''ab'']" "[str ''np'', str ''xab'']"] show ?thesis by auto
qed

subsection \<open>Which tools are permitted\<close>

text \<open>
  The meaning of the lists: patterns mean what \<open>glob_spec\<close> says.  The matcher is exact on names without a star.
\<close>

definition tool_permitted :: "CompiledToolPolicy \<Rightarrow> rstr \<Rightarrow> bool" where
  "tool_permitted p tool \<longleftrightarrow>
     trim tool \<noteq> []
     \<and> (STAR \<notin> set (trim tool) \<longrightarrow> \<not> list_ex (glob_spec (trim tool)) (ct_denylist p))
     \<and> (list_ex (glob_spec (trim tool)) (ct_allowlist p) \<or> ct_default_action p = Allow)"

lemma evaluate_allowed_iff:
  "ad_outcome (evaluate_tool_for_method p tool meth) = Allowed \<longleftrightarrow>
     trim tool \<noteq> [] \<and> \<not> list_ex (glob_matches (trim tool)) (ct_denylist p)
     \<and> (list_ex (glob_matches (trim tool)) (ct_allowlist p) \<or> ct_default_action p = Allow)"
proof (cases rule: find_cases [of "glob_matches (trim tool)" "ct_denylist p"])
  case 1
  then show ?thesis
    by (cases rule: find_cases [of "glob_matches (trim tool)" "ct_allowlist p"])
      (auto simp: evaluate_tool_for_method_def Let_def tool_decision_def list_ex_iff split: Action.splits)
qed (auto simp: evaluate_tool_for_method_def Let_def tool_decision_def list_ex_iff)

lemma evaluate_allowed_permitted:
  assumes "ad_outcome (evaluate_tool_for_method p tool meth) = Allowed"
  shows "tool_permitted p tool"
proof -
  note a = assms [unfolded evaluate_allowed_iff list_ex_iff]
  have "\<not> list_ex (glob_spec (trim tool)) (ct_denylist p)" if "STAR \<notin> set (trim tool)"
    unfolding list_ex_iff
  proof
    assume "\<exists>pattern \<in> set (ct_denylist p). glob_spec (trim tool) pattern"
    then obtain pattern where "pattern \<in> set (ct_denylist p)" "glob_spec (trim tool) pattern" by blast
    with a glob_matches_complete [OF _ that] show False by blast
  qed
  moreover have "list_ex (glob_spec (trim tool)) (ct_allowlist p) \<or> ct_default_action p = Allow"
  proof (rule disjCI)
    assume "ct_default_action p \<noteq> Allow"
    with a obtain pattern where "pattern \<in> set (ct_allowlist p)" "glob_matches (trim tool) pattern" by blast
    then show "list_ex (glob_spec (trim tool)) (ct_allowlist p)" unfolding list_ex_iff using glob_matches_sound by blast
  qed
  ultimately show ?thesis using a unfolding tool_permitted_def by blast
qed

lemma evaluate_message_cases:
  obtains (other) "vm_method m \<noteq> Some (str ''tools/call'')"
      "evaluate_message ops p m = Forward (tool_decision p (case vm_method m of Some meth \<Rightarrow> meth | None \<Rightarrow> str ''response'') None Allowed None None)"
  | (nameless) "vm_method m = Some (str ''tools/call'')" "vm_subject m = None"
      "evaluate_message ops p m = Terminate ''MCP tools/call request is missing params.name''"
  | (allowed) tool where "vm_method m = Some (str ''tools/call'')" "vm_subject m = Some tool" "ad_outcome (evaluate_tool p tool) = Allowed"
      "evaluate_message ops p m = Forward (evaluate_tool p tool)"
  | (denied) tool where "vm_method m = Some (str ''tools/call'')" "vm_subject m = Some tool" "ad_outcome (evaluate_tool p tool) \<noteq> Allowed"
      "evaluate_message ops p m = refuse_call ops m tool (evaluate_tool p tool)"
proof (cases "vm_method m = Some (str ''tools/call'')")
  case True
  show thesis
  proof (cases "vm_subject m")
    case None
    with True show thesis by (intro nameless) (simp_all add: evaluate_message_def)
  next
    case (Some tool)
    show thesis
    proof (cases "ad_outcome (evaluate_tool p tool) = Allowed")
      case a: True
      show thesis by (rule allowed [OF True Some a]) (simp add: evaluate_message_def True Some a)
    next
      case d: False
      show thesis by (rule denied [OF True Some d]) (simp add: evaluate_message_def True Some d)
    qed
  qed
next
  case False
  show thesis by (rule other [OF False]) (simp only: evaluate_message_def if_P [OF False])
qed

lemma evaluate_tool_fields:
  "ad_outcome (evaluate_tool p tool) \<noteq> Dropped" "ad_method (evaluate_tool p tool) = str ''tools/call''"
  "trim tool \<noteq> [] \<Longrightarrow> ad_tool (evaluate_tool p tool) = Some (trim tool)"
  by (auto simp: evaluate_tool_def evaluate_tool_for_method_def tool_decision_def Let_def simp del: str_simps split: option.splits Action.splits)

text \<open>What a forwarded message is: not a tool call, or a call of a permitted tool.\<close>

lemma evaluate_message_Forward:
  assumes "evaluate_message ops p m = Forward d"
  shows "ad_outcome d = Allowed \<and> (vm_method m = Some (str ''tools/call'') \<longrightarrow>
    (\<exists>tool. vm_subject m = Some tool \<and> tool_permitted p tool \<and> ad_tool d = Some (trim tool) \<and> ad_method d = str ''tools/call''))"
proof (cases rule: evaluate_message_cases [of m ops p])
  case other
  with assms show ?thesis by (auto simp: tool_decision_def simp del: str_simps)
next
  case (allowed tool)
  then have "tool_permitted p tool" unfolding evaluate_tool_def by (blast intro: evaluate_allowed_permitted)
  moreover from this have "trim tool \<noteq> []" unfolding tool_permitted_def by blast
  ultimately show ?thesis using allowed assms evaluate_tool_fields(2) evaluate_tool_fields(3) by (simp del: str_simps)
next
  case (denied tool)
  with assms show ?thesis
    by (auto simp: refuse_call_def Let_def split: MessageKind.splits IdPresence.splits)
qed (use assms in simp)

text \<open>What happens to a refused call: a notification is dropped, a request is answered.\<close>

lemma refuse_call_shape:
  assumes "message_shape m" and "vm_method m \<noteq> None"
  shows "vm_kind m = Notification \<and> refuse_call ops m tool d = DropMessage (d\<lparr>ad_outcome := Dropped\<rparr>)
    \<or> (\<exists>i why. vm_kind m = Request \<and> vm_id m = IdPresent i \<and> refuse_call ops m tool d = Respond (denial_response ops i (trim tool) why) d)"
proof (cases "vm_kind m")
  case Request
  then obtain i where "vm_id m = IdPresent i" using assms(1) by (cases "vm_id m") (simp_all add: message_shape_def)
  with Request show ?thesis by (auto simp: refuse_call_def Let_def)
next
  case Notification
  then have "vm_id m = IdMissing" using assms(1) by (simp add: message_shape_def)
  with Notification show ?thesis by (simp add: refuse_call_def Let_def)
qed (use assms in \<open>simp_all add: message_shape_def\<close>)

subsection \<open>Which tools are shown\<close>

definition shown :: "CompiledToolPolicy \<Rightarrow> Value \<Rightarrow> bool" where
  "shown p tool \<longleftrightarrow> (case tool_name tool of Some name \<Rightarrow> ad_outcome (evaluate_tool p name) = Allowed | None \<Rightarrow> False)"

lemma evaluate_same_outcome:
  "ad_outcome (evaluate_tool_for_method p tool meth) = Allowed \<longleftrightarrow> ad_outcome (evaluate_tool p tool) = Allowed"
  by (simp add: evaluate_tool_def evaluate_allowed_iff)

lemma filter_tools_Inr:
  "filter_tools p names tools = Inr (kept, decisions) \<Longrightarrow>
     list_all (\<lambda>t. tool_name t \<noteq> None) tools \<and> distinct (map tool_name tools) \<and> Some ` names \<inter> tool_name ` set tools = {}
     \<and> kept = filter (shown p) tools
     \<and> decisions = map (\<lambda>t. evaluate_tool_for_method p (the (tool_name t)) (str ''tools/list'')) tools"
proof (induction p names tools arbitrary: kept decisions rule: filter_tools.induct)
  case (2 p names tool tools)
  then obtain name kept' decisions' where t: "tool_name tool = Some name" "name \<notin> names"
    "filter_tools p (insert name names) tools = Inr (kept', decisions')"
    "kept = (if ad_outcome (evaluate_tool_for_method p name (str ''tools/list'')) = Allowed then tool # kept' else kept')"
    "decisions = evaluate_tool_for_method p name (str ''tools/list'') # decisions'"
    by (auto simp: Let_def simp del: str_simps split: option.splits if_splits sum.splits)
  from "2.IH" [OF t(1,2,3)] t show ?case by (auto simp: shown_def evaluate_same_outcome simp del: str_simps)
qed simp

text \<open>
  C39: A filtered list of tools shows exactly the tools whose call the policy forwards, in the order of the server, and
  changes nothing else of the response.  Lists with a nameless or a repeated tool are refused, every tool has a
  decision, and an error response is passed on unchanged.
\<close>

theorem tools_list_filtered:
  assumes "filter_tools_list_response ops p bs = Inr out"
  shows "(\<exists>m. validate_message ops bs = Inr m \<and> vm_kind m = ErrorResponse) \<and> fl_payload out = bs \<and> fl_decisions out = []
    \<or> (\<exists>doc root result tools. from_utf8 bs = Some doc \<and> json_document ops doc = Some (VObject root)
        \<and> get root ''result'' = Some (VObject result) \<and> get result ''tools'' = Some (VArray tools)
        \<and> list_all (\<lambda>t. tool_name t \<noteq> None) tools \<and> distinct (map tool_name tools)
        \<and> fl_payload out = json_to_vec ops (VObject (put ''result'' (VObject (put ''tools'' (VArray (filter (shown p) tools)) result)) root))
        \<and> list_all (\<lambda>t. \<exists>name. tool_name t = Some name \<and> tool_permitted p name) (filter (shown p) tools)
        \<and> fl_decisions out = map (\<lambda>t. evaluate_tool_for_method p (the (tool_name t)) (str ''tools/list'')) tools)"
proof -
  from assms obtain m where m: "validate_message ops bs = Inr m" by (auto simp: filter_tools_list_response_def split: sum.splits)
  show ?thesis
  proof (cases "vm_kind m = ErrorResponse")
    case True
    with assms m show ?thesis by (auto simp: filter_tools_list_response_def simp del: str_simps)
  next
    case False
    with assms m obtain doc v root rv result tv tools kept decisions where r: "from_utf8 bs = Some doc" "json_document ops doc = Some v"
      "as_object v = Some root" "get root ''result'' = Some rv" "as_object rv = Some result" "get result ''tools'' = Some tv"
      "as_array tv = Some tools" "filter_tools p {} tools = Inr (kept, decisions)"
      "out = \<lparr>fl_payload = json_to_vec ops (VObject (put ''result'' (VObject (put ''tools'' (VArray kept) result)) root)), fl_decisions = decisions\<rparr>"
      by (auto simp: filter_tools_list_response_def bind_eq_Some_conv simp del: str_simps split: option.splits if_splits sum.splits)
    then have v: "v = VObject root" "rv = VObject result" "tv = VArray tools"
      by (auto simp: as_object_def as_array_def split: Value.splits)
    have "list_all (\<lambda>t. \<exists>name. tool_name t = Some name \<and> tool_permitted p name) (filter (shown p) tools)"
      by (auto simp: list_all_iff shown_def evaluate_tool_def split: option.splits intro: evaluate_allowed_permitted)
    with r v filter_tools_Inr [OF r(8)] show ?thesis by (intro disjI2 exI [of _ doc] exI [of _ root] exI [of _ result] exI [of _ tools]) simp
  qed
qed

definition sample_tools :: CompiledToolPolicy where
  "sample_tools = \<lparr>ct_identity = \<lparr>si_id = str ''s'', si_fingerprint = str ''f'', si_transport = TransportStdio, si_endpoint = None\<rparr>,
     ct_default_action = Deny, ct_allowlist = [str ''read*''], ct_denylist = [str ''*secret'']\<rparr>"

definition sample_list :: Value where
  "sample_list = VArray [VObject [(str ''name'', VString (str ''read_file''))], VObject [(str ''name'', VString (str ''read_secret''))]]"

definition sample_json :: json_ops where
  "sample_json = \<lparr>json_document = (\<lambda>_. Some (VObject [(str ''jsonrpc'', VString (str ''2.0'')), (str ''id'', VNumber (Integer 1)),
       (str ''result'', VObject [(str ''tools'', sample_list)])])),
     json_raw_id = (\<lambda>_. Some (Some (str ''1''))), json_string = Some, json_quote = (\<lambda>s. s),
     json_to_vec = (\<lambda>v. case v of VObject [_, _, (_, VObject [(_, VArray tools)])] \<Rightarrow> map (\<lambda>_. 7) tools | _ \<Rightarrow> [])\<rparr>"

lemma sample_filtered: "map_sum (\<lambda>_. ()) fl_payload (filter_tools_list_response sample_json sample_tools []) = Inr [7]"
  by code_simp

theorem tools_list_filtered_witness:
  "\<exists>out root result tools. filter_tools_list_response sample_json sample_tools [] = Inr out \<and> fl_payload out = [7]
     \<and> json_document sample_json [] = Some (VObject root) \<and> get root ''result'' = Some (VObject result)
     \<and> get result ''tools'' = Some (VArray tools) \<and> length (fl_decisions out) = length tools"
proof -
  obtain out where o: "filter_tools_list_response sample_json sample_tools [] = Inr out" "fl_payload out = [7]"
    using sample_filtered by (cases "filter_tools_list_response sample_json sample_tools []") auto
  have "from_utf8 [] = Some []" by code_simp
  with tools_list_filtered [OF o(1)] o(2) obtain root result tools where
    "json_document sample_json [] = Some (VObject root)" "get root ''result'' = Some (VObject result)"
    "get result ''tools'' = Some (VArray tools)" "length (fl_decisions out) = length tools"
    by auto
  with o show ?thesis by blast
qed


end
