(* ===== verification/Mcp_Broker.thy ===== *)
theory Mcp_Broker
  imports Mcp_Policy Mcp_Framing
begin

section \<open>The stdio broker (crates/sendbox-mcp/src/broker.rs)\<close>

text \<open>
  Two tasks copy JSON-RPC frames between an agent and a tool server and share the table of outstanding requests.  A
  task reads some bytes, decodes the frames in them and handles them one after the other; between two frames
  the other task may run, and a task that fails leaves the other one running until it is aborted.  The observer
  and the audit sink are parameters; whether a write succeeds is the choice of the step.
\<close>

datatype BrokerDirection = ToServer | FromServer

datatype BrokerError =
  BrokerIo | BrokerFrame FrameError | BrokerJsonRpc JsonRpcError | BrokerPolicy rstr | BrokerAudit | ClientDisconnected
| OutputSaturated | BrokerCancelled

record RequestTracker =
  client_requests :: "rstr \<rightharpoonup> rstr"
  server_requests :: "rstr \<rightharpoonup> rstr"

record broker_env =
  be_json :: json_ops
  be_policy :: CompiledToolPolicy
  be_observe :: "BrokerDirection \<Rightarrow> bytes \<Rightarrow> BrokerError option"
  be_audit :: "AuditDecision \<Rightarrow> bool"

subsection \<open>Outstanding requests\<close>

text \<open>A table after a request, and the error if the identifier was already in use: the entry is replaced before that is noticed.\<close>

definition insert_request ::
  "string \<Rightarrow> ValidatedMessage \<Rightarrow> (rstr \<rightharpoonup> rstr) \<Rightarrow> (rstr \<rightharpoonup> rstr) \<times> BrokerError option" where
  "insert_request whose m table =
     (case id_raw (vm_id m) of
        None \<Rightarrow> (table, Some (BrokerPolicy (str ''MCP request is missing an id'')))
      | Some i \<Rightarrow>
          (case vm_method m of
             None \<Rightarrow> (table, Some (BrokerPolicy (str ''MCP request is missing a method'')))
           | Some meth \<Rightarrow>
               (table(i \<mapsto> meth),
                if table i \<noteq> None
                then Some (BrokerPolicy (str ''duplicate outstanding MCP '' @ str whose @ str '' request id '' @ i)) else None)))"

definition track_client_message :: "ValidatedMessage \<Rightarrow> RequestTracker \<Rightarrow> RequestTracker \<times> BrokerError option" where
  "track_client_message m t =
     (case vm_kind m of
        Request \<Rightarrow> (case insert_request ''client'' m (client_requests t) of (table, err) \<Rightarrow> (t\<lparr>client_requests := table\<rparr>, err))
      | Notification \<Rightarrow> (t, None)
      | _ \<Rightarrow>
          (case id_raw (vm_id m) of
             None \<Rightarrow> (t, Some (BrokerPolicy (str ''MCP response is missing an id'')))
           | Some i \<Rightarrow>
               (t\<lparr>server_requests := (server_requests t)(i := None)\<rparr>,
                if server_requests t i = None
                then Some (BrokerPolicy (str ''MCP client response id '' @ i @ str '' has no matching server request''))
                else None)))"

definition track_server_message ::
  "ValidatedMessage \<Rightarrow> RequestTracker \<Rightarrow> RequestTracker \<times> (BrokerError + rstr option)" where
  "track_server_message m t =
     (case vm_kind m of
        Request \<Rightarrow>
          (case insert_request ''server'' m (server_requests t) of (table, err) \<Rightarrow>
             (t\<lparr>server_requests := table\<rparr>, case err of Some e \<Rightarrow> Inl e | None \<Rightarrow> Inr None))
      | Notification \<Rightarrow> (t, Inr None)
      | _ \<Rightarrow>
          (case id_raw (vm_id m) of
             None \<Rightarrow> (t, Inl (BrokerPolicy (str ''MCP response is missing an id'')))
           | Some i \<Rightarrow>
               (t\<lparr>client_requests := (client_requests t)(i := None)\<rparr>,
                case client_requests t i of
                  Some meth \<Rightarrow> Inr (Some meth)
                | None \<Rightarrow> Inl (BrokerPolicy (str ''MCP server response id '' @ i @ str '' has no matching client request'')))))"

subsection \<open>Frames\<close>

text \<open>
  What happened so far: decisions written to the audit log, frames written to the server, responses of the broker itself
  and frames of the server queued for the client, with the message and the method of the request it answers.
\<close>

datatype broker_event =
  Audited AuditDecision
| Forwarded DecodedFrame ValidatedMessage
| Responded bytes
| Returned DecodedFrame ValidatedMessage "rstr option" bytes

record broker =
  br_requests :: RequestTracker
  br_client_decoder :: FrameDecoder
  br_server_decoder :: FrameDecoder
  br_client_frames :: "DecodedFrame list"
  br_server_frames :: "DecodedFrame list"
  br_client_end :: "(BrokerError + unit) option"
  br_server_end :: "(BrokerError + unit) option"
  br_log :: "broker_event list"

definition append_log :: "broker_event list \<Rightarrow> broker \<Rightarrow> broker" where
  "append_log es s = s\<lparr>br_log := br_log s @ es\<rparr>"

definition end_client :: "BrokerError option \<Rightarrow> broker \<Rightarrow> broker" where
  "end_client err s = (case err of Some e \<Rightarrow> s\<lparr>br_client_end := Some (Inl e)\<rparr> | None \<Rightarrow> s)"

definition end_server :: "BrokerError option \<Rightarrow> broker \<Rightarrow> broker" where
  "end_server err s = (case err of Some e \<Rightarrow> s\<lparr>br_server_end := Some (Inl e)\<rparr> | None \<Rightarrow> s)"

definition forward_frame :: "BrokerError option \<Rightarrow> DecodedFrame \<Rightarrow> ValidatedMessage \<Rightarrow> AuditDecision \<Rightarrow> broker \<Rightarrow> broker" where
  "forward_frame out f m d s =
     (case track_client_message m (br_requests s) of
        (t, Some e) \<Rightarrow> end_client (Some e) (append_log [Audited d] (s\<lparr>br_requests := t\<rparr>))
      | (t, None) \<Rightarrow> end_client out (append_log [Audited d, Forwarded f m] (s\<lparr>br_requests := t\<rparr>)))"

definition client_frame :: "broker_env \<Rightarrow> BrokerError option \<Rightarrow> DecodedFrame \<Rightarrow> broker \<Rightarrow> broker" where
  "client_frame env out f s =
     (case validate_message (be_json env) (payload f) of
        Inl e \<Rightarrow> end_client (Some (BrokerJsonRpc e)) s
      | Inr m \<Rightarrow>
          (case be_observe env ToServer (payload f) of
             Some e \<Rightarrow> end_client (Some e) s
           | None \<Rightarrow>
               (case evaluate_message (be_json env) (be_policy env) m of
                  Forward d \<Rightarrow> if \<not> be_audit env d then end_client (Some BrokerAudit) s else forward_frame out f m d s
                | Respond r d \<Rightarrow>
                    if \<not> be_audit env d then end_client (Some BrokerAudit) s
                    else if out \<noteq> None then end_client out (append_log [Audited d] s)
                    else append_log [Audited d, Responded (encode_frame r (frame_mode f))] s
                | DropMessage d \<Rightarrow>
                    if \<not> be_audit env d then end_client (Some BrokerAudit) s else append_log [Audited d] s
                | Terminate why \<Rightarrow> end_client (Some (BrokerPolicy (str why))) s)))"

text \<open>The decisions of a list are recorded one after the other, up to the first that cannot be.\<close>

fun audit_all :: "broker_env \<Rightarrow> AuditDecision list \<Rightarrow> broker_event list \<times> BrokerError option" where
  "audit_all env [] = ([], None)"
| "audit_all env (d # ds) =
     (if \<not> be_audit env d then ([], Some BrokerAudit)
      else case audit_all env ds of (es, err) \<Rightarrow> (Audited d # es, err))"

definition return_frame ::
  "BrokerError option \<Rightarrow> DecodedFrame \<Rightarrow> ValidatedMessage \<Rightarrow> rstr option \<Rightarrow> bytes \<Rightarrow> broker \<Rightarrow> broker" where
  "return_frame out f m request bs s =
     (if out \<noteq> None then end_server out s else append_log [Returned f m request bs] s)"

definition server_frame :: "broker_env \<Rightarrow> BrokerError option \<Rightarrow> DecodedFrame \<Rightarrow> broker \<Rightarrow> broker" where
  "server_frame env out f s =
     (case validate_message (be_json env) (payload f) of
        Inl e \<Rightarrow> end_server (Some (BrokerJsonRpc e)) s
      | Inr m \<Rightarrow>
          (case be_observe env FromServer (payload f) of
             Some e \<Rightarrow> end_server (Some e) s
           | None \<Rightarrow>
               (case track_server_message m (br_requests s) of
                  (t, Inl e) \<Rightarrow> end_server (Some e) (s\<lparr>br_requests := t\<rparr>)
                | (t, Inr request) \<Rightarrow>
                    (let s1 = s\<lparr>br_requests := t\<rparr>
                     in if request = Some (str ''tools/list'') then
                          (case filter_tools_list_response (be_json env) (be_policy env) (payload f) of
                             Inl e \<Rightarrow> end_server (Some (BrokerJsonRpc e)) s1
                           | Inr filtered \<Rightarrow>
                               (case audit_all env (fl_decisions filtered) of
                                  (es, Some e) \<Rightarrow> end_server (Some e) (append_log es s1)
                                | (es, None) \<Rightarrow>
                                    return_frame out f m request (encode_frame (fl_payload filtered) (frame_mode f)) (append_log es s1)))
                        else return_frame out f m request (raw f) s1))))"

subsection \<open>Runs\<close>

definition broker_start :: "FramingMode \<Rightarrow> FramingMode \<Rightarrow> nat \<Rightarrow> broker" where
  "broker_start client_framing server_framing max_bytes =
     \<lparr>br_requests = \<lparr>client_requests = (\<lambda>_. None), server_requests = (\<lambda>_. None)\<rparr>,
      br_client_decoder = FrameDecoder_new client_framing max_bytes, br_server_decoder = FrameDecoder_new server_framing max_bytes,
      br_client_frames = [], br_server_frames = [], br_client_end = None, br_server_end = None, br_log = []\<rparr>"

definition client_read :: "bytes \<Rightarrow> broker \<Rightarrow> broker" where
  "client_read chunk s =
     (if chunk = [] then
        s\<lparr>br_client_end := Some (case finish (br_client_decoder s) of Inl e \<Rightarrow> Inl (BrokerFrame e) | Inr u \<Rightarrow> Inr u)\<rparr>
      else case feed (br_client_decoder s) chunk of
          (d, Inl e) \<Rightarrow> end_client (Some (BrokerFrame e)) (s\<lparr>br_client_decoder := d\<rparr>)
        | (d, Inr frames) \<Rightarrow> s\<lparr>br_client_decoder := d, br_client_frames := frames\<rparr>)"

definition server_read :: "bytes \<Rightarrow> broker \<Rightarrow> broker" where
  "server_read chunk s =
     (if chunk = [] then
        s\<lparr>br_server_end := Some (case finish (br_server_decoder s) of Inl e \<Rightarrow> Inl (BrokerFrame e) | Inr u \<Rightarrow> Inr u)\<rparr>
      else case feed (br_server_decoder s) chunk of
          (d, Inl e) \<Rightarrow> end_server (Some (BrokerFrame e)) (s\<lparr>br_server_decoder := d\<rparr>)
        | (d, Inr frames) \<Rightarrow> s\<lparr>br_server_decoder := d, br_server_frames := frames\<rparr>)"

inductive broker_step :: "broker_env \<Rightarrow> broker \<Rightarrow> broker \<Rightarrow> bool" for env where
  step_client_read: "br_client_end s = None \<Longrightarrow> br_client_frames s = [] \<Longrightarrow> broker_step env s (client_read chunk s)"
| step_client_frame: "br_client_end s = None \<Longrightarrow> br_client_frames s = f # fs \<Longrightarrow>
    broker_step env s (client_frame env out f (s\<lparr>br_client_frames := fs\<rparr>))"
| step_client_abort: "br_client_end s = None \<Longrightarrow> broker_step env s (end_client (Some e) s)"
| step_server_read: "br_server_end s = None \<Longrightarrow> br_server_frames s = [] \<Longrightarrow> broker_step env s (server_read chunk s)"
| step_server_frame: "br_server_end s = None \<Longrightarrow> br_server_frames s = f # fs \<Longrightarrow>
    broker_step env s (server_frame env out f (s\<lparr>br_server_frames := fs\<rparr>))"
| step_server_abort: "br_server_end s = None \<Longrightarrow> broker_step env s (end_server (Some e) s)"

inductive_cases broker_stepE: "broker_step env s s'"

definition broker_reachable :: "broker_env \<Rightarrow> broker \<Rightarrow> bool" where
  "broker_reachable env s \<longleftrightarrow> (\<exists>cf sf n. (broker_step env)\<^sup>*\<^sup>* (broker_start cf sf n) s)"

subsection \<open>Standard error\<close>

datatype StderrPolicy = StderrInherit | StderrDiscard | StderrCapture nat

fun stderr_loop :: "nat \<Rightarrow> bytes \<Rightarrow> bytes list \<Rightarrow> bytes" where
  "stderr_loop maximum captured [] = captured"
| "stderr_loop maximum captured (chunk # chunks) =
     (if chunk = [] then captured
      else stderr_loop maximum (captured @ take (maximum - length captured) chunk) chunks)"

definition drain_stderr :: "StderrPolicy \<Rightarrow> bytes list \<Rightarrow> bytes" where
  "drain_stderr policy chunks =
     stderr_loop (case policy of StderrCapture max_bytes \<Rightarrow> max_bytes | _ \<Rightarrow> 0) [] chunks"

lemma stderr_loop_take:
  "[] \<notin> set chunks \<Longrightarrow> stderr_loop maximum (take maximum seen) chunks = take maximum (seen @ concat chunks)"
proof (induction chunks arbitrary: seen)
  case (Cons chunk chunks)
  have "take maximum (seen @ chunk) = take maximum seen @ take (maximum - length (take maximum seen)) chunk"
    by (cases "maximum \<le> length seen") (simp_all add: min_def)
  then have "stderr_loop maximum (take maximum seen) (chunk # chunks) = stderr_loop maximum (take maximum (seen @ chunk)) chunks"
    using Cons.prems by (cases "chunk = []") (simp_all only: stderr_loop.simps if_False refl, simp)
  then show ?case using Cons.IH [of "seen @ chunk"] Cons.prems by simp
qed simp

text \<open>What is captured is the beginning of what the server wrote, up to the limit.\<close>

lemma drain_stderr_take:
  "[] \<notin> set chunks \<Longrightarrow> drain_stderr (StderrCapture n) chunks = take n (concat chunks)"
  using stderr_loop_take [of chunks n "[]"] by (simp add: drain_stderr_def)

subsection \<open>What the log shows\<close>

definition all_events :: "('e list \<Rightarrow> 'e \<Rightarrow> bool) \<Rightarrow> 'e list \<Rightarrow> bool" where
  "all_events P log \<longleftrightarrow> (\<forall>i < length log. P (take i log) (log ! i))"

lemma all_events_Nil [simp]: "all_events P []"
  by (simp add: all_events_def)

lemma all_events_snoc [simp]: "all_events P (log @ [e]) \<longleftrightarrow> all_events P log \<and> P log e"
  by (auto simp: all_events_def nth_append less_Suc_eq)

lemma all_events_split: "all_events P log \<Longrightarrow> log = pre @ e # post \<Longrightarrow> P pre e"
  unfolding all_events_def by (drule spec [of _ "length pre"]) simp

lemma all_events_pair: "all_events P (log @ [a, b]) \<longleftrightarrow> all_events P log \<and> P log a \<and> P (log @ [a]) b"
  using all_events_snoc [of P "log @ [a]" b] by simp

lemma all_events_append:
  assumes "all_events P log" and "\<And>pre e. e \<in> set es \<Longrightarrow> P pre e"
  shows "all_events P (log @ es)"
  using assms(2)
proof (induction es rule: rev_induct)
  case (snoc e es)
  then show ?case using all_events_snoc [of P "log @ es" e] by simp
qed (use assms(1) in simp)

text \<open>A frame that is written to the server is permitted and was audited before.\<close>

fun forwarded_ok :: "broker_env \<Rightarrow> broker_event list \<Rightarrow> broker_event \<Rightarrow> bool" where
  "forwarded_ok env pre (Forwarded f m) \<longleftrightarrow>
     validate_message (be_json env) (payload f) = Inr m
     \<and> (\<exists>d. Audited d \<in> set pre \<and> be_audit env d \<and> ad_outcome d = Allowed
         \<and> (vm_method m = Some (str ''tools/call'') \<longrightarrow>
             (\<exists>tool. vm_subject m = Some tool \<and> tool_permitted (be_policy env) tool \<and> ad_tool d = Some (trim tool))))"
| "forwarded_ok env pre _ \<longleftrightarrow> True"

text \<open>The requests of the client that the log shows to be outstanding.\<close>

fun outstanding_step :: "(rstr \<rightharpoonup> rstr) \<Rightarrow> broker_event \<Rightarrow> (rstr \<rightharpoonup> rstr)" where
  "outstanding_step t (Forwarded f m) =
     (case (vm_kind m, vm_id m, vm_method m) of (Request, IdPresent i, Some meth) \<Rightarrow> t(i \<mapsto> meth) | _ \<Rightarrow> t)"
| "outstanding_step t (Returned f m request w) =
     (case (vm_kind m, vm_id m) of
        (Response, IdPresent i) \<Rightarrow> t(i := None)
      | (ErrorResponse, IdPresent i) \<Rightarrow> t(i := None)
      | _ \<Rightarrow> t)"
| "outstanding_step t _ = t"

definition outstanding :: "broker_event list \<Rightarrow> (rstr \<rightharpoonup> rstr)" where
  "outstanding log = foldl outstanding_step (\<lambda>_. None) log"

lemma outstanding_simps [simp]:
  "outstanding [] = (\<lambda>_. None)" "outstanding (log @ [e]) = outstanding_step (outstanding log) e"
  by (simp_all add: outstanding_def)

lemma outstanding_pair: "outstanding (log @ [Audited d, e]) = outstanding_step (outstanding log) e"
  by (simp add: outstanding_def)

lemma outstanding_audited: "outstanding (log @ map Audited ds) = outstanding log"
  unfolding outstanding_def by (induction ds arbitrary: log rule: rev_induct) simp_all

definition answered_with :: "broker_env \<Rightarrow> DecodedFrame \<Rightarrow> rstr \<Rightarrow> bytes \<Rightarrow> bool" where
  "answered_with env f meth w \<longleftrightarrow>
     (if meth = str ''tools/list''
      then \<exists>out. filter_tools_list_response (be_json env) (be_policy env) (payload f) = Inr out
             \<and> w = encode_frame (fl_payload out) (frame_mode f)
      else w = raw f)"

fun returned_ok :: "broker_env \<Rightarrow> broker_event list \<Rightarrow> broker_event \<Rightarrow> bool" where
  "returned_ok env pre (Returned f m request w) \<longleftrightarrow>
     validate_message (be_json env) (payload f) = Inr m
     \<and> (if vm_kind m = Response \<or> vm_kind m = ErrorResponse
        then \<exists>i meth. vm_id m = IdPresent i \<and> request = Some meth \<and> outstanding pre i = Some meth \<and> answered_with env f meth w
        else w = raw f)"
| "returned_ok env pre _ \<longleftrightarrow> True"

definition failed :: "(BrokerError + unit) option \<Rightarrow> bool" where
  "failed r \<longleftrightarrow> (\<exists>e. r = Some (Inl e))"

lemma failed_simps [simp]: "\<not> failed None" "\<not> failed (Some (Inr u))" "failed (Some (Inl e))"
  by (simp_all add: failed_def)

definition broker_inv :: "broker_env \<Rightarrow> broker \<Rightarrow> bool" where
  "broker_inv env s \<longleftrightarrow>
     all_events (forwarded_ok env) (br_log s)
     \<and> (\<not> failed (br_client_end s) \<longrightarrow> all_events (returned_ok env) (br_log s)
         \<and> (\<not> failed (br_server_end s) \<longrightarrow> client_requests (br_requests s) = outstanding (br_log s)))"

lemma audit_all_events: "\<exists>ds'. fst (audit_all env ds) = map Audited ds'"
proof (induction ds)
  case (Cons d ds)
  then obtain ds' where "fst (audit_all env ds) = map Audited ds'" by blast
  then have "fst (audit_all env (d # ds)) = map Audited (if be_audit env d then d # ds' else [])"
    by (cases "audit_all env ds") simp
  then show ?case by blast
qed simp

lemma track_client_Request:
  assumes "message_shape m" and "track_client_message m t = (t', None)"
  shows "client_requests t' = outstanding_step (client_requests t) (Forwarded f m)"
  using assms by (cases "vm_kind m"; cases "vm_id m"; cases "vm_method m")
    (auto simp: track_client_message_def insert_request_def message_shape_def split: if_splits)

lemma inv_end_client: "broker_inv env s \<Longrightarrow> broker_inv env (end_client (Some e) (s\<lparr>br_requests := t\<rparr>))"
  by (simp add: broker_inv_def end_client_def)

lemma inv_audited:
  assumes "broker_inv env s"
  shows "broker_inv env (append_log (map Audited ds) s)"
proof -
  have "all_events (forwarded_ok env) (br_log s @ map Audited ds)" if "all_events (forwarded_ok env) (br_log s)"
    by (rule all_events_append [OF that]) auto
  moreover have "all_events (returned_ok env) (br_log s @ map Audited ds)" if "all_events (returned_ok env) (br_log s)"
    by (rule all_events_append [OF that]) auto
  ultimately show ?thesis using assms by (simp add: broker_inv_def append_log_def outstanding_audited)
qed

lemma inv_forward:
  assumes inv: "broker_inv env s" and m: "validate_message (be_json env) (payload f) = Inr m"
    and d: "evaluate_message (be_json env) (be_policy env) m = Forward d" and a: "be_audit env d"
  shows "broker_inv env (forward_frame out f m d s)"
proof (cases "track_client_message m (br_requests s)")
  case (Pair t err)
  show ?thesis
  proof (cases err)
    case (Some e)
    then show ?thesis using Pair inv_end_client [OF inv_audited [OF inv, of "[d]"], of e t]
      by (simp add: forward_frame_def append_log_def broker_inv_def end_client_def)
  next
    case None
    have t: "client_requests t = outstanding_step (client_requests (br_requests s)) (Forwarded f m)"
      using track_client_Request validate_message_shape [OF m] Pair None by blast
    have "forwarded_ok env (br_log s @ [Audited d]) (Forwarded f m)"
      using evaluate_message_Forward [OF d] m a by auto
    then have "broker_inv env (append_log [Audited d, Forwarded f m] (s\<lparr>br_requests := t\<rparr>))"
      using inv t
      by (simp add: broker_inv_def append_log_def all_events_pair outstanding_pair del: outstanding_step.simps forwarded_ok.simps(1))
    then show ?thesis using Pair None
      by (cases out) (simp_all add: forward_frame_def end_client_def broker_inv_def append_log_def)
  qed
qed

lemma inv_client_frame:
  assumes "broker_inv env s"
  shows "broker_inv env (client_frame env out f s)"
proof -
  have stop: "broker_inv env (end_client (Some e) s)" for e
    using inv_end_client [OF assms, of e "br_requests s"] by simp
  have log: "broker_inv env (append_log [Audited d] s)" for d using inv_audited [OF assms, of "[d]"] by simp
  then have resp: "broker_inv env (append_log [Audited d, Responded w] s)" for d w
    by (simp add: broker_inv_def append_log_def all_events_pair outstanding_pair)
  have "broker_inv env (end_client err (append_log [Audited d] s))" for err d
    using log [of d] by (cases err) (simp_all add: broker_inv_def end_client_def append_log_def)
  with stop log resp inv_forward [OF assms] show ?thesis
    unfolding client_frame_def by (auto split: sum.splits option.splits PolicyAction.splits)
qed

lemma inv_end_server: "broker_inv env s \<Longrightarrow> broker_inv env (end_server (Some e) (s\<lparr>br_requests := t\<rparr>))"
  by (simp add: broker_inv_def end_server_def)

lemma track_server_answer:
  assumes "message_shape m" and "track_server_message m t = (t', Inr request)"
  shows "client_requests t' = outstanding_step (client_requests t) (Returned f m request w)
    \<and> (if vm_kind m = Response \<or> vm_kind m = ErrorResponse
       then \<exists>i meth. vm_id m = IdPresent i \<and> request = Some meth \<and> client_requests t i = Some meth
       else request = None)"
  using assms by (cases "vm_kind m"; cases "vm_id m")
    (auto simp: track_server_message_def message_shape_def dest: sym [of "Some _"] split: option.splits prod.splits)

lemma inv_return:
  assumes inv: "broker_inv env s" and run: "\<not> failed (br_server_end s)" and m: "validate_message (be_json env) (payload f) = Inr m"
    and t: "track_server_message m (br_requests s) = (t, Inr request)"
    and w: "if request = Some (str ''tools/list'')
      then \<exists>fl. filter_tools_list_response (be_json env) (be_policy env) (payload f) = Inr fl \<and> w = encode_frame (fl_payload fl) (frame_mode f)
      else w = raw f"
  shows "broker_inv env (return_frame out f m request w (append_log (map Audited ds) (s\<lparr>br_requests := t\<rparr>)))"
proof (cases out)
  case (Some e)
  have "broker_inv env (end_server (Some e) ((append_log (map Audited ds) s)\<lparr>br_requests := t\<rparr>))"
    by (intro inv_end_server inv_audited inv)
  with Some show ?thesis by (simp add: return_frame_def append_log_def broker_inv_def end_server_def)
next
  case None
  let ?log = "br_log s @ map Audited ds"
  note tr = track_server_answer [OF validate_message_shape [OF m] t, of f w]
  note base = inv_audited [OF inv, of ds, unfolded broker_inv_def append_log_def, simplified]
  have "returned_ok env ?log (Returned f m request w)" if c: "\<not> failed (br_client_end s)"
  proof -
    have "client_requests (br_requests s) = outstanding ?log" using base c run by blast
    with tr w m show ?thesis by (auto simp: answered_with_def simp del: str_simps split: if_splits)
  qed
  moreover have "forwarded_ok env ?log (Returned f m request w)" by simp
  ultimately show ?thesis
    using None base tr all_events_snoc [of "forwarded_ok env" ?log] all_events_snoc [of "returned_ok env" ?log]
      outstanding_simps(2) [of ?log "Returned f m request w"] run
    by (simp add: broker_inv_def return_frame_def append_log_def del: all_events_snoc outstanding_simps outstanding_step.simps returned_ok.simps)
qed

lemma inv_server_frame:
  assumes inv: "broker_inv env s" and run: "\<not> failed (br_server_end s)"
  shows "broker_inv env (server_frame env out f s)"
proof (cases "validate_message (be_json env) (payload f)")
  case (Inl e)
  with inv show ?thesis by (simp add: server_frame_def end_server_def broker_inv_def)
next
  case m: (Inr m)
  show ?thesis
  proof (cases "be_observe env FromServer (payload f)")
    case (Some e)
    with inv m show ?thesis by (simp add: server_frame_def end_server_def broker_inv_def)
  next
    case o: None
    obtain t r where t: "track_server_message m (br_requests s) = (t, r)" by fastforce
    show ?thesis
    proof (cases r)
      case (Inl e)
      with inv_end_server [OF inv, of e t] m o t show ?thesis by (simp add: server_frame_def)
    next
      case r: (Inr request)
      note ret = inv_return [OF inv run m t [unfolded r]]
      show ?thesis
      proof (cases "request = Some (str ''tools/list'')")
        case False
        with m o t r ret [of "raw f" out "[]"] show ?thesis
          by (simp add: server_frame_def append_log_def Let_def del: str_simps)
      next
        case list: True
        show ?thesis
        proof (cases "filter_tools_list_response (be_json env) (be_policy env) (payload f)")
          case (Inl e)
          with list m o t r inv_end_server [OF inv, of "BrokerJsonRpc e" t] show ?thesis
            by (simp add: server_frame_def del: str_simps)
        next
          case fl: (Inr fl)
          obtain es err where es: "audit_all env (fl_decisions fl) = (es, err)" by fastforce
          then obtain ds where ds: "es = map Audited ds" using audit_all_events [of env "fl_decisions fl"] by auto
          show ?thesis
          proof (cases err)
            case (Some e)
            have "broker_inv env (end_server (Some e) ((append_log es s)\<lparr>br_requests := t\<rparr>))"
              unfolding ds by (intro inv_end_server inv_audited inv)
            with Some es list fl m o t r show ?thesis
              by (simp add: server_frame_def end_server_def append_log_def broker_inv_def del: str_simps)
          next
            case None
            with es ds list fl m o t r ret [of "encode_frame (fl_payload fl) (frame_mode f)" out ds] show ?thesis
              by (simp add: server_frame_def del: str_simps)
          qed
        qed
      qed
    qed
  qed
qed

lemma inv_cong:
  "broker_inv env s \<Longrightarrow> br_log s' = br_log s \<Longrightarrow> client_requests (br_requests s') = client_requests (br_requests s)
   \<Longrightarrow> (failed (br_client_end s) \<Longrightarrow> failed (br_client_end s')) \<Longrightarrow> (failed (br_server_end s) \<Longrightarrow> failed (br_server_end s'))
   \<Longrightarrow> broker_inv env s'"
  by (auto simp: broker_inv_def)

lemma inv_step: "broker_step env s s' \<Longrightarrow> broker_inv env s \<Longrightarrow> broker_inv env s'"
proof (induction rule: broker_step.induct)
  case (step_client_read s chunk)
  show ?case by (rule inv_cong [OF step_client_read(3)])
    (use step_client_read(1) in \<open>auto simp: client_read_def end_client_def split: sum.splits prod.splits\<close>)
next
  case (step_client_frame s f fs out)
  then show ?case by (intro inv_client_frame) (rule inv_cong [OF step_client_frame(3)], simp_all)
next
  case (step_client_abort s e)
  show ?case by (rule inv_cong [OF step_client_abort(2)]) (simp_all add: end_client_def)
next
  case (step_server_read s chunk)
  show ?case by (rule inv_cong [OF step_server_read(3)])
    (use step_server_read(1) in \<open>auto simp: server_read_def end_server_def split: sum.splits prod.splits\<close>)
next
  case (step_server_frame s f fs out)
  then show ?case by (intro inv_server_frame) (rule inv_cong [OF step_server_frame(3)], simp_all)
next
  case (step_server_abort s e)
  show ?case by (rule inv_cong [OF step_server_abort(2)]) (simp_all add: end_server_def)
qed

lemma reachable_inv: "broker_reachable env s \<Longrightarrow> broker_inv env s"
proof -
  assume "broker_reachable env s"
  then obtain cf sf n where "(broker_step env)\<^sup>*\<^sup>* (broker_start cf sf n) s" by (auto simp: broker_reachable_def)
  then show ?thesis
  proof (induction rule: rtranclp_induct)
    case base
    show ?case by (simp add: broker_inv_def broker_start_def)
  qed (blast intro: inv_step)
qed

lemma outstanding_forwarded:
  "outstanding log i = Some meth \<Longrightarrow>
     \<exists>a g q c. log = a @ Forwarded g q # c \<and> vm_kind q = Request \<and> vm_id q = IdPresent i \<and> vm_method q = Some meth
       \<and> list_all (\<lambda>e. \<nexists>f m request w. e = Returned f m request w \<and> vm_id m = IdPresent i \<and> (vm_kind m = Response \<or> vm_kind m = ErrorResponse)) c"
proof (induction log rule: rev_induct)
  case (snoc e log)
  show ?case
  proof (cases "outstanding log i = Some meth \<and> (\<nexists>f m request w. e = Returned f m request w \<and> vm_id m = IdPresent i \<and> (vm_kind m = Response \<or> vm_kind m = ErrorResponse))")
    case True
    with snoc.IH obtain a g q c where "log = a @ Forwarded g q # c" "vm_kind q = Request" "vm_id q = IdPresent i" "vm_method q = Some meth"
      "list_all (\<lambda>e. \<nexists>f m request w. e = Returned f m request w \<and> vm_id m = IdPresent i \<and> (vm_kind m = Response \<or> vm_kind m = ErrorResponse)) c"
      by blast
    with True show ?thesis by (intro exI [of _ a] exI [of _ g] exI [of _ q] exI [of _ "c @ [e]"]) simp
  next
    case False
    with snoc.prems obtain g q where "e = Forwarded g q" "vm_kind q = Request" "vm_id q = IdPresent i" "vm_method q = Some meth"
      by (cases e) (auto split: MessageKind.splits IdPresence.splits option.splits if_splits prod.splits)
    then show ?thesis by (intro exI [of _ log] exI [of _ g] exI [of _ q] exI [of _ "[]"]) simp
  qed
qed simp

text \<open>
  C7: Whatever the agent and the server send, however their bytes are cut and however the two tasks interleave, every
  frame written to the server is a valid JSON-RPC message, and if it calls a tool then the policy permits the
  tool: the name is not blank, no deny pattern matches it (unless it contains a star) and an allow pattern
  does, or the default is to allow.  The decision was recorded in the audit log before the frame was written.
\<close>

theorem broker_forwards_permitted:
  assumes "broker_reachable env s" and "br_log s = pre @ Forwarded f m # post"
  shows "validate_message (be_json env) (payload f) = Inr m
    \<and> (\<exists>d. Audited d \<in> set pre \<and> ad_outcome d = Allowed
        \<and> (vm_method m = Some (str ''tools/call'') \<longrightarrow>
            (\<exists>tool. vm_subject m = Some tool \<and> tool_permitted (be_policy env) tool \<and> ad_tool d = Some (trim tool))))"
proof -
  from all_events_split [OF _ assms(2), of "forwarded_ok env"] reachable_inv [OF assms(1)]
  have "forwarded_ok env pre (Forwarded f m)" by (simp add: broker_inv_def)
  then show ?thesis by (simp del: str_simps) blast
qed


subsection \<open>Sample runs\<close>

text \<open>Four messages: a request for the list of tools, one with the same identifier, the list, and a call.\<close>

definition sample_document :: "rstr \<Rightarrow> Value option" where
  "sample_document doc =
     (if doc = [1] then Some (VObject [(str ''jsonrpc'', VString (str ''2.0'')), (str ''id'', VNumber (Integer 1)),
        (str ''method'', VString (str ''tools/list''))])
      else if doc = [2] then Some (VObject [(str ''jsonrpc'', VString (str ''2.0'')), (str ''id'', VNumber (Integer 1)),
        (str ''method'', VString (str ''ping''))])
      else if doc = [3] then Some (VObject [(str ''jsonrpc'', VString (str ''2.0'')), (str ''id'', VNumber (Integer 1)),
        (str ''result'', VObject [(str ''tools'', sample_list)])])
      else if doc = [4] then Some (VObject [(str ''jsonrpc'', VString (str ''2.0'')), (str ''id'', VNumber (Integer 1)),
        (str ''method'', VString (str ''tools/call'')), (str ''params'', VObject [(str ''name'', VString (str ''read_file''))])])
      else None)"

definition sample_env :: broker_env where
  "sample_env = \<lparr>be_json = sample_json\<lparr>json_document := sample_document\<rparr>, be_policy = sample_tools,
     be_observe = (\<lambda>_ _. None), be_audit = (\<lambda>_. True)\<rparr>"

definition sample_frame :: "u8 \<Rightarrow> DecodedFrame" where
  "sample_frame k = \<lparr>payload = [k], raw = [k, 10], frame_mode = Newline\<rparr>"

definition sample_message :: "MessageKind \<Rightarrow> rstr option \<Rightarrow> rstr option \<Rightarrow> ValidatedMessage" where
  "sample_message kind meth subject =
     \<lparr>vm_kind = kind, vm_method = meth, vm_id = IdPresent (str ''1''), vm_subject = subject, vm_error_code = None, vm_error_message = None\<rparr>"

lemma sample_messages:
  "validate_message (be_json sample_env) [1] = Inr (sample_message Request (Some (str ''tools/list'')) None)"
  "validate_message (be_json sample_env) [2] = Inr (sample_message Request (Some (str ''ping'')) None)"
  "validate_message (be_json sample_env) [3] = Inr (sample_message Response None None)"
  "validate_message (be_json sample_env) [4] = Inr (sample_message Request (Some (str ''tools/call'')) (Some (str ''read_file'')))"
  by code_simp+

lemma sample_call: "ad_outcome (evaluate_tool sample_tools (str ''read_file'')) = Allowed"
  by code_simp

lemma sample_message_decoded: "k \<noteq> 10 \<Longrightarrow> k \<noteq> 13 \<Longrightarrow>
    feed (FrameDecoder_new Newline 9) [k, 10] = (FrameDecoder_new Newline 9, Inr [sample_frame k])"
  by (simp add: FrameDecoder_new_def with_header_limit_def feed_def feed_active_def feed_newline.simps
    check_completed_newline_frame_def newline_payload_def sample_frame_def Let_def prepend_def before_newline_def)

lemma reachable_step: "broker_reachable env s \<Longrightarrow> broker_step env s s' \<Longrightarrow> broker_reachable env s'"
  unfolding broker_reachable_def by (blast intro: rtranclp.rtrancl_into_rtrancl)

text \<open>A state with an empty input on both sides, in which a frame arrives and is handled.\<close>

definition sample_state :: "(rstr \<rightharpoonup> rstr) \<Rightarrow> (BrokerError + unit) option \<Rightarrow> broker_event list \<Rightarrow> broker" where
  "sample_state table fin log =
     \<lparr>br_requests = \<lparr>client_requests = table, server_requests = (\<lambda>_. None)\<rparr>,
      br_client_decoder = FrameDecoder_new Newline 9, br_server_decoder = FrameDecoder_new Newline 9,
      br_client_frames = [], br_server_frames = [], br_client_end = fin, br_server_end = None, br_log = log\<rparr>"

lemma sample_client_step:
  assumes "broker_reachable sample_env (sample_state table None log)" and "k \<noteq> 10" "k \<noteq> 13"
  shows "broker_reachable sample_env (client_frame sample_env None (sample_frame k) (sample_state table None log))"
proof -
  have "broker_step sample_env (sample_state table None log) (client_read [k, 10] (sample_state table None log))"
    by (rule step_client_read) (simp_all add: sample_state_def)
  moreover have "client_read [k, 10] (sample_state table None log) = (sample_state table None log)\<lparr>br_client_frames := [sample_frame k]\<rparr>"
    using sample_message_decoded [OF assms(2,3)] by (simp add: client_read_def sample_state_def)
  ultimately have "broker_reachable sample_env ((sample_state table None log)\<lparr>br_client_frames := [sample_frame k]\<rparr>)"
    using reachable_step [OF assms(1)] by simp
  from reachable_step [OF this step_client_frame [where out = None]] show ?thesis by (simp add: sample_state_def)
qed

lemma sample_server_step:
  assumes "broker_reachable sample_env (sample_state table fin log)" and "k \<noteq> 10" "k \<noteq> 13"
  shows "broker_reachable sample_env (server_frame sample_env None (sample_frame k) (sample_state table fin log))"
proof -
  have "broker_step sample_env (sample_state table fin log) (server_read [k, 10] (sample_state table fin log))"
    by (rule step_server_read) (simp_all add: sample_state_def)
  moreover have "server_read [k, 10] (sample_state table fin log) = (sample_state table fin log)\<lparr>br_server_frames := [sample_frame k]\<rparr>"
    using sample_message_decoded [OF assms(2,3)] by (simp add: server_read_def sample_state_def)
  ultimately have "broker_reachable sample_env ((sample_state table fin log)\<lparr>br_server_frames := [sample_frame k]\<rparr>)"
    using reachable_step [OF assms(1)] by simp
  from reachable_step [OF this step_server_frame [where out = None]] show ?thesis by (simp add: sample_state_def)
qed

lemma sample_started: "broker_reachable sample_env (sample_state (\<lambda>_. None) None [])"
  unfolding broker_reachable_def
  by (intro exI [of _ Newline] exI [of _ 9]) (simp add: broker_start_def sample_state_def)

lemma sample_env_fields:
  "be_observe sample_env dir bs = None" "be_audit sample_env d" "be_policy sample_env = sample_tools"
  by (simp_all add: sample_env_def)

lemma sample_evaluated:
  "evaluate_message ops sample_tools (sample_message Request (Some (str ''tools/call'')) (Some (str ''read_file''))) =
     Forward (evaluate_tool sample_tools (str ''read_file''))"
  by (simp add: evaluate_message_def sample_message_def sample_call del: str_simps)

lemma sample_log:
  "br_log (client_frame sample_env None (sample_frame 4) (sample_state (\<lambda>_. None) None [])) =
     [Audited (evaluate_tool sample_tools (str ''read_file'')),
      Forwarded (sample_frame 4) (sample_message Request (Some (str ''tools/call'')) (Some (str ''read_file'')))]"
  by (simp add: client_frame_def sample_frame_def sample_messages sample_env_fields sample_evaluated del: str_simps)
    (simp add: forward_frame_def track_client_message_def insert_request_def sample_message_def sample_state_def
      end_client_def append_log_def del: str_simps)

lemma sample_other:
  "meth \<noteq> str ''tools/call'' \<Longrightarrow> evaluate_message ops sample_tools (sample_message Request (Some meth) None) =
     Forward (tool_decision sample_tools meth None Allowed None None)"
  by (simp add: evaluate_message_def sample_message_def del: str_simps)

lemma sample_listing:
  "client_frame sample_env None (sample_frame 1) (sample_state (\<lambda>_. None) None []) =
     sample_state [str ''1'' \<mapsto> str ''tools/list''] None
       [Audited (tool_decision sample_tools (str ''tools/list'') None Allowed None None),
        Forwarded (sample_frame 1) (sample_message Request (Some (str ''tools/list'')) None)]"
proof -
  have "str ''tools/list'' \<noteq> str ''tools/call''" by simp
  note eval = sample_other [OF this]
  show ?thesis
    by (simp add: client_frame_def sample_frame_def sample_messages sample_env_fields eval del: str_simps)
      (simp add: forward_frame_def track_client_message_def insert_request_def sample_message_def sample_state_def
        end_client_def append_log_def del: str_simps)
qed

lemma sample_duplicate:
  "\<exists>e d. client_frame sample_env None (sample_frame 2) (sample_state [str ''1'' \<mapsto> str ''tools/list''] None log) =
     sample_state [str ''1'' \<mapsto> str ''ping''] (Some (Inl e)) (log @ [Audited d])"
proof -
  have "str ''ping'' \<noteq> str ''tools/call''" by simp
  note eval = sample_other [OF this]
  show ?thesis
    by (simp add: client_frame_def sample_frame_def sample_messages sample_env_fields eval del: str_simps)
      (simp add: forward_frame_def track_client_message_def insert_request_def sample_message_def sample_state_def
        end_client_def append_log_def del: str_simps)
qed

theorem broker_forwards_permitted_witness:
  "\<exists>s f m tool. broker_reachable sample_env s \<and> Forwarded f m \<in> set (br_log s) \<and> vm_method m = Some (str ''tools/call'')
     \<and> vm_subject m = Some tool \<and> tool_permitted sample_tools tool"
proof -
  let ?s = "client_frame sample_env None (sample_frame 4) (sample_state (\<lambda>_. None) None [])"
  have r: "broker_reachable sample_env ?s" by (rule sample_client_step [OF sample_started]) simp_all
  let ?m = "sample_message Request (Some (str ''tools/call'')) (Some (str ''read_file''))"
  have "br_log ?s = [Audited (evaluate_tool sample_tools (str ''read_file''))] @ Forwarded (sample_frame 4) ?m # []"
    using sample_log by simp
  from broker_forwards_permitted [OF r this] have "tool_permitted sample_tools (str ''read_file'')"
    by (simp add: sample_message_def sample_env_fields del: str_simps)
  moreover have "Forwarded (sample_frame 4) ?m \<in> set (br_log ?s)" using sample_log by simp
  moreover have "vm_method ?m = Some (str ''tools/call'')" "vm_subject ?m = Some (str ''read_file'')" by (simp_all add: sample_message_def)
  ultimately show ?thesis using r by blast
qed

lemma sample_answer:
  "\<exists>fl. filter_tools_list_response (be_json sample_env) sample_tools [3] = Inr fl \<and> fl_payload fl = [7]"
proof -
  have "map_sum (\<lambda>_. ()) fl_payload (filter_tools_list_response (be_json sample_env) sample_tools [3]) = Inr [7]" by code_simp
  then show ?thesis by (cases "filter_tools_list_response (be_json sample_env) sample_tools [3]") auto
qed

lemma sample_audit_all: "audit_all sample_env ds = (map Audited ds, None)"
  by (induction ds) (simp_all add: sample_env_def)

text \<open>The table says which request a response answers, and so whether it is filtered.\<close>

lemma sample_server_log:
  "client_requests (br_requests (sample_state table fin log)) (str ''1'') = Some meth \<Longrightarrow> meth \<noteq> str ''tools/list'' \<Longrightarrow>
     br_log (server_frame sample_env None (sample_frame 3) (sample_state table fin log)) =
       log @ [Returned (sample_frame 3) (sample_message Response None None) (Some meth) [3, 10]]"
  "client_requests (br_requests (sample_state table fin log)) (str ''1'') = Some (str ''tools/list'') \<Longrightarrow>
     \<exists>ds. br_log (server_frame sample_env None (sample_frame 3) (sample_state table fin log)) =
       log @ map Audited ds @ [Returned (sample_frame 3) (sample_message Response None None) (Some (str ''tools/list'')) [7, 10]]
     \<and> br_client_end (server_frame sample_env None (sample_frame 3) (sample_state table fin log)) = fin"
proof -
  have t: "track_server_message (sample_message Response None None) (br_requests (sample_state table fin log)) =
      (\<lparr>client_requests = table(str ''1'' := None), server_requests = (\<lambda>_. None)\<rparr>, Inr (Some meth))" if "table (str ''1'') = Some meth" for meth
    using that by (simp add: track_server_message_def sample_message_def sample_state_def del: str_simps)
  show "br_log (server_frame sample_env None (sample_frame 3) (sample_state table fin log)) =
       log @ [Returned (sample_frame 3) (sample_message Response None None) (Some meth) [3, 10]]"
    if "client_requests (br_requests (sample_state table fin log)) (str ''1'') = Some meth" "meth \<noteq> str ''tools/list''"
    using that t [of meth]
    by (simp add: server_frame_def sample_frame_def sample_messages sample_env_fields return_frame_def append_log_def sample_state_def Let_def
      del: str_simps)
  obtain fl where fl: "filter_tools_list_response (be_json sample_env) sample_tools [3] = Inr fl" "fl_payload fl = [7]"
    using sample_answer by blast
  show "\<exists>ds. br_log (server_frame sample_env None (sample_frame 3) (sample_state table fin log)) =
       log @ map Audited ds @ [Returned (sample_frame 3) (sample_message Response None None) (Some (str ''tools/list'')) [7, 10]]
     \<and> br_client_end (server_frame sample_env None (sample_frame 3) (sample_state table fin log)) = fin"
    if "client_requests (br_requests (sample_state table fin log)) (str ''1'') = Some (str ''tools/list'')"
    using that t [of "str ''tools/list''"] fl
    by (intro exI [of _ "fl_decisions fl"])
      (simp add: server_frame_def sample_frame_def sample_messages sample_env_fields return_frame_def append_log_def sample_state_def
        sample_audit_all encode_frame_def Let_def del: str_simps)
qed

definition sample_request_log :: "broker_event list" where
  "sample_request_log = [Audited (tool_decision sample_tools (str ''tools/list'') None Allowed None None),
     Forwarded (sample_frame 1) (sample_message Request (Some (str ''tools/list'')) None)]"

lemma sample_requested: "broker_reachable sample_env (sample_state [str ''1'' \<mapsto> str ''tools/list''] None sample_request_log)"
  using sample_client_step [OF sample_started, of 1] unfolding sample_listing sample_request_log_def by simp



end
