(* ===== verification/Security_Audit.thy ===== *)
theory Security_Audit
  imports Hex
begin

section \<open>The audit log (crates/sendbox-security/src/audit.rs)\<close>

text \<open>
  The hash-chained log of a session: appending, verification, the persisted form, Merkle roots and inclusion
  proofs, and the verifier of the older Swift format.  SHA-256 is the parameter \<open>sha\<close>; \<^verbatim>\<open>serde_json\<close> on the
  types of the log is the record \<open>audit_json\<close>, and the locale \<open>audit_json_laws\<close> states what the log relies on:
  values are read back from what was written, writing succeeds, and compact output is one line.  A
  \<^verbatim>\<open>BTreeMap\<close> is the list of its entries in the order of its keys.
\<close>

datatype SecurityError =
    Io string rstr rstr
  | Cleanup string rstr rstr rstr
  | InvalidPath rstr
  | UnsupportedFileType rstr
  | OwnerMismatch rstr u32 u32
  | SizeLimit rstr nat
  | UnsupportedVersion string u16
  | Malformed string rstr
  | Integrity rstr
  | PolicyFailed rstr
  | UnsupportedPlatform

definition AUDIT_FORMAT_VERSION :: u16 where "AUDIT_FORMAT_VERSION = 1"
definition DEFAULT_MAX_EVENTS :: nat where "DEFAULT_MAX_EVENTS = 1000000"
definition MAX_METADATA_ENTRIES :: nat where "MAX_METADATA_ENTRIES = 64"
definition MAX_METADATA_KEY_BYTES :: nat where "MAX_METADATA_KEY_BYTES = 128"
definition MAX_METADATA_VALUE_BYTES :: nat where "MAX_METADATA_VALUE_BYTES = 4 * 1024"
definition MAX_METADATA_TOTAL_BYTES :: nat where "MAX_METADATA_TOTAL_BYTES = 32 * 1024"
definition AUDIT_FORMAT :: string where "AUDIT_FORMAT = ''sendbox-audit''"
definition CHAIN_DOMAIN :: bytes where "CHAIN_DOMAIN = as_bytes (str ''sendbox-audit-chain-v1'' @ [0])"
definition LEGACY_AUDIT_GENESIS :: rstr where "LEGACY_AUDIT_GENESIS = str ''sendbox-genesis-v1''"

datatype AuditCategory =
  CategoryCommand | CategoryFileAccess | CategoryNetwork | CategoryPermission | CategorySecret
  | CategoryLifecycle | CategoryPolicy | CategoryMcp | CategoryProvenance | CategorySnapshot

datatype AuditResult = ResultAllowed | ResultDenied | ResultError | ResultSuccess

type_synonym metadata = "(rstr \<times> rstr) list"

record AuditEvent =
  ev_version :: u16
  ev_sequence :: u64
  ev_session_id :: rstr
  ev_timestamp_unix_nanos :: u64
  ev_category :: AuditCategory
  ev_action :: rstr
  ev_subject :: rstr
  ev_result :: AuditResult
  ev_metadata :: metadata

record AuditRecord =
  ar_event :: AuditEvent
  ar_previous_hash :: rstr
  ar_hash :: rstr

record AuditHeader =
  ah_format :: rstr
  ah_version :: u16

record AuditLog =
  al_session_id :: rstr
  al_records :: "AuditRecord list"

record AuditQuery =
  aq_category :: "AuditCategory option"
  aq_result :: "AuditResult option"
  aq_from_unix_nanos :: "u64 option"
  aq_to_unix_nanos :: "u64 option"
  aq_action :: "rstr option"

record MerkleProofNode =
  mn_hash :: rstr
  mn_sibling_is_left :: bool

record MerkleProof =
  mp_leaf_index :: nat
  mp_leaf_hash :: rstr
  mp_nodes :: "MerkleProofNode list"
  mp_root_hash :: rstr

record audit_json =
  event_to_vec :: "AuditEvent \<Rightarrow> rstr + bytes"
  record_to_vec :: "AuditRecord \<Rightarrow> rstr + bytes"
  header_to_vec :: "AuditHeader \<Rightarrow> rstr + bytes"
  events_to_vec :: "AuditEvent list \<Rightarrow> rstr + bytes"
  record_from_slice :: "bytes \<Rightarrow> rstr + AuditRecord"
  header_from_slice :: "bytes \<Rightarrow> rstr + AuditHeader"

subsection \<open>Hashes and canonical documents\<close>

definition encode_hash :: "bytes \<Rightarrow> rstr" where
  "encode_hash hash = concat (map hex_byte hash)"

definition decode_hash :: "rstr \<Rightarrow> SecurityError + bytes" where
  "decode_hash value =
     (if rlen value \<noteq> 64 \<or> \<not> list_all is_ascii_hexdigit value
      then Inl (Malformed ''sha256'' (str ''expected 64 hexadecimal characters''))
      else Inr (unhex value))"

text \<open>\<^verbatim>\<open>canonical::encode\<close> and \<^verbatim>\<open>canonical::decode_canonical\<close> of canonical.rs.\<close>

definition canonical_encode :: "('a \<Rightarrow> rstr + bytes) \<Rightarrow> 'a \<Rightarrow> string \<Rightarrow> SecurityError + bytes" where
  "canonical_encode to_vec value format =
     (case to_vec value of Inl detail \<Rightarrow> Inl (Malformed format detail) | Inr bytes \<Rightarrow> Inr bytes)"

definition decode_canonical ::
    "(bytes \<Rightarrow> rstr + 'a) \<Rightarrow> ('a \<Rightarrow> rstr + bytes) \<Rightarrow> bytes \<Rightarrow> string \<Rightarrow> SecurityError + 'a" where
  "decode_canonical from_slice to_vec bytes format =
     (case from_slice bytes of
        Inl detail \<Rightarrow> Inl (Malformed format detail)
      | Inr value \<Rightarrow>
          (case canonical_encode to_vec value format of
             Inl e \<Rightarrow> Inl e
           | Inr again \<Rightarrow>
               if again \<noteq> bytes then Inl (Malformed format (str ''non-canonical encoding'')) else Inr value))"

definition genesis_hash :: "(bytes \<Rightarrow> bytes) \<Rightarrow> rstr" where
  "genesis_hash sha = encode_hash (sha (as_bytes (str ''sendbox-audit-genesis-v1'')))"

definition chain_hash :: "(bytes \<Rightarrow> bytes) \<Rightarrow> audit_json \<Rightarrow> rstr \<Rightarrow> AuditEvent \<Rightarrow> SecurityError + rstr" where
  "chain_hash sha json previous_hash event =
     (case decode_hash previous_hash of
        Inl e \<Rightarrow> Inl e
      | Inr previous \<Rightarrow>
          (case canonical_encode (event_to_vec json) event AUDIT_FORMAT of
             Inl e \<Rightarrow> Inl e
           | Inr encoded \<Rightarrow> Inr (encode_hash (sha (CHAIN_DOMAIN @ previous @ encoded)))))"

subsection \<open>Validation\<close>

definition validate_text :: "string \<Rightarrow> rstr \<Rightarrow> nat \<Rightarrow> SecurityError + unit" where
  "validate_text label value max_bytes =
     (if value = [] \<or> rlen value > max_bytes \<or> 0 \<in> set value
      then Inl (Malformed AUDIT_FORMAT (str label @ str '' is empty, oversized, or contains NUL''))
      else Inr ())"

fun metadata_total :: "nat \<Rightarrow> metadata \<Rightarrow> SecurityError + nat" where
  "metadata_total tally [] = Inr tally"
| "metadata_total tally ((key, value) # rest) =
     (case validate_text ''metadata key'' key MAX_METADATA_KEY_BYTES of
        Inl e \<Rightarrow> Inl e
      | Inr _ \<Rightarrow>
          (case validate_text ''metadata value'' value MAX_METADATA_VALUE_BYTES of
             Inl e \<Rightarrow> Inl e
           | Inr _ \<Rightarrow> metadata_total (tally + (rlen key + rlen value)) rest))"

definition validate_metadata :: "metadata \<Rightarrow> SecurityError + unit" where
  "validate_metadata m =
     (if length m > MAX_METADATA_ENTRIES
      then Inl (Malformed AUDIT_FORMAT (str ''metadata entry count exceeds limit''))
      else case metadata_total 0 m of
          Inl e \<Rightarrow> Inl e
        | Inr tally \<Rightarrow>
            if tally > MAX_METADATA_TOTAL_BYTES
            then Inl (Malformed AUDIT_FORMAT (str ''metadata total size exceeds limit'')) else Inr ())"

text \<open>The three checks of the contents of an event, in the order of \<^verbatim>\<open>append\<close> and \<^verbatim>\<open>verify\<close>.\<close>

definition validate_contents :: "metadata \<Rightarrow> rstr \<Rightarrow> rstr \<Rightarrow> SecurityError + unit" where
  "validate_contents m action subject =
     (case validate_metadata m of
        Inl e \<Rightarrow> Inl e
      | Inr _ \<Rightarrow>
          (case validate_text ''action'' action 512 of
             Inl e \<Rightarrow> Inl e
           | Inr _ \<Rightarrow> validate_text ''subject'' subject 4096))"

subsection \<open>Appending and verifying\<close>

definition AuditLog_new :: "rstr \<Rightarrow> SecurityError + AuditLog" where
  "AuditLog_new session_id =
     (case validate_text ''session id'' session_id 256 of
        Inl e \<Rightarrow> Inl e
      | Inr _ \<Rightarrow> Inr \<lparr>al_session_id = session_id, al_records = []\<rparr>)"

definition head_hash :: "(bytes \<Rightarrow> bytes) \<Rightarrow> AuditRecord list \<Rightarrow> rstr" where
  "head_hash sha records = (if records = [] then genesis_hash sha else ar_hash (last records))"

definition AuditLog_append ::
    "(bytes \<Rightarrow> bytes) \<Rightarrow> audit_json \<Rightarrow> AuditLog \<Rightarrow> u64 \<Rightarrow> AuditCategory \<Rightarrow> rstr \<Rightarrow> rstr \<Rightarrow> AuditResult \<Rightarrow> metadata
     \<Rightarrow> SecurityError + AuditLog \<times> AuditRecord" where
  "AuditLog_append sha json log timestamp category action subject outcome m =
     (case validate_contents m action subject of
        Inl e \<Rightarrow> Inl e
      | Inr _ \<Rightarrow>
          if 2 ^ 64 \<le> length (al_records log)
          then Inl (Malformed AUDIT_FORMAT (str ''out of range integral type conversion attempted''))
          else
            (let event = \<lparr>ev_version = AUDIT_FORMAT_VERSION, ev_sequence = of_nat (length (al_records log)),
                          ev_session_id = al_session_id log, ev_timestamp_unix_nanos = timestamp,
                          ev_category = category, ev_action = action, ev_subject = subject,
                          ev_result = outcome, ev_metadata = m\<rparr>;
                 previous_hash = head_hash sha (al_records log)
             in (case chain_hash sha json previous_hash event of
                   Inl e \<Rightarrow> Inl e
                 | Inr hash \<Rightarrow>
                     (let record = \<lparr>ar_event = event, ar_previous_hash = previous_hash, ar_hash = hash\<rparr>
                      in Inr (log\<lparr>al_records := al_records log @ [record]\<rparr>, record)))))"

definition verify_record ::
    "(bytes \<Rightarrow> bytes) \<Rightarrow> audit_json \<Rightarrow> rstr \<Rightarrow> nat \<Rightarrow> rstr \<Rightarrow> AuditRecord \<Rightarrow> SecurityError + unit" where
  "verify_record sha json session_id index previous record =
     (let event = ar_event record
      in if ev_version event \<noteq> AUDIT_FORMAT_VERSION then Inl (UnsupportedVersion AUDIT_FORMAT (ev_version event))
         else if ev_session_id event \<noteq> session_id
         then Inl (Integrity (str ''audit session mismatch at record '' @ show_nat index))
         else if ev_sequence event \<noteq> of_nat index
         then Inl (Integrity (str ''audit sequence mismatch at record '' @ show_nat index))
         else case validate_contents (ev_metadata event) (ev_action event) (ev_subject event) of
             Inl e \<Rightarrow> Inl e
           | Inr _ \<Rightarrow>
               if ar_previous_hash record \<noteq> previous
               then Inl (Integrity (str ''audit chain reordered or truncated before record '' @ show_nat index))
               else case chain_hash sha json previous event of
                   Inl e \<Rightarrow> Inl e
                 | Inr expected \<Rightarrow>
                     if ar_hash record \<noteq> expected
                     then Inl (Integrity (str ''audit record '' @ show_nat index @ str '' hash mismatch''))
                     else Inr ())"

fun verify_from ::
    "(bytes \<Rightarrow> bytes) \<Rightarrow> audit_json \<Rightarrow> rstr \<Rightarrow> nat \<Rightarrow> rstr \<Rightarrow> AuditRecord list \<Rightarrow> SecurityError + unit" where
  "verify_from sha json session_id index previous [] = Inr ()"
| "verify_from sha json session_id index previous (record # rest) =
     (case verify_record sha json session_id index previous record of
        Inl e \<Rightarrow> Inl e
      | Inr _ \<Rightarrow> verify_from sha json session_id (Suc index) (ar_hash record) rest)"

definition AuditLog_verify :: "(bytes \<Rightarrow> bytes) \<Rightarrow> audit_json \<Rightarrow> AuditLog \<Rightarrow> SecurityError + unit" where
  "AuditLog_verify sha json log =
     (if length (al_records log) > DEFAULT_MAX_EVENTS
      then Inl (Malformed AUDIT_FORMAT (str ''event count exceeds limit''))
      else verify_from sha json (al_session_id log) 0 (genesis_hash sha) (al_records log))"

subsection \<open>Queries and the persisted form\<close>

definition query_matches :: "AuditQuery \<Rightarrow> AuditRecord \<Rightarrow> bool" where
  "query_matches query record \<longleftrightarrow>
     (let event = ar_event record
      in pred_option (\<lambda>v. ev_category event = v) (aq_category query)
       \<and> pred_option (\<lambda>v. ev_result event = v) (aq_result query)
       \<and> pred_option (\<lambda>v. v \<le> ev_timestamp_unix_nanos event) (aq_from_unix_nanos query)
       \<and> pred_option (\<lambda>v. ev_timestamp_unix_nanos event \<le> v) (aq_to_unix_nanos query)
       \<and> pred_option (\<lambda>v. ev_action event = v) (aq_action query))"

definition AuditLog_query :: "AuditLog \<Rightarrow> AuditQuery \<Rightarrow> AuditRecord list" where
  "AuditLog_query log query = filter (query_matches query) (al_records log)"

definition AuditLog_export ::
    "(bytes \<Rightarrow> bytes) \<Rightarrow> audit_json \<Rightarrow> (AuditEvent \<Rightarrow> AuditEvent) \<Rightarrow> AuditLog \<Rightarrow> SecurityError + bytes" where
  "AuditLog_export sha json redact log =
     (case AuditLog_verify sha json log of
        Inl e \<Rightarrow> Inl e
      | Inr _ \<Rightarrow> canonical_encode (events_to_vec json) (map (redact \<circ> ar_event) (al_records log)) ''audit export'')"

definition audit_header :: AuditHeader where
  "audit_header = \<lparr>ah_format = str AUDIT_FORMAT, ah_version = AUDIT_FORMAT_VERSION\<rparr>"

definition AuditLog_encode :: "(bytes \<Rightarrow> bytes) \<Rightarrow> audit_json \<Rightarrow> AuditLog \<Rightarrow> SecurityError + bytes" where
  "AuditLog_encode sha json log =
     (case AuditLog_verify sha json log of
        Inl e \<Rightarrow> Inl e
      | Inr _ \<Rightarrow>
          (case canonical_encode (header_to_vec json) audit_header AUDIT_FORMAT of
             Inl e \<Rightarrow> Inl e
           | Inr header \<Rightarrow>
               (case try_map (\<lambda>record. canonical_encode (record_to_vec json) record AUDIT_FORMAT) (al_records log) of
                  Inl e \<Rightarrow> Inl e
                | Inr lines \<Rightarrow> Inr (concat (map (\<lambda>line. line @ [10]) (header # lines))))))"

text \<open>\<^verbatim>\<open>slice::split\<close> at line feeds.\<close>

fun split_lines :: "bytes \<Rightarrow> bytes list" where
  "split_lines [] = [[]]"
| "split_lines (b # bs) =
     (if b = 10 then [] # split_lines bs
      else (case split_lines bs of [] \<Rightarrow> [[b]] | line # rest \<Rightarrow> (b # line) # rest))"

fun decode_records :: "audit_json \<Rightarrow> nat \<Rightarrow> nat \<Rightarrow> bytes list \<Rightarrow> SecurityError + AuditRecord list" where
  "decode_records json max_events n [] = Inr []"
| "decode_records json max_events n (line # rest) =
     (if line = [] then decode_records json max_events n rest
      else if n \<ge> max_events then Inl (Malformed AUDIT_FORMAT (str ''event count exceeds limit''))
      else case decode_canonical (record_from_slice json) (record_to_vec json) line AUDIT_FORMAT of
          Inl e \<Rightarrow> Inl e
        | Inr record \<Rightarrow>
            (case decode_records json max_events (Suc n) rest of
               Inl e \<Rightarrow> Inl e
             | Inr records \<Rightarrow> Inr (record # records)))"

definition AuditLog_decode :: "(bytes \<Rightarrow> bytes) \<Rightarrow> audit_json \<Rightarrow> bytes \<Rightarrow> nat \<Rightarrow> SecurityError + AuditLog" where
  "AuditLog_decode sha json bytes max_events =
     (if bytes = [] \<or> last bytes \<noteq> 10 then Inl (Integrity (str ''audit log is empty or truncated''))
      else
        (let lines = split_lines bytes
         in case decode_canonical (header_from_slice json) (header_to_vec json) (hd lines) AUDIT_FORMAT of
              Inl e \<Rightarrow> Inl e
            | Inr header \<Rightarrow>
                if ah_format header \<noteq> str AUDIT_FORMAT \<or> ah_version header \<noteq> AUDIT_FORMAT_VERSION
                then Inl (UnsupportedVersion AUDIT_FORMAT (ah_version header))
                else case decode_records json max_events 0 (tl lines) of
                    Inl e \<Rightarrow> Inl e
                  | Inr [] \<Rightarrow> Inl (Malformed AUDIT_FORMAT (str ''audit log has no records''))
                  | Inr (record # records) \<Rightarrow>
                      (let log = \<lparr>al_session_id = ev_session_id (ar_event record), al_records = record # records\<rparr>
                       in case AuditLog_verify sha json log of Inl e \<Rightarrow> Inl e | Inr _ \<Rightarrow> Inr log)))"

subsection \<open>Merkle roots and proofs\<close>

definition merkle_leaf :: "(bytes \<Rightarrow> bytes) \<Rightarrow> bytes \<Rightarrow> bytes" where
  "merkle_leaf sha hash = sha (0 # hash)"

definition merkle_node :: "(bytes \<Rightarrow> bytes) \<Rightarrow> bytes \<Rightarrow> bytes \<Rightarrow> bytes" where
  "merkle_node sha left right = sha (1 # left @ right)"

fun next_merkle_level :: "(bytes \<Rightarrow> bytes) \<Rightarrow> bytes list \<Rightarrow> bytes list" where
  "next_merkle_level sha (a # b # rest) = merkle_node sha a b # next_merkle_level sha rest"
| "next_merkle_level sha level = level"

lemma length_next_merkle_level [simp]: "length (next_merkle_level sha level) = (length level + 1) div 2"
  by (induction sha level rule: next_merkle_level.induct) auto

function merkle_reduce :: "(bytes \<Rightarrow> bytes) \<Rightarrow> bytes list \<Rightarrow> bytes" where
  "merkle_reduce sha level =
     (if length level > 1 then merkle_reduce sha (next_merkle_level sha level) else hd level)"
  by pat_completeness auto
termination
  by (relation "measure (\<lambda>(_, level). length level)") auto

definition merkle_root :: "(bytes \<Rightarrow> bytes) \<Rightarrow> rstr list \<Rightarrow> rstr" where
  "merkle_root sha hashes =
     (let level = List.map_filter
        (\<lambda>h. case decode_hash h of Inl _ \<Rightarrow> None | Inr hash \<Rightarrow> Some (merkle_leaf sha hash)) hashes
      in if level = [] then encode_hash (sha (as_bytes (str ''sendbox-audit-empty-merkle-v1'')))
         else encode_hash (merkle_reduce sha level))"

definition AuditLog_merkle_root :: "(bytes \<Rightarrow> bytes) \<Rightarrow> AuditLog \<Rightarrow> rstr" where
  "AuditLog_merkle_root sha log = merkle_root sha (map ar_hash (al_records log))"

definition proof_sibling :: "bytes list \<Rightarrow> nat \<Rightarrow> MerkleProofNode list" where
  "proof_sibling level cursor =
     (if cursor mod 2 = 1
      then [\<lparr>mn_hash = encode_hash (level ! (cursor - 1)), mn_sibling_is_left = True\<rparr>]
      else if cursor + 1 < length level
      then [\<lparr>mn_hash = encode_hash (level ! (cursor + 1)), mn_sibling_is_left = False\<rparr>]
      else [])"

function proof_loop :: "(bytes \<Rightarrow> bytes) \<Rightarrow> bytes list \<Rightarrow> nat \<Rightarrow> MerkleProofNode list \<times> bytes" where
  "proof_loop sha level cursor =
     (if length level > 1
      then (let (nodes, peak) = proof_loop sha (next_merkle_level sha level) (cursor div 2)
            in (proof_sibling level cursor @ nodes, peak))
      else ([], hd level))"
  by pat_completeness auto
termination
  by (relation "measure (\<lambda>(_, level, _). length level)") auto

declare merkle_reduce.simps [simp del] proof_loop.simps [simp del]

definition AuditLog_merkle_proof :: "(bytes \<Rightarrow> bytes) \<Rightarrow> AuditLog \<Rightarrow> nat \<Rightarrow> MerkleProof option" where
  "AuditLog_merkle_proof sha log index =
     (if index \<ge> length (al_records log) then None
      else case those (map (\<lambda>record. case decode_hash (ar_hash record) of
                  Inl _ \<Rightarrow> None | Inr hash \<Rightarrow> Some (merkle_leaf sha hash)) (al_records log)) of
          None \<Rightarrow> None
        | Some level \<Rightarrow>
            (let (nodes, peak) = proof_loop sha level index
             in Some \<lparr>mp_leaf_index = index, mp_leaf_hash = ar_hash (al_records log ! index), mp_nodes = nodes,
                      mp_root_hash = encode_hash peak\<rparr>))"

fun climb :: "(bytes \<Rightarrow> bytes) \<Rightarrow> bytes \<Rightarrow> MerkleProofNode list \<Rightarrow> bytes option" where
  "climb sha current [] = Some current"
| "climb sha current (node # nodes) =
     (case decode_hash (mn_hash node) of
        Inl _ \<Rightarrow> None
      | Inr sibling \<Rightarrow>
          climb sha (if mn_sibling_is_left node then merkle_node sha sibling current
                     else merkle_node sha current sibling) nodes)"

definition MerkleProof_verify :: "(bytes \<Rightarrow> bytes) \<Rightarrow> MerkleProof \<Rightarrow> bool" where
  "MerkleProof_verify sha p \<longleftrightarrow>
     (case decode_hash (mp_leaf_hash p) of
        Inl _ \<Rightarrow> False
      | Inr leaf \<Rightarrow>
          (case climb sha (merkle_leaf sha leaf) (mp_nodes p) of
             None \<Rightarrow> False
           | Some current \<Rightarrow> encode_hash current = mp_root_hash p))"

subsection \<open>The Swift format\<close>

record LegacyAuditEntry =
  le_id :: rstr
  le_timestamp :: rstr
  le_session_id :: rstr
  le_category :: rstr
  le_action :: rstr
  le_subject :: rstr
  le_outcome :: rstr
  le_details :: "metadata option"
  le_hash :: rstr

record LegacySwiftMerkleTree =
  lt_root_hash :: rstr
  lt_leaf_count :: nat
  lt_nodes :: "rstr list"

definition legacy_content :: "LegacyAuditEntry \<Rightarrow> rstr" where
  "legacy_content entry =
     (let details = (case le_details entry of None \<Rightarrow> []
                     | Some details \<Rightarrow> join_with 44 (map (\<lambda>(key, value). key @ [61] @ value) details))
      in join_with 124 [le_id entry, le_timestamp entry, le_session_id entry, le_category entry, le_action entry,
           le_subject entry, le_outcome entry, details])"

definition legacy_entry ::
    "(bytes \<Rightarrow> bytes) \<Rightarrow> (rstr \<Rightarrow> rstr + unit) \<Rightarrow> rstr \<Rightarrow> nat \<Rightarrow> rstr \<Rightarrow> LegacyAuditEntry \<Rightarrow> SecurityError + unit" where
  "legacy_entry sha parse_time session index previous entry =
     (case parse_time (le_timestamp entry) of
        Inl detail \<Rightarrow> Inl (Malformed ''swift-audit-v1'' detail)
      | Inr _ \<Rightarrow>
          (case (case le_details entry of None \<Rightarrow> Inr () | Some details \<Rightarrow> validate_metadata details) of
             Inl e \<Rightarrow> Inl e
           | Inr _ \<Rightarrow>
               if session \<noteq> le_session_id entry
               then Inl (Integrity (str ''legacy audit session mismatch at '' @ show_nat index))
               else if le_hash entry \<noteq> encode_hash (sha (as_bytes previous @ as_bytes (legacy_content entry)))
               then Inl (Integrity (str ''legacy audit record '' @ show_nat index @ str '' hash mismatch''))
               else Inr ()))"

fun legacy_from ::
    "(bytes \<Rightarrow> bytes) \<Rightarrow> (rstr \<Rightarrow> rstr + unit) \<Rightarrow> rstr option \<Rightarrow> nat \<Rightarrow> rstr \<Rightarrow> LegacyAuditEntry list \<Rightarrow> SecurityError + unit" where
  "legacy_from sha parse_time session index previous [] = Inr ()"
| "legacy_from sha parse_time session index previous (entry # rest) =
     (let s = (case session of None \<Rightarrow> le_session_id entry | Some s \<Rightarrow> s)
      in case legacy_entry sha parse_time s index previous entry of
           Inl e \<Rightarrow> Inl e
         | Inr _ \<Rightarrow> legacy_from sha parse_time (Some s) (Suc index) (le_hash entry) rest)"

definition decode_legacy_swift_entries ::
    "(bytes \<Rightarrow> bytes) \<Rightarrow> (rstr \<Rightarrow> rstr + unit) \<Rightarrow> (bytes \<Rightarrow> rstr + LegacyAuditEntry list)
     \<Rightarrow> bytes \<Rightarrow> nat \<Rightarrow> nat \<Rightarrow> SecurityError + LegacyAuditEntry list" where
  "decode_legacy_swift_entries sha parse_time from_slice bytes max_bytes max_events =
     (if length bytes > max_bytes then Inl (SizeLimit (str ''legacy entries.json'') max_bytes)
      else case from_slice bytes of
          Inl detail \<Rightarrow> Inl (Malformed ''swift-audit-v1'' detail)
        | Inr entries \<Rightarrow>
            if length entries > max_events
            then Inl (Malformed ''swift-audit-v1'' (str ''event count exceeds limit''))
            else case legacy_from sha parse_time None 0 LEGACY_AUDIT_GENESIS entries of
                Inl e \<Rightarrow> Inl e
              | Inr _ \<Rightarrow> Inr entries)"

text \<open>\<^verbatim>\<open>usize::next_power_of_two\<close>.\<close>

function power_from :: "nat \<Rightarrow> nat \<Rightarrow> nat" where
  "power_from n p = (if n \<le> p \<or> p = 0 then p else power_from n (2 * p))"
  by pat_completeness auto
termination
  by (relation "measure (\<lambda>(n, p). n - p)") auto

declare power_from.simps [simp del]

definition pad_leaves :: "nat \<Rightarrow> rstr list \<Rightarrow> rstr list" where
  "pad_leaves target leaves = leaves @ replicate (target - length leaves) (last leaves)"

definition write_leaves :: "nat \<Rightarrow> rstr list \<Rightarrow> rstr list \<Rightarrow> rstr list" where
  "write_leaves start padded nodes = foldl (\<lambda>ns (i, h). ns[start + i := h]) nodes (List.enumerate 0 padded)"

definition write_parent :: "(bytes \<Rightarrow> bytes) \<Rightarrow> rstr list \<Rightarrow> nat \<Rightarrow> rstr list" where
  "write_parent sha ns i = ns[i := encode_hash (sha (as_bytes (ns ! (i * 2 + 1)) @ as_bytes (ns ! (i * 2 + 2))))]"

definition legacy_merkle_tree :: "(bytes \<Rightarrow> bytes) \<Rightarrow> rstr list \<Rightarrow> LegacySwiftMerkleTree" where
  "legacy_merkle_tree sha leaves =
     (if leaves = [] then \<lparr>lt_root_hash = [], lt_leaf_count = 0, lt_nodes = []\<rparr>
      else
        (let target = power_from (length leaves) 1;
             leaf_start = target - 1;
             nodes = write_leaves leaf_start (pad_leaves target leaves) (replicate (target * 2 - 1) []);
             nodes = foldl (write_parent sha) nodes (rev [0..<leaf_start])
         in \<lparr>lt_root_hash = nodes ! 0, lt_leaf_count = length leaves, lt_nodes = nodes\<rparr>))"

definition decode_legacy_swift_tree ::
    "(bytes \<Rightarrow> bytes) \<Rightarrow> (bytes \<Rightarrow> rstr + LegacySwiftMerkleTree) \<Rightarrow> bytes \<Rightarrow> LegacyAuditEntry list \<Rightarrow> nat
     \<Rightarrow> SecurityError + LegacySwiftMerkleTree" where
  "decode_legacy_swift_tree sha from_slice bytes entries max_bytes =
     (if length bytes > max_bytes then Inl (SizeLimit (str ''legacy tree.json'') max_bytes)
      else case from_slice bytes of
          Inl detail \<Rightarrow> Inl (Malformed ''swift-audit-tree-v1'' detail)
        | Inr tree \<Rightarrow>
            if lt_leaf_count tree \<noteq> length entries then Inl (Integrity (str ''legacy Merkle leaf count mismatch''))
            else if tree \<noteq> legacy_merkle_tree sha (map le_hash entries)
            then Inl (Integrity (str ''legacy Merkle tree mismatch''))
            else Inr tree)"

subsection \<open>Hashes are read back\<close>

locale sha_law =
  fixes sha :: "bytes \<Rightarrow> bytes"
  assumes length_sha [simp]: "length (sha x) = 32"

lemma decode_encode_hash: "length h = 32 \<Longrightarrow> decode_hash (encode_hash h) = Inr h"
  using hex_digits [of _ h] by (simp add: decode_hash_def encode_hash_def rlen_hex list_all_iff)

lemma encode_hash_inj: "encode_hash a = encode_hash b \<Longrightarrow> a = b"
  by (metis encode_hash_def unhex_hex)

lemma length_decode_hash: "decode_hash v = Inr h \<Longrightarrow> length h = 32"
proof -
  assume "decode_hash v = Inr h"
  then have v: "rlen v = 64" "list_all is_ascii_hexdigit v" "h = unhex v"
    by (auto simp: decode_hash_def split: if_splits)
  have "\<forall>c \<in> set v. c < 128" using v(2) by (auto simp: list_all_iff is_ascii_hexdigit_def)
  with v show ?thesis by (simp add: rlen_ascii length_unhex)
qed

lemma canonical_encode_Inr [simp]: "canonical_encode f v fmt = Inr b \<longleftrightarrow> f v = Inr b"
  by (simp add: canonical_encode_def split: sum.splits)

lemma chain_hash_Inr_iff:
  "chain_hash sha json previous event = Inr hash \<longleftrightarrow>
     (\<exists>p b. decode_hash previous = Inr p \<and> event_to_vec json event = Inr b \<and>
        hash = encode_hash (sha (CHAIN_DOMAIN @ p @ b)))"
  by (auto simp: chain_hash_def canonical_encode_def split: sum.splits)

subsection \<open>What verification establishes\<close>

lemma verify_record_iff:
  "verify_record sha json session_id i previous r = Inr () \<longleftrightarrow>
     ev_version (ar_event r) = AUDIT_FORMAT_VERSION \<and> ev_session_id (ar_event r) = session_id
     \<and> ev_sequence (ar_event r) = of_nat i
     \<and> validate_contents (ev_metadata (ar_event r)) (ev_action (ar_event r)) (ev_subject (ar_event r)) = Inr ()
     \<and> ar_previous_hash r = previous \<and> chain_hash sha json previous (ar_event r) = Inr (ar_hash r)"
  by (auto simp: verify_record_def Let_def split: sum.splits)

lemma verify_from_append:
  "verify_from sha json s i previous (xs @ ys) = Inr () \<longleftrightarrow>
     verify_from sha json s i previous xs = Inr () \<and>
     verify_from sha json s (i + length xs) (if xs = [] then previous else ar_hash (last xs)) ys = Inr ()"
  by (induction xs arbitrary: i previous) (auto split: sum.splits)

lemma verify_from_snoc:
  "verify_from sha json s i previous (xs @ [r]) = Inr () \<longleftrightarrow>
     verify_from sha json s i previous xs = Inr () \<and>
     verify_record sha json s (i + length xs) (if xs = [] then previous else ar_hash (last xs)) r = Inr ()"
  by (auto simp: verify_from_append split: sum.splits)

lemma verified_log:
  "AuditLog_verify sha json log = Inr () \<longleftrightarrow>
     length (al_records log) \<le> DEFAULT_MAX_EVENTS \<and>
     verify_from sha json (al_session_id log) 0 (genesis_hash sha) (al_records log) = Inr ()"
  by (auto simp: AuditLog_verify_def)

lemma verified_record:
  assumes "verify_from sha json s i previous xs = Inr ()" and "r \<in> set xs"
  shows "ev_session_id (ar_event r) = s" "\<exists>x. ar_hash r = encode_hash (sha x)"
proof -
  obtain us vs where "xs = us @ r # vs" using assms(2) by (auto simp: in_set_conv_decomp)
  with assms(1) obtain j p where "verify_record sha json s j p r = Inr ()"
    by (auto simp: verify_from_append split: sum.splits)
  then show "ev_session_id (ar_event r) = s" "\<exists>x. ar_hash r = encode_hash (sha x)"
    by (auto simp: verify_record_iff chain_hash_Inr_iff)
qed

subsection \<open>Appended logs verify\<close>

inductive audit_history :: "(bytes \<Rightarrow> bytes) \<Rightarrow> audit_json \<Rightarrow> AuditLog \<Rightarrow> bool" for sha json where
  history_new: "AuditLog_new s = Inr log \<Longrightarrow> audit_history sha json log"
| history_append: "audit_history sha json log \<Longrightarrow> AuditLog_append sha json log t c a subj res m = Inr (log', r)
    \<Longrightarrow> audit_history sha json log'"

lemma append_Inr:
  assumes "AuditLog_append sha json log t c a subj res m = Inr (log', r)"
  shows "log' = log\<lparr>al_records := al_records log @ [r]\<rparr>"
    and "verify_record sha json (al_session_id log) (length (al_records log)) (head_hash sha (al_records log)) r = Inr ()"
  using assms unfolding AuditLog_append_def verify_record_iff
  by (auto simp: Let_def split: sum.splits if_splits)

lemma history_verifies:
  assumes "audit_history sha json log"
  shows "verify_from sha json (al_session_id log) 0 (genesis_hash sha) (al_records log) = Inr ()"
  using assms
proof induction
  case (history_new s log)
  then show ?case by (auto simp: AuditLog_new_def split: sum.splits)
next
  case (history_append log t c a subj res m log' r)
  show ?case
    unfolding append_Inr(1) [OF history_append.hyps(2)]
    using history_append.IH append_Inr(2) [OF history_append.hyps(2)]
    by (simp add: verify_from_snoc head_hash_def split: if_splits)
qed

subsection \<open>The persisted form is read back\<close>

locale audit_json_laws =
  fixes json :: audit_json
  assumes event_written: "\<exists>b. event_to_vec json e = Inr b"
    and event_read: "event_to_vec json e = event_to_vec json e' \<Longrightarrow> e = e'"
    and record_written: "\<exists>b. record_to_vec json r = Inr b"
    and record_read: "record_to_vec json r = Inr b \<Longrightarrow> record_from_slice json b = Inr r"
    and record_line: "record_to_vec json r = Inr b \<Longrightarrow> b \<noteq> [] \<and> 10 \<notin> set b"
    and header_written: "\<exists>b. header_to_vec json h = Inr b"
    and header_read: "header_to_vec json h = Inr b \<Longrightarrow> header_from_slice json b = Inr h"
    and header_line: "header_to_vec json h = Inr b \<Longrightarrow> 10 \<notin> set b"

lemma split_lines_concat:
  "\<forall>line \<in> set ls. 10 \<notin> set line \<Longrightarrow> split_lines (concat (map (\<lambda>line. line @ [10]) ls)) = ls @ [[]]"
proof (induction ls)
  case (Cons line ls)
  have "split_lines (l @ 10 # rest) = l # split_lines rest" if "10 \<notin> set l" for l rest
    using that by (induction l) auto
  with Cons show ?case by simp
qed simp

lemma last_line: "last (concat (map (\<lambda>line. line @ [10]) (h # ls))) = (10 :: u8)"
  by (induction ls arbitrary: h) auto

context audit_json_laws
begin

lemma decode_records_encoded:
  assumes "try_map (\<lambda>r. canonical_encode (record_to_vec json) r fmt) rs = Inr ls" and "n + length rs \<le> max_events"
  shows "decode_records json max_events n (ls @ [[]]) = Inr rs"
  using assms
proof (induction rs arbitrary: ls n)
  case (Cons r rs)
  then obtain b bs where b: "record_to_vec json r = Inr b" and ls: "ls = b # bs"
    and bs: "try_map (\<lambda>r. canonical_encode (record_to_vec json) r fmt) rs = Inr bs"
    by (auto split: sum.splits)
  then show ?case
    using Cons.IH [OF bs, of "Suc n"] Cons.prems(2) record_read [OF b] record_line [OF b]
    by (simp add: decode_canonical_def canonical_encode_def)
qed simp

lemma records_encoded: "\<exists>ls. try_map (\<lambda>r. canonical_encode (record_to_vec json) r fmt) rs = Inr ls"
proof (induction rs)
  case (Cons r rs)
  then show ?case using record_written [of r] by (auto simp: canonical_encode_def)
qed simp

lemma encoded_records_lines:
  assumes "try_map (\<lambda>r. canonical_encode (record_to_vec json) r fmt) rs = Inr ls" and "l \<in> set ls"
  shows "10 \<notin> set l"
  using try_map_Inr_set [OF assms] record_line by auto

lemma encode_form:
  assumes "AuditLog_verify sha json log = Inr ()"
  obtains h ls b where "header_to_vec json audit_header = Inr h"
    and "try_map (\<lambda>r. canonical_encode (record_to_vec json) r AUDIT_FORMAT) (al_records log) = Inr ls"
    and "AuditLog_encode sha json log = Inr b" and "b \<noteq> []" and "last b = 10" and "split_lines b = h # ls @ [[]]"
proof -
  obtain h where h: "header_to_vec json audit_header = Inr h" using header_written by blast
  obtain ls where ls: "try_map (\<lambda>r. canonical_encode (record_to_vec json) r AUDIT_FORMAT) (al_records log) = Inr ls"
    using records_encoded by blast
  let ?b = "concat (map (\<lambda>line. line @ [10]) (h # ls))"
  have "\<forall>line \<in> set (h # ls). 10 \<notin> set line"
    using header_line [OF h] encoded_records_lines [OF ls] by auto
  then have "split_lines ?b = h # ls @ [[]]"
    using split_lines_concat [of "h # ls"] by simp
  moreover have "AuditLog_encode sha json log = Inr ?b"
    using assms h ls by (simp add: AuditLog_encode_def canonical_encode_def)
  moreover have "?b \<noteq> []" by simp
  moreover have "last ?b = 10" by (rule last_line)
  ultimately show thesis using that h ls by blast
qed

lemma header_accepted:
  "header_to_vec json audit_header = Inr h \<Longrightarrow>
     decode_canonical (header_from_slice json) (header_to_vec json) h AUDIT_FORMAT = Inr audit_header"
  using header_read by (simp add: decode_canonical_def canonical_encode_def)

lemma decode_encode_log:
  assumes "AuditLog_verify sha json log = Inr ()" "al_records log \<noteq> []" "length (al_records log) \<le> max_events"
  shows "\<exists>b. AuditLog_encode sha json log = Inr b \<and> AuditLog_decode sha json b max_events = Inr log"
proof -
  obtain h ls b where h: "header_to_vec json audit_header = Inr h"
    and ls: "try_map (\<lambda>r. canonical_encode (record_to_vec json) r AUDIT_FORMAT) (al_records log) = Inr ls"
    and enc: "AuditLog_encode sha json log = Inr b" and b: "b \<noteq> []" "last b = 10"
    and lines: "split_lines b = h # ls @ [[]]"
    using encode_form [OF assms(1)] by blast
  obtain r rs where rs: "al_records log = r # rs" using assms(2) by (cases "al_records log") auto
  have "ev_session_id (ar_event r) = al_session_id log"
    using verified_record(1) [of sha json "al_session_id log" 0 "genesis_hash sha" "al_records log" r] assms(1) rs
    by (simp add: verified_log)
  then have log: "\<lparr>al_session_id = ev_session_id (ar_event r), al_records = r # rs\<rparr> = log"
    using rs by simp
  have dec: "decode_records json max_events 0 (ls @ [[]]) = Inr (r # rs)"
    using decode_records_encoded [OF ls, of 0 max_events] assms(3) rs by simp
  have "AuditLog_decode sha json b max_events = Inr log"
    unfolding AuditLog_decode_def Let_def lines
    using b header_accepted [OF h] dec log assms(1) by (simp add: audit_header_def)
  with enc show ?thesis by blast
qed

lemma decode_encode_empty:
  assumes "AuditLog_verify sha json log = Inr ()" "al_records log = []"
  shows "\<exists>b. AuditLog_encode sha json log = Inr b \<and>
    AuditLog_decode sha json b max_events = Inl (Malformed AUDIT_FORMAT (str ''audit log has no records''))"
proof -
  obtain h ls b where h: "header_to_vec json audit_header = Inr h"
    and ls: "try_map (\<lambda>r. canonical_encode (record_to_vec json) r AUDIT_FORMAT) (al_records log) = Inr ls"
    and enc: "AuditLog_encode sha json log = Inr b" and b: "b \<noteq> []" "last b = 10"
    and lines: "split_lines b = h # ls @ [[]]"
    using encode_form [OF assms(1)] by blast
  have "ls = []" using ls assms(2) by simp
  have "AuditLog_decode sha json b max_events = Inl (Malformed AUDIT_FORMAT (str ''audit log has no records''))"
    unfolding AuditLog_decode_def Let_def lines
    using b header_accepted [OF h] \<open>ls = []\<close> by (simp add: audit_header_def)
  with enc show ?thesis by blast
qed

end

subsection \<open>The head commits to the log\<close>

text \<open>The inputs of SHA-256 when a log is verified.\<close>

definition chain_inputs :: "audit_json \<Rightarrow> AuditLog \<Rightarrow> bytes list" where
  "chain_inputs json log =
     as_bytes (str ''sendbox-audit-genesis-v1'') #
     concat (map (\<lambda>r. case (decode_hash (ar_previous_hash r), event_to_vec json (ar_event r)) of
         (Inr previous, Inr encoded) \<Rightarrow> [CHAIN_DOMAIN @ previous @ encoded] | _ \<Rightarrow> []) (al_records log))"

lemma chain_inputs_record:
  "r \<in> set (al_records log) \<Longrightarrow> decode_hash (ar_previous_hash r) = Inr p \<Longrightarrow> event_to_vec json (ar_event r) = Inr b
   \<Longrightarrow> CHAIN_DOMAIN @ p @ b \<in> set (chain_inputs json log)"
  by (auto simp: chain_inputs_def intro!: bexI [of _ r])

lemma chain_not_genesis: "CHAIN_DOMAIN @ x \<noteq> as_bytes (str ''sendbox-audit-genesis-v1'')"
  by (simp add: CHAIN_DOMAIN_def as_bytes_def encode_char_def)

lemma head_hash_verified:
  assumes "verify_from sha json s 0 (genesis_hash sha) xs = Inr ()"
  shows "\<exists>x. head_hash sha xs = encode_hash (sha x)"
  using verified_record(2) [OF assms, of "last xs"] by (auto simp: head_hash_def genesis_hash_def)

lemma verified_last:
  assumes "verify_from sha json s 0 (genesis_hash sha) (xs @ [r]) = Inr ()"
  obtains p b where "decode_hash (ar_previous_hash r) = Inr p" "event_to_vec json (ar_event r) = Inr b"
    "ar_hash r = encode_hash (sha (CHAIN_DOMAIN @ p @ b))" "ar_previous_hash r = head_hash sha xs"
    "verify_from sha json s 0 (genesis_hash sha) xs = Inr ()"
  using assms by (auto simp: verify_from_snoc verify_record_iff chain_hash_Inr_iff head_hash_def)

locale audit_hashing = audit_json_laws json + sha_law sha for json sha
begin

lemma head_hash_decoded:
  assumes "verify_from sha json s 0 (genesis_hash sha) xs = Inr ()" "decode_hash (head_hash sha xs) = Inr p"
  shows "head_hash sha xs = encode_hash p"
proof -
  obtain x where "head_hash sha xs = encode_hash (sha x)" using head_hash_verified [OF assms(1)] by blast
  with assms(2) show ?thesis using decode_encode_hash [of "sha x"] by simp
qed

lemma records_committed:
  assumes "verify_from sha json s 0 (genesis_hash sha) xs = Inr ()" "verify_from sha json s' 0 (genesis_hash sha) ys = Inr ()"
    and "head_hash sha xs = head_hash sha ys"
    and inj: "inj_on sha S" and genesis: "as_bytes (str ''sendbox-audit-genesis-v1'') \<in> S"
    and "\<And>r p b. r \<in> set xs \<union> set ys \<Longrightarrow> decode_hash (ar_previous_hash r) = Inr p
          \<Longrightarrow> event_to_vec json (ar_event r) = Inr b \<Longrightarrow> CHAIN_DOMAIN @ p @ b \<in> S"
  shows "xs = ys"
  using assms(1-3,6)
proof (induction xs arbitrary: ys rule: rev_induct)
  case Nil
  show ?case
  proof (cases ys rule: rev_cases)
    case (snoc ys' r)
    obtain p b where r: "decode_hash (ar_previous_hash r) = Inr p" "event_to_vec json (ar_event r) = Inr b"
      "ar_hash r = encode_hash (sha (CHAIN_DOMAIN @ p @ b))"
      using verified_last Nil.prems(2) snoc by metis
    have "sha (CHAIN_DOMAIN @ p @ b) = sha (as_bytes (str ''sendbox-audit-genesis-v1''))"
      using Nil.prems(3) r(3) snoc by (auto simp: head_hash_def genesis_hash_def dest: encode_hash_inj)
    then have "CHAIN_DOMAIN @ p @ b = as_bytes (str ''sendbox-audit-genesis-v1'')"
      using Nil.prems(4) [OF _ r(1,2)] genesis inj snoc by (auto dest: inj_onD)
    then show ?thesis using chain_not_genesis by blast
  qed simp
next
  case (snoc r xs)
  obtain p b where r: "decode_hash (ar_previous_hash r) = Inr p" "event_to_vec json (ar_event r) = Inr b"
    "ar_hash r = encode_hash (sha (CHAIN_DOMAIN @ p @ b))" "ar_previous_hash r = head_hash sha xs"
    "verify_from sha json s 0 (genesis_hash sha) xs = Inr ()"
    using verified_last [OF snoc.prems(1)] by blast
  have input: "CHAIN_DOMAIN @ p @ b \<in> S" using snoc.prems(4) [of r p b] r(1,2) by simp
  show ?case
  proof (cases ys rule: rev_cases)
    case Nil
    then have "sha (CHAIN_DOMAIN @ p @ b) = sha (as_bytes (str ''sendbox-audit-genesis-v1''))"
      using snoc.prems(3) r(3) by (auto simp: head_hash_def genesis_hash_def dest: encode_hash_inj)
    then have "CHAIN_DOMAIN @ p @ b = as_bytes (str ''sendbox-audit-genesis-v1'')"
      using input genesis inj by (auto dest: inj_onD)
    then show ?thesis using chain_not_genesis by blast
  next
    case (snoc ys' r')
    obtain p' b' where r': "decode_hash (ar_previous_hash r') = Inr p'" "event_to_vec json (ar_event r') = Inr b'"
      "ar_hash r' = encode_hash (sha (CHAIN_DOMAIN @ p' @ b'))" "ar_previous_hash r' = head_hash sha ys'"
      "verify_from sha json s' 0 (genesis_hash sha) ys' = Inr ()"
      using verified_last snoc.prems(2) snoc by metis
    have hash: "ar_hash r = ar_hash r'" using snoc.prems(3) snoc by (simp add: head_hash_def)
    then have "sha (CHAIN_DOMAIN @ p @ b) = sha (CHAIN_DOMAIN @ p' @ b')" using r(3) r'(3) encode_hash_inj by metis
    then have "p @ b = p' @ b'" using input snoc.prems(4) [of r' p' b'] r'(1,2) inj snoc by (auto dest: inj_onD)
    moreover have "length p = length p'" using length_decode_hash r(1) r'(1) by metis
    ultimately have pb: "p = p'" "b = b'" by auto
    have ev: "ar_event r = ar_event r'" using event_read [of "ar_event r" "ar_event r'"] r(2) r'(2) pb by simp
    have head: "head_hash sha xs = head_hash sha ys'"
      using head_hash_decoded [OF r(5)] head_hash_decoded [OF r'(5)] r(1,4) r'(1,4) pb by simp
    moreover have "CHAIN_DOMAIN @ q @ c \<in> S" if "e \<in> set xs \<union> set ys'" "decode_hash (ar_previous_hash e) = Inr q"
        "event_to_vec json (ar_event e) = Inr c" for e q c
      using snoc.prems(4) [OF _ that(2,3)] that(1) snoc by auto
    ultimately have "xs = ys'" using snoc.IH [OF r(5) r'(5)] by blast
    moreover have "r = r'" using ev hash head r(4) r'(4) by simp
    ultimately show ?thesis using snoc by simp
  qed
qed

end

subsection \<open>Merkle proofs\<close>

text \<open>The inputs of SHA-256 when the root of a log is computed, and when a proof is verified.\<close>

fun pair_inputs :: "bytes list \<Rightarrow> bytes list" where
  "pair_inputs (a # b # rest) = (1 # a @ b) # pair_inputs rest"
| "pair_inputs _ = []"

function level_inputs :: "(bytes \<Rightarrow> bytes) \<Rightarrow> bytes list \<Rightarrow> bytes list" where
  "level_inputs sha level =
     (if length level > 1 then pair_inputs level @ level_inputs sha (next_merkle_level sha level) else [])"
  by pat_completeness auto
termination
  by (relation "measure (\<lambda>(_, level). length level)") auto

declare level_inputs.simps [simp del]

definition root_inputs :: "(bytes \<Rightarrow> bytes) \<Rightarrow> AuditLog \<Rightarrow> bytes list" where
  "root_inputs sha log =
     (let hashes = List.map_filter (\<lambda>r. case decode_hash (ar_hash r) of Inl _ \<Rightarrow> None | Inr h \<Rightarrow> Some h) (al_records log)
      in as_bytes (str ''sendbox-audit-empty-merkle-v1'') #
         map (Cons 0) hashes @ level_inputs sha (map (merkle_leaf sha) hashes))"

fun climb_inputs :: "(bytes \<Rightarrow> bytes) \<Rightarrow> bytes \<Rightarrow> MerkleProofNode list \<Rightarrow> bytes list" where
  "climb_inputs sha current [] = []"
| "climb_inputs sha current (node # nodes) =
     (case decode_hash (mn_hash node) of
        Inl _ \<Rightarrow> []
      | Inr sibling \<Rightarrow>
          (let input = (if mn_sibling_is_left node then 1 # sibling @ current else 1 # current @ sibling)
           in input # climb_inputs sha (sha input) nodes))"

definition proof_inputs :: "(bytes \<Rightarrow> bytes) \<Rightarrow> MerkleProof \<Rightarrow> bytes list" where
  "proof_inputs sha p =
     (case decode_hash (mp_leaf_hash p) of
        Inl _ \<Rightarrow> [] | Inr h \<Rightarrow> (0 # h) # climb_inputs sha (merkle_leaf sha h) (mp_nodes p))"

text \<open>The tree behind the levels.\<close>

datatype mtree = MLeaf bytes | MNode mtree mtree

primrec tree_hash :: "(bytes \<Rightarrow> bytes) \<Rightarrow> mtree \<Rightarrow> bytes" where
  "tree_hash sha (MLeaf h) = merkle_leaf sha h"
| "tree_hash sha (MNode l r) = merkle_node sha (tree_hash sha l) (tree_hash sha r)"

primrec tree_leaves :: "mtree \<Rightarrow> bytes list" where
  "tree_leaves (MLeaf h) = [h]"
| "tree_leaves (MNode l r) = tree_leaves l @ tree_leaves r"

primrec node_inputs :: "(bytes \<Rightarrow> bytes) \<Rightarrow> mtree \<Rightarrow> bytes set" where
  "node_inputs sha (MLeaf h) = {}"
| "node_inputs sha (MNode l r) = {1 # tree_hash sha l @ tree_hash sha r} \<union> node_inputs sha l \<union> node_inputs sha r"

fun pair_up :: "mtree list \<Rightarrow> mtree list" where
  "pair_up (a # b # rest) = MNode a b # pair_up rest"
| "pair_up ts = ts"

lemma pair_up_hash: "map (tree_hash sha) (pair_up ts) = next_merkle_level sha (map (tree_hash sha) ts)"
  by (induction ts rule: pair_up.induct) auto

lemma pair_up_leaves: "concat (map tree_leaves (pair_up ts)) = concat (map tree_leaves ts)"
  by (induction ts rule: pair_up.induct) auto

lemma pair_up_inputs:
  "(\<Union>t \<in> set (pair_up ts). node_inputs sha t) = (\<Union>t \<in> set ts. node_inputs sha t) \<union> set (pair_inputs (map (tree_hash sha) ts))"
  by (induction ts rule: pair_up.induct) auto

lemma length_pair_up: "length (pair_up ts) = (length ts + 1) div 2"
  by (induction ts rule: pair_up.induct) auto

lemma tree_of_level:
  assumes "ts \<noteq> []"
  obtains t where "tree_hash sha t = merkle_reduce sha (map (tree_hash sha) ts)" "tree_leaves t = concat (map tree_leaves ts)"
    "node_inputs sha t = (\<Union>t \<in> set ts. node_inputs sha t) \<union> set (level_inputs sha (map (tree_hash sha) ts))"
  using assms
proof (induction "length ts" arbitrary: ts thesis rule: less_induct)
  case less
  show thesis
  proof (cases "length ts > 1")
    case True
    have "pair_up ts \<noteq> []" using True length_pair_up [of ts] by (auto simp flip: length_0_conv)
    moreover have "length (pair_up ts) < length ts" using True length_pair_up [of ts] by auto
    ultimately obtain t where t: "tree_hash sha t = merkle_reduce sha (map (tree_hash sha) (pair_up ts))"
      "tree_leaves t = concat (map tree_leaves (pair_up ts))"
      "node_inputs sha t = (\<Union>t \<in> set (pair_up ts). node_inputs sha t) \<union> set (level_inputs sha (map (tree_hash sha) (pair_up ts)))"
      using less.hyps by blast
    show thesis
    proof (rule less.prems(1))
      show "tree_hash sha t = merkle_reduce sha (map (tree_hash sha) ts)"
        using t(1) True by (simp add: pair_up_hash merkle_reduce.simps [of sha "map (tree_hash sha) ts"])
      show "tree_leaves t = concat (map tree_leaves ts)" using t(2) by (simp add: pair_up_leaves)
      show "node_inputs sha t = (\<Union>t \<in> set ts. node_inputs sha t) \<union> set (level_inputs sha (map (tree_hash sha) ts))"
        using t(3) True
        by (simp add: pair_up_inputs pair_up_hash level_inputs.simps [of sha "map (tree_hash sha) ts"] Un_assoc)
    qed
  next
    case False
    then obtain t where "ts = [t]" using less.prems(2) by (cases ts) auto
    then show thesis using less.prems(1) by (simp add: merkle_reduce.simps level_inputs.simps)
  qed
qed

context sha_law
begin

lemma length_tree_hash [simp]: "length (tree_hash sha t) = 32"
  by (cases t) (simp_all add: merkle_leaf_def merkle_node_def)

lemma length_climb: "length x = 32 \<Longrightarrow> climb sha x nodes = Some y \<Longrightarrow> length y = 32"
proof (induction nodes arbitrary: x)
  case (Cons node nodes)
  obtain s where s: "decode_hash (mn_hash node) = Inr s" using Cons.prems(2) by (auto split: sum.splits)
  show ?case
    by (rule Cons.IH [of "if mn_sibling_is_left node then merkle_node sha s x else merkle_node sha x s"])
      (use Cons.prems(2) s in \<open>simp_all add: merkle_node_def\<close>)
qed simp

lemma climb_snoc:
  assumes "climb sha x (nodes @ [n]) = Some z"
  obtains y sib where "climb sha x nodes = Some y" "decode_hash (mn_hash n) = Inr sib"
    "z = (if mn_sibling_is_left n then merkle_node sha sib y else merkle_node sha y sib)"
    "set (climb_inputs sha x (nodes @ [n])) =
       set (climb_inputs sha x nodes) \<union> {if mn_sibling_is_left n then 1 # sib @ y else 1 # y @ sib}"
  using assms
proof (induction nodes arbitrary: thesis x)
  case Nil
  then show ?case by (auto split: sum.splits if_splits)
next
  case (Cons node nodes)
  then obtain s where s: "decode_hash (mn_hash node) = Inr s" by (auto split: sum.splits)
  let ?c = "if mn_sibling_is_left node then merkle_node sha s x else merkle_node sha x s"
  have "climb sha ?c (nodes @ [n]) = Some z" using Cons s by simp
  then obtain y sib where y: "climb sha ?c nodes = Some y" "decode_hash (mn_hash n) = Inr sib"
    "z = (if mn_sibling_is_left n then merkle_node sha sib y else merkle_node sha y sib)"
    "set (climb_inputs sha ?c (nodes @ [n])) =
       set (climb_inputs sha ?c nodes) \<union> {if mn_sibling_is_left n then 1 # sib @ y else 1 # y @ sib}"
    using Cons(1) by blast
  then show ?case
    using Cons(2) [of y sib] s by (cases "mn_sibling_is_left node") (simp_all add: Let_def merkle_node_def insert_commute)
qed

lemma climb_last_input:
  assumes "climb sha (sha x) nodes = Some y"
  shows "\<exists>z \<in> insert x (set (climb_inputs sha (sha x) nodes)). y = sha z \<and> (z = x \<or> hd z = 1)"
proof (cases nodes rule: rev_cases)
  case Nil
  with assms show ?thesis by simp
next
  case (snoc ms n)
  obtain u sib where "y = (if mn_sibling_is_left n then merkle_node sha sib u else merkle_node sha u sib)"
    "set (climb_inputs sha (sha x) (ms @ [n])) =
       set (climb_inputs sha (sha x) ms) \<union> {if mn_sibling_is_left n then 1 # sib @ u else 1 # u @ sib}"
    using climb_snoc assms unfolding snoc by metis
  then show ?thesis
    unfolding snoc
    by (intro bexI [of _ "if mn_sibling_is_left n then 1 # sib @ u else 1 # u @ sib"]) (auto simp: merkle_node_def)
qed

lemma climb_sound:
  assumes "climb sha (merkle_leaf sha h) nodes = Some (tree_hash sha t)"
    and "inj_on sha S" "0 # h \<in> S" "set (climb_inputs sha (merkle_leaf sha h) nodes) \<subseteq> S"
    and "node_inputs sha t \<subseteq> S" "Cons 0 ` set (tree_leaves t) \<subseteq> S"
  shows "h \<in> set (tree_leaves t)"
  using assms(1,4-6)
proof (induction nodes arbitrary: t rule: rev_induct)
  case Nil
  show ?case
  proof (cases t)
    case (MLeaf g)
    with Nil have "sha (0 # h) = sha (0 # g)" by (simp add: merkle_leaf_def)
    with Nil MLeaf assms(2,3) show ?thesis by (auto dest: inj_onD)
  next
    case (MNode l r)
    with Nil have "sha (0 # h) = sha (1 # tree_hash sha l @ tree_hash sha r)"
      by (simp add: merkle_leaf_def merkle_node_def)
    with Nil MNode assms(2,3) have "(0::u8) = 1" by (auto dest: inj_onD)
    then show ?thesis by simp
  qed
next
  case (snoc n nodes)
  obtain y sib where y: "climb sha (merkle_leaf sha h) nodes = Some y" "decode_hash (mn_hash n) = Inr sib"
    "tree_hash sha t = (if mn_sibling_is_left n then merkle_node sha sib y else merkle_node sha y sib)"
    "set (climb_inputs sha (merkle_leaf sha h) (nodes @ [n])) =
       set (climb_inputs sha (merkle_leaf sha h) nodes) \<union> {if mn_sibling_is_left n then 1 # sib @ y else 1 # y @ sib}"
    using climb_snoc [OF snoc.prems(1)] by blast
  define a b where "a = (if mn_sibling_is_left n then sib else y)" and "b = (if mn_sibling_is_left n then y else sib)"
  note ab = this
  have "length y = 32" "length sib = 32"
    using length_climb [OF _ y(1)] length_decode_hash [OF y(2)] by (simp_all add: merkle_leaf_def)
  then have len: "length a = 32" "length b = 32" by (simp_all add: ab)
  have peak: "tree_hash sha t = sha (1 # a @ b)" using y(3) by (simp add: ab merkle_node_def)
  have input: "1 # a @ b \<in> S" using y(4) snoc.prems(2) by (cases "mn_sibling_is_left n") (simp_all add: ab)
  show ?case
  proof (cases t)
    case (MLeaf g)
    with peak snoc.prems(4) have "sha (0 # g) = sha (1 # a @ b)" "0 # g \<in> S" by (simp_all add: merkle_leaf_def)
    with input have "0 # g = 1 # a @ b" using inj_onD [OF assms(2)] by blast
    then show ?thesis by simp
  next
    case (MNode l r)
    with peak snoc.prems(3) have "sha (1 # tree_hash sha l @ tree_hash sha r) = sha (1 # a @ b)"
      "1 # tree_hash sha l @ tree_hash sha r \<in> S" by (simp_all add: merkle_node_def)
    with input have "1 # tree_hash sha l @ tree_hash sha r = 1 # a @ b" using inj_onD [OF assms(2)] by blast
    then have "tree_hash sha l = a" "tree_hash sha r = b" using len by simp_all
    then have "y = tree_hash sha (if mn_sibling_is_left n then r else l)" by (simp add: ab split: if_splits)
    with y(1) have "climb sha (merkle_leaf sha h) nodes = Some (tree_hash sha (if mn_sibling_is_left n then r else l))"
      by simp
    from snoc.IH [OF this] have "h \<in> set (tree_leaves (if mn_sibling_is_left n then r else l))"
      using y(4) snoc.prems(2-4) MNode by (cases "mn_sibling_is_left n") auto
    with MNode show ?thesis by (auto split: if_splits)
  qed
qed

end

lemma next_merkle_level_nth:
  "i < (length level + 1) div 2 \<Longrightarrow>
     next_merkle_level sha level ! i =
       (if 2 * i + 1 < length level then merkle_node sha (level ! (2 * i)) (level ! (2 * i + 1)) else level ! (2 * i))"
proof (induction sha level arbitrary: i rule: next_merkle_level.induct)
  case (1 sha a b rest)
  then show ?case by (cases i) auto
qed auto

lemma next_merkle_level_length:
  "(\<And>x. length (sha x) = 32) \<Longrightarrow> \<forall>h \<in> set level. length h = 32 \<Longrightarrow> \<forall>h \<in> set (next_merkle_level sha level). length h = 32"
  by (induction sha level rule: next_merkle_level.induct) (auto simp: merkle_node_def)

lemma climb_append: "climb sha x (ms @ ns) = (case climb sha x ms of None \<Rightarrow> None | Some y \<Rightarrow> climb sha y ns)"
  by (induction ms arbitrary: x) (auto split: sum.splits)

lemma climb_sibling:
  assumes "\<forall>h \<in> set level. length h = 32" "cursor < length level" "length level > 1"
  shows "climb sha (level ! cursor) (proof_sibling level cursor) = Some (next_merkle_level sha level ! (cursor div 2))"
proof -
  have half: "cursor div 2 < (length level + 1) div 2" using assms(2) by linarith
  show ?thesis
  proof (cases "cursor mod 2 = 1")
    case True
    then have "2 * (cursor div 2) = cursor - 1" "0 < cursor" by (auto simp: minus_mod_eq_mult_div [symmetric] intro: gr0I)
    moreover have "length (level ! (cursor - 1)) = 32" using assms(1,2) by simp
    ultimately show ?thesis
      using True assms(2) by (simp add: next_merkle_level_nth [OF half] proof_sibling_def decode_encode_hash)
  next
    case False
    then have "2 * (cursor div 2) = cursor" by (simp add: minus_mod_eq_mult_div [symmetric])
    moreover have "cursor + 1 < length level \<Longrightarrow> length (level ! (cursor + 1)) = 32" using assms(1) by simp
    ultimately show ?thesis
      using False by (auto simp: next_merkle_level_nth [OF half] proof_sibling_def decode_encode_hash)
  qed
qed

context sha_law
begin

lemma proof_loop_climbs:
  assumes "\<forall>h \<in> set level. length h = 32" "cursor < length level" "proof_loop sha level cursor = (nodes, peak)"
  shows "peak = merkle_reduce sha level \<and> climb sha (level ! cursor) nodes = Some peak"
  using assms
proof (induction "length level" arbitrary: level cursor nodes peak rule: less_induct)
  case less
  show ?case
  proof (cases "length level > 1")
    case True
    let ?next = "next_merkle_level sha level"
    obtain rest where rest: "proof_loop sha ?next (cursor div 2) = (rest, peak)" "nodes = proof_sibling level cursor @ rest"
      using less.prems(3) True by (auto simp: proof_loop.simps [of sha level] Let_def split: prod.splits)
    have "length ?next < length level" "cursor div 2 < length ?next" using True less.prems(2) by auto
    then have "peak = merkle_reduce sha ?next \<and> climb sha (?next ! (cursor div 2)) rest = Some peak"
      using less.hyps [OF _ next_merkle_level_length [OF length_sha less.prems(1)] _ rest(1)] by simp
    with True show ?thesis
      using climb_sibling [OF less.prems(1,2) True, of sha] rest(2)
      by (simp add: climb_append merkle_reduce.simps [of sha level])
  next
    case False
    then obtain h where "level = [h]" using less.prems(2) by (cases level) auto
    with less.prems(2,3) show ?thesis by (simp add: proof_loop.simps merkle_reduce.simps)
  qed
qed

end

subsection \<open>The hashes of a verified log\<close>

context sha_law
begin

lemma verified_hash_decodes:
  assumes "AuditLog_verify sha json log = Inr ()" "r \<in> set (al_records log)"
  shows "decode_hash (ar_hash r) = Inr (unhex (ar_hash r))" "length (unhex (ar_hash r)) = 32"
proof -
  obtain x where x: "ar_hash r = encode_hash (sha x)"
    using verified_record(2) [OF conjunct2 [OF assms(1) [unfolded verified_log]] assms(2)] by blast
  then show "decode_hash (ar_hash r) = Inr (unhex (ar_hash r))" "length (unhex (ar_hash r)) = 32"
    using decode_encode_hash [of "sha x"] by (simp_all add: encode_hash_def)
qed

lemma verified_levels:
  assumes "AuditLog_verify sha json log = Inr ()"
  defines "hashes \<equiv> map (unhex \<circ> ar_hash) (al_records log)"
  shows "those (map (\<lambda>record. case decode_hash (ar_hash record) of
           Inl _ \<Rightarrow> None | Inr hash \<Rightarrow> Some (merkle_leaf sha hash)) (al_records log)) = Some (map (merkle_leaf sha) hashes)"
    and "List.map_filter (\<lambda>h. case decode_hash h of
           Inl _ \<Rightarrow> None | Inr hash \<Rightarrow> Some (merkle_leaf sha hash)) (map ar_hash (al_records log)) = map (merkle_leaf sha) hashes"
    and "List.map_filter (\<lambda>r. case decode_hash (ar_hash r) of Inl _ \<Rightarrow> None | Inr h \<Rightarrow> Some h) (al_records log) = hashes"
proof -
  note dec = verified_hash_decodes(1) [OF assms(1)]
  have "those (map (\<lambda>record. case decode_hash (ar_hash record) of
           Inl _ \<Rightarrow> None | Inr hash \<Rightarrow> Some (merkle_leaf sha hash)) rs) = Some (map (merkle_leaf sha) (map (unhex \<circ> ar_hash) rs))"
    if "set rs \<subseteq> set (al_records log)" for rs
    using that dec by (induction rs) auto
  then show "those (map (\<lambda>record. case decode_hash (ar_hash record) of
           Inl _ \<Rightarrow> None | Inr hash \<Rightarrow> Some (merkle_leaf sha hash)) (al_records log)) = Some (map (merkle_leaf sha) hashes)"
    by (simp add: hashes_def)
  have "List.map_filter (\<lambda>h. case decode_hash h of Inl _ \<Rightarrow> None | Inr hash \<Rightarrow> Some (merkle_leaf sha hash)) (map ar_hash rs)
        = map (merkle_leaf sha) (map (unhex \<circ> ar_hash) rs)"
    "List.map_filter (\<lambda>r. case decode_hash (ar_hash r) of Inl _ \<Rightarrow> None | Inr h \<Rightarrow> Some h) rs = map (unhex \<circ> ar_hash) rs"
    if "set rs \<subseteq> set (al_records log)" for rs
    using that dec by (induction rs) (auto simp: List.map_filter_simps)
  then show "List.map_filter (\<lambda>h. case decode_hash h of
           Inl _ \<Rightarrow> None | Inr hash \<Rightarrow> Some (merkle_leaf sha hash)) (map ar_hash (al_records log)) = map (merkle_leaf sha) hashes"
    "List.map_filter (\<lambda>r. case decode_hash (ar_hash r) of Inl _ \<Rightarrow> None | Inr h \<Rightarrow> Some h) (al_records log) = hashes"
    by (simp_all add: hashes_def)
qed

lemma proof_verifies:
  assumes "AuditLog_verify sha json log = Inr ()" "index < length (al_records log)"
  shows "\<exists>p. AuditLog_merkle_proof sha log index = Some p \<and> mp_leaf_hash p = ar_hash (al_records log ! index)
    \<and> mp_root_hash p = AuditLog_merkle_root sha log \<and> MerkleProof_verify sha p"
proof -
  let ?level = "map (merkle_leaf sha) (map (unhex \<circ> ar_hash) (al_records log))"
  obtain nodes peak where loop: "proof_loop sha ?level index = (nodes, peak)" by (cases "proof_loop sha ?level index")
  have "\<forall>h \<in> set ?level. length h = 32" by (simp add: merkle_leaf_def)
  then have peak: "peak = merkle_reduce sha ?level" "climb sha (?level ! index) nodes = Some peak"
    using proof_loop_climbs [OF _ _ loop] assms(2) by simp_all
  have root: "AuditLog_merkle_root sha log = encode_hash peak"
    using verified_levels(2) [OF assms(1)] assms(2) peak(1) unfolding AuditLog_merkle_root_def merkle_root_def
    by (auto simp: Let_def)
  have "decode_hash (ar_hash (al_records log ! index)) = Inr (unhex (ar_hash (al_records log ! index)))"
    using verified_hash_decodes(1) [OF assms(1)] assms(2) by simp
  then show ?thesis
    unfolding AuditLog_merkle_proof_def MerkleProof_verify_def
    using verified_levels(1) [OF assms(1)] loop peak(2) root assms(2) by simp
qed


lemma included_leaf:
  assumes "AuditLog_verify sha json log = Inr ()" "MerkleProof_verify sha p" "mp_root_hash p = AuditLog_merkle_root sha log"
    and inj: "inj_on sha (set (root_inputs sha log) \<union> set (proof_inputs sha p))" (is "inj_on sha ?S")
  shows "\<exists>r \<in> set (al_records log). decode_hash (mp_leaf_hash p) = decode_hash (ar_hash r)"
proof -
  let ?hashes = "map (unhex \<circ> ar_hash) (al_records log)"
  let ?empty = "as_bytes (str ''sendbox-audit-empty-merkle-v1'')"
  obtain h y where h: "decode_hash (mp_leaf_hash p) = Inr h" "climb sha (merkle_leaf sha h) (mp_nodes p) = Some y"
    "encode_hash y = AuditLog_merkle_root sha log"
    using assms(2,3) by (auto simp: MerkleProof_verify_def split: sum.splits option.splits)
  have inputs: "set (root_inputs sha log) = insert ?empty (Cons 0 ` set ?hashes \<union> set (level_inputs sha (map (merkle_leaf sha) ?hashes)))"
    unfolding root_inputs_def Let_def verified_levels(3) [OF assms(1)] by (simp only: list.set set_append set_map)
  have own: "0 # h \<in> ?S" "set (climb_inputs sha (merkle_leaf sha h) (mp_nodes p)) \<subseteq> ?S"
    unfolding proof_inputs_def h(1) sum.case list.set by blast+
  show ?thesis
  proof (cases "al_records log = []")
    case True
    then have y: "y = sha ?empty"
      using h(3) by (simp add: AuditLog_merkle_root_def merkle_root_def List.map_filter_simps encode_hash_inj del: str_simps)
    have empty: "?empty \<in> ?S" unfolding inputs by blast
    obtain x where x: "y = sha x" "x \<in> ?S" "x = 0 # h \<or> hd x = 1"
      using climb_last_input [OF h(2) [unfolded merkle_leaf_def]] own unfolding merkle_leaf_def by blast
    have "x = ?empty" by (rule inj_onD [OF inj _ x(2) empty]) (use x(1) y in metis)
    then have "hd x = 115" by (simp add: as_bytes_def encode_char_def)
    with x(3) show ?thesis by auto
  next
    case False
    then have "map MLeaf ?hashes \<noteq> []" by simp
    then obtain t where t: "tree_hash sha t = merkle_reduce sha (map (tree_hash sha) (map MLeaf ?hashes))"
      "tree_leaves t = concat (map tree_leaves (map MLeaf ?hashes))"
      "node_inputs sha t = (\<Union>t \<in> set (map MLeaf ?hashes). node_inputs sha t) \<union> set (level_inputs sha (map (tree_hash sha) (map MLeaf ?hashes)))"
      by (rule tree_of_level)
    have leaves: "tree_leaves t = ?hashes" using t(2) by (simp add: comp_def concat_map_singleton)
    have level: "map (tree_hash sha) (map MLeaf ?hashes) = map (merkle_leaf sha) ?hashes" by simp
    have nodes: "node_inputs sha t = set (level_inputs sha (map (merkle_leaf sha) ?hashes))"
      using t(3) unfolding level by simp
    have sub: "node_inputs sha t \<subseteq> ?S" "Cons 0 ` set (tree_leaves t) \<subseteq> ?S"
      unfolding nodes inputs leaves by blast+
    have "AuditLog_merkle_root sha log = encode_hash (tree_hash sha t)"
      unfolding AuditLog_merkle_root_def merkle_root_def Let_def verified_levels(2) [OF assms(1)] t(1) level
      using False by simp
    then have "y = tree_hash sha t" using h(3) encode_hash_inj by simp
    then have "h \<in> set (tree_leaves t)" using climb_sound [OF _ inj own sub] h(2) by simp
    then show ?thesis using h(1) verified_hash_decodes(1) [OF assms(1)] leaves by auto
  qed
qed

end

context audit_hashing
begin

lemma head_hash_decodes:
  assumes "verify_from sha json s 0 (genesis_hash sha) xs = Inr ()"
  shows "\<exists>h. decode_hash (head_hash sha xs) = Inr h"
  using head_hash_verified [OF assms] decode_encode_hash by fastforce

lemma append_succeeds:
  assumes "audit_history sha json log" "validate_contents m a subj = Inr ()" "length (al_records log) < 2 ^ 64"
  shows "\<exists>log' r. AuditLog_append sha json log t c a subj res m = Inr (log', r)"
proof -
  obtain p where "decode_hash (head_hash sha (al_records log)) = Inr p"
    using head_hash_decodes [OF history_verifies [OF assms(1)]] by blast
  then have "\<exists>hash. chain_hash sha json (head_hash sha (al_records log)) e = Inr hash" for e
    using event_written [of e] by (auto simp: chain_hash_Inr_iff)
  then show ?thesis
    using assms(2,3) by (auto simp: AuditLog_append_def Let_def not_le split: sum.splits) (metis sum.simps(4))
qed

end

subsection \<open>An instance of the parameters\<close>

text \<open>
  A line format that writes every record as decimal numbers with commas, and a hash that keeps the last byte,
  the length and a suffix of its input: both satisfy what is assumed of \<^verbatim>\<open>serde_json\<close> and SHA-256.
\<close>

definition put_nats :: "nat list \<Rightarrow> bytes" where
  "put_nats ns = map word_of_int (concat (map (\<lambda>n. show_nat n @ [44]) ns))"

definition get_nats :: "bytes \<Rightarrow> nat list" where
  "get_nats bs = map decimal_value (butlast (split_on 44 (map uint bs)))"

definition put_int :: "int \<Rightarrow> nat" where
  "put_int i = (if i < 0 then 2 * nat (- i) - 1 else 2 * nat i)"

definition get_int :: "nat \<Rightarrow> int" where
  "get_int n = (if odd n then - int ((n + 1) div 2) else int (n div 2))"

definition put_str :: "rstr \<Rightarrow> nat list" where
  "put_str s = length s # map put_int s"

fun get_str :: "nat list \<Rightarrow> rstr \<times> nat list" where
  "get_str (n # ns) = (map get_int (take n ns), drop n ns)"
| "get_str [] = ([], [])"

definition put_metadata :: "metadata \<Rightarrow> nat list" where
  "put_metadata m = length m # concat (map (\<lambda>(k, v). put_str k @ put_str v) m)"

fun get_pairs :: "nat \<Rightarrow> nat list \<Rightarrow> metadata \<times> nat list" where
  "get_pairs 0 ns = ([], ns)"
| "get_pairs (Suc n) ns =
     (let (k, ns) = get_str ns; (v, ns) = get_str ns; (m, ns) = get_pairs n ns in ((k, v) # m, ns))"

definition categories :: "AuditCategory list" where
  "categories = [CategoryCommand, CategoryFileAccess, CategoryNetwork, CategoryPermission, CategorySecret,
     CategoryLifecycle, CategoryPolicy, CategoryMcp, CategoryProvenance, CategorySnapshot]"

definition results :: "AuditResult list" where
  "results = [ResultAllowed, ResultDenied, ResultError, ResultSuccess]"

definition put_in :: "'a list \<Rightarrow> 'a \<Rightarrow> nat" where
  "put_in xs x = length (takeWhile (\<lambda>y. y \<noteq> x) xs)"

definition put_event :: "AuditEvent \<Rightarrow> nat list" where
  "put_event e = unat (ev_version e) # unat (ev_sequence e) # unat (ev_timestamp_unix_nanos e) # put_in categories (ev_category e)
     # put_in results (ev_result e) # put_str (ev_session_id e) @ put_str (ev_action e) @ put_str (ev_subject e)
     @ put_metadata (ev_metadata e)"

fun get_event :: "nat list \<Rightarrow> AuditEvent \<times> nat list" where
  "get_event (version # sequence # timestamp # category # outcome # ns) =
     (let (session, ns) = get_str ns; (action, ns) = get_str ns; (subject, ns) = get_str ns;
          (m, ns) = get_pairs (hd ns) (tl ns)
      in (\<lparr>ev_version = word_of_nat version, ev_sequence = word_of_nat sequence, ev_session_id = session,
           ev_timestamp_unix_nanos = word_of_nat timestamp, ev_category = categories ! category, ev_action = action,
           ev_subject = subject, ev_result = results ! outcome, ev_metadata = m\<rparr>, ns))"
| "get_event ns =
     (\<lparr>ev_version = 0, ev_sequence = 0, ev_session_id = [], ev_timestamp_unix_nanos = 0, ev_category = CategoryCommand,
       ev_action = [], ev_subject = [], ev_result = ResultError, ev_metadata = []\<rparr>, ns)"

definition put_record :: "AuditRecord \<Rightarrow> nat list" where
  "put_record r = put_event (ar_event r) @ put_str (ar_previous_hash r) @ put_str (ar_hash r)"

definition get_record :: "nat list \<Rightarrow> AuditRecord" where
  "get_record ns =
     (let (e, ns) = get_event ns; (previous, ns) = get_str ns; (hash, ns) = get_str ns
      in \<lparr>ar_event = e, ar_previous_hash = previous, ar_hash = hash\<rparr>)"

definition put_header :: "AuditHeader \<Rightarrow> nat list" where
  "put_header h = unat (ah_version h) # put_str (ah_format h)"

definition get_header :: "nat list \<Rightarrow> AuditHeader" where
  "get_header ns = \<lparr>ah_format = fst (get_str (tl ns)), ah_version = word_of_nat (hd ns)\<rparr>"

definition line_json :: audit_json where
  "line_json =
     \<lparr>event_to_vec = (\<lambda>e. Inr (put_nats (put_event e))), record_to_vec = (\<lambda>r. Inr (put_nats (put_record r))),
      header_to_vec = (\<lambda>h. Inr (put_nats (put_header h))), events_to_vec = (\<lambda>es. Inr (put_nats (concat (map put_event es)))),
      record_from_slice = (\<lambda>b. Inr (get_record (get_nats b))), header_from_slice = (\<lambda>b. Inr (get_header (get_nats b)))\<rparr>"

definition line_sha :: "bytes \<Rightarrow> bytes" where
  "line_sha x = (if x = [] then 0 else last x) # word_of_nat (length x) # take 30 (rev x @ replicate 30 0)"

lemma uint_ascii: "\<forall>c \<in> set cs. 0 \<le> c \<and> c < 128 \<Longrightarrow> map uint (map word_of_int cs :: bytes) = cs"
  by (induction cs) (auto simp: uint_word_of_int take_bit_int_eq_self)

lemma put_nats_chars: "c \<in> set (concat (map (\<lambda>n. show_nat n @ [44]) ns)) \<Longrightarrow> c = 44 \<or> 48 \<le> c \<and> c \<le> 57"
  by (induction ns) (auto dest: show_nat_digits)

lemma put_nats_Nil_iff: "put_nats ns = [] \<longleftrightarrow> ns = []"
  by (cases ns) (auto simp: put_nats_def)

lemma get_put_nats [simp]: "get_nats (put_nats ns) = ns"
proof -
  have "split_on 44 (concat (map (\<lambda>n. show_nat n @ [44]) ns)) = map show_nat ns @ [[]]"
  proof (induction ns)
    case (Cons n ns)
    have "44 \<notin> set (show_nat n)" using show_nat_digits [of 44 n] by auto
    with Cons show ?case by (simp add: split_on_append split_on_singleton)
  qed simp
  moreover have "map uint (put_nats ns) = concat (map (\<lambda>n. show_nat n @ [44]) ns)"
    unfolding put_nats_def by (rule uint_ascii) (use put_nats_chars in force)
  ultimately show ?thesis by (simp add: get_nats_def comp_def)
qed

lemma put_nats_line: "10 \<notin> set (put_nats ns)"
proof
  assume "10 \<in> set (put_nats ns)"
  then have "uint (10 :: u8) \<in> set (map uint (put_nats ns))" by (metis list.set_map imageI)
  moreover have "map uint (put_nats ns) = concat (map (\<lambda>n. show_nat n @ [44]) ns)"
    unfolding put_nats_def by (rule uint_ascii) (use put_nats_chars in force)
  ultimately show False using put_nats_chars [of 10 ns] by simp
qed

lemma get_put_int [simp]: "get_int (put_int i) = i"
  by (auto simp: get_int_def put_int_def)

lemma get_put_str [simp]: "get_str (put_str s @ ns) = (s, ns)" "get_str (put_str s) = (s, [])"
  by (simp_all add: put_str_def comp_def)

lemma get_put_pairs [simp]:
  "get_pairs (length m) (concat (map (\<lambda>(k, v). put_str k @ put_str v) m) @ ns) = (m, ns)"
  by (induction m) (auto simp: Let_def)

lemma nth_put_in: "x \<in> set xs \<Longrightarrow> xs ! put_in xs x = x"
  unfolding put_in_def by (induction xs) auto

lemma put_in_all [simp]: "categories ! put_in categories c = c" "results ! put_in results r = r"
  by (cases c; simp add: nth_put_in categories_def) (cases r; simp add: nth_put_in results_def)

lemma get_put_event [simp]: "get_event (put_event e @ ns) = (e, ns)"
  by (simp add: put_event_def put_metadata_def Let_def)

lemma get_put_record [simp]: "get_record (put_record r) = r"
  by (simp add: put_record_def get_record_def Let_def)

lemma get_put_header [simp]: "get_header (put_header h) = h"
  by (simp add: put_header_def get_header_def)

lemma put_event_inj: "put_event e = put_event e' \<Longrightarrow> e = e'"
  by (metis get_put_event prod.inject)

interpretation line: audit_hashing line_json line_sha
proof
  show "event_to_vec line_json e = event_to_vec line_json e' \<Longrightarrow> e = e'" for e e'
    using put_event_inj by (metis get_put_nats line_json_def audit_json.select_convs(1) sum.inject(2))
  show "record_to_vec line_json r = Inr b \<Longrightarrow> b \<noteq> [] \<and> 10 \<notin> set b" for r b
    using put_nats_line put_nats_Nil_iff by (auto simp: line_json_def put_record_def put_event_def)
qed (auto simp: line_json_def line_sha_def put_nats_line)

text \<open>A log with one event.\<close>

definition sample_audit_log :: AuditLog where
  "sample_audit_log =
     fst (projr (AuditLog_append line_sha line_json \<lparr>al_session_id = str ''s'', al_records = []\<rparr> 0 CategoryLifecycle
       (str ''start'') (str ''vm'') ResultSuccess []))"

lemma sample_audit_history:
  "audit_history line_sha line_json sample_audit_log" "length (al_records sample_audit_log) = 1"
proof -
  let ?new = "\<lparr>al_session_id = str ''s'', al_records = []\<rparr>"
  have new: "audit_history line_sha line_json ?new"
    by (rule history_new [of "str ''s''"]) (simp add: AuditLog_new_def validate_text_def utf8_width_def)
  have "validate_contents [] (str ''start'') (str ''vm'') = Inr ()"
    by (simp add: validate_contents_def validate_metadata_def validate_text_def utf8_width_def MAX_METADATA_ENTRIES_def)
  then obtain log r where log: "AuditLog_append line_sha line_json ?new 0 CategoryLifecycle (str ''start'') (str ''vm'')
      ResultSuccess [] = Inr (log, r)"
    using line.append_succeeds [OF new] by fastforce
  then have sample: "sample_audit_log = log" by (simp add: sample_audit_log_def del: str_simps)
  show "audit_history line_sha line_json sample_audit_log" unfolding sample by (rule history_append [OF new log])
  show "length (al_records sample_audit_log) = 1" unfolding sample append_Inr(1) [OF log] by simp
qed

lemma sample_audit_verifies: "AuditLog_verify line_sha line_json sample_audit_log = Inr ()"
  using history_verifies [OF sample_audit_history(1)] sample_audit_history(2) by (simp add: verified_log DEFAULT_MAX_EVENTS_def)

definition sample_proof :: MerkleProof where
  "sample_proof = \<lparr>mp_leaf_index = 0, mp_leaf_hash = ar_hash (hd (al_records sample_audit_log)), mp_nodes = [],
     mp_root_hash = AuditLog_merkle_root line_sha sample_audit_log\<rparr>"

lemma line_sha_separates: "line_sha x = line_sha y \<Longrightarrow> x \<noteq> [] \<Longrightarrow> y \<noteq> [] \<Longrightarrow>
    last x = last y \<and> (word_of_nat (length x) :: u8) = word_of_nat (length y)"
  by (simp add: line_sha_def)

lemma last_put_nats: "ns \<noteq> [] \<Longrightarrow> last (put_nats ns) = 44"
  by (induction ns rule: rev_induct) (simp_all add: put_nats_def)

lemma sample_record:
  obtains r where "al_records sample_audit_log = [r]" "decode_hash (ar_hash r) = Inr (unhex (ar_hash r))"
    "length (unhex (ar_hash r)) = 32"
proof -
  obtain r where r: "al_records sample_audit_log = [r]"
    using sample_audit_history(2) by (cases "al_records sample_audit_log") auto
  then show thesis using that line.verified_hash_decodes [OF sample_audit_verifies, of r] by simp
qed

lemma inj_on_pair: "f x \<noteq> f y \<Longrightarrow> A \<subseteq> {x, y} \<Longrightarrow> inj_on f A"
  by (rule inj_on_subset [of _ "{x, y}"]) (auto simp: inj_on_def)

lemma sample_chain_inputs: "inj_on line_sha (set (chain_inputs line_json sample_audit_log))"
proof -
  have last: "last (CHAIN_DOMAIN @ p @ put_nats (put_event e)) = 44" for p e
    using last_put_nats [of "put_event e"] put_nats_Nil_iff [of "put_event e"] by (simp add: put_event_def)
  have genesis: "last (as_bytes (str ''sendbox-audit-genesis-v1'')) = 49" "as_bytes (str ''sendbox-audit-genesis-v1'') \<noteq> []"
    by (simp_all add: as_bytes_def encode_char_def)
  obtain r where r: "al_records sample_audit_log = [r]" using sample_record by blast
  have "set (chain_inputs line_json sample_audit_log) \<subseteq>
      {as_bytes (str ''sendbox-audit-genesis-v1''), CHAIN_DOMAIN @ unhex (ar_previous_hash r) @ put_nats (put_event (ar_event r))}"
    using r by (cases "decode_hash (ar_previous_hash r)")
      (simp_all add: chain_inputs_def line_json_def decode_hash_def del: str_simps split: if_splits)
  moreover have "line_sha (as_bytes (str ''sendbox-audit-genesis-v1'')) \<noteq> line_sha (CHAIN_DOMAIN @ p @ put_nats (put_event e))" for p e
  proof
    assume same: "line_sha (as_bytes (str ''sendbox-audit-genesis-v1'')) = line_sha (CHAIN_DOMAIN @ p @ put_nats (put_event e))"
    have "CHAIN_DOMAIN @ p @ put_nats (put_event e) \<noteq> []" by (simp add: put_nats_Nil_iff put_event_def)
    from line_sha_separates [OF same genesis(2) this] last [of p e] genesis(1) have "(49 :: u8) = 44" by metis
    then show False by simp
  qed
  ultimately show ?thesis by (intro inj_on_pair)
qed

lemma sample_merkle_inputs:
  "inj_on line_sha (set (root_inputs line_sha sample_audit_log) \<union> set (proof_inputs line_sha sample_proof))"
proof -
  obtain r where r: "al_records sample_audit_log = [r]" "decode_hash (ar_hash r) = Inr (unhex (ar_hash r))"
    "length (unhex (ar_hash r)) = 32" using sample_record by blast
  let ?empty = "as_bytes (str ''sendbox-audit-empty-merkle-v1'')" and ?leaf = "0 # unhex (ar_hash r)"
  have "line_sha ?empty \<noteq> line_sha ?leaf"
    using line_sha_separates [of ?empty ?leaf] r(3) by (auto simp: as_bytes_def encode_char_def)
  moreover have "set (root_inputs line_sha sample_audit_log) \<union> set (proof_inputs line_sha sample_proof) = {?empty, ?leaf}"
    using r(1,2) by (auto simp: root_inputs_def proof_inputs_def sample_proof_def List.map_filter_simps level_inputs.simps simp del: str_simps)
  then have "set (root_inputs line_sha sample_audit_log) \<union> set (proof_inputs line_sha sample_proof) \<subseteq> {?empty, ?leaf}"
    by (rule equalityD1)
  ultimately show ?thesis by (rule inj_on_pair)
qed

lemma sample_proof_verifies:
  "MerkleProof_verify line_sha sample_proof" "mp_root_hash sample_proof = AuditLog_merkle_root line_sha sample_audit_log"
proof -
  obtain r where r: "al_records sample_audit_log = [r]" "decode_hash (ar_hash r) = Inr (unhex (ar_hash r))"
    using sample_record by blast
  then show "MerkleProof_verify line_sha sample_proof"
    by (simp add: MerkleProof_verify_def sample_proof_def AuditLog_merkle_root_def merkle_root_def List.map_filter_simps merkle_reduce.simps)
qed (simp add: sample_proof_def)

subsection \<open>Properties\<close>

text \<open>
  C15: the head of the chain commits to the whole log.  Two logs that verify and have the same head hold the same
  records, unless two different inputs hashed by their verification have the same SHA-256.  So a published head
  reveals every change, reordering, removal or insertion of records, a removed suffix included.
\<close>

theorem audit_head_commits:
  assumes "audit_json_laws json" "sha_law sha"
    and "AuditLog_verify sha json a = Inr ()" "AuditLog_verify sha json b = Inr ()"
    and "head_hash sha (al_records a) = head_hash sha (al_records b)"
    and "inj_on sha (set (chain_inputs json a) \<union> set (chain_inputs json b))"
  shows "al_records a = al_records b"
proof -
  have hashing: "audit_hashing json sha" using assms(1,2) by (simp add: audit_hashing_def)
  have genesis: "as_bytes (str ''sendbox-audit-genesis-v1'') \<in> set (chain_inputs json a) \<union> set (chain_inputs json b)"
    by (simp add: chain_inputs_def)
  show ?thesis
    by (rule audit_hashing.records_committed [OF hashing _ _ assms(5,6) genesis])
      (use assms(3,4) in \<open>auto simp: verified_log intro: chain_inputs_record\<close>)
qed

theorem audit_head_commits_witness:
  "AuditLog_verify line_sha line_json sample_audit_log = Inr () \<and>
   inj_on line_sha (set (chain_inputs line_json sample_audit_log)) \<and>
   al_records sample_audit_log = al_records (sample_audit_log\<lparr>al_session_id := al_session_id sample_audit_log\<rparr>)"
  using audit_head_commits [OF line.audit_json_laws_axioms line.sha_law_axioms sample_audit_verifies sample_audit_verifies refl]
    sample_audit_verifies sample_chain_inputs by simp

text \<open>
  C16: an inclusion proof proves inclusion.  A proof that verifies against the root of a log that verifies is about
  the hash of a record of that log, unless two different inputs hashed on the way have the same SHA-256.
\<close>

theorem merkle_proof_sound:
  assumes "sha_law sha" "AuditLog_verify sha json log = Inr ()"
    and "MerkleProof_verify sha p" "mp_root_hash p = AuditLog_merkle_root sha log"
    and "inj_on sha (set (root_inputs sha log) \<union> set (proof_inputs sha p))"
  shows "\<exists>r \<in> set (al_records log). decode_hash (mp_leaf_hash p) = decode_hash (ar_hash r)"
  using sha_law.included_leaf [OF assms] .

theorem merkle_proof_sound_witness:
  "\<exists>r \<in> set (al_records sample_audit_log). decode_hash (mp_leaf_hash sample_proof) = decode_hash (ar_hash r)"
  by (rule merkle_proof_sound [OF line.sha_law_axioms sample_audit_verifies sample_proof_verifies]) (rule sample_merkle_inputs)

text \<open>
  C29: every record of a log that verifies has an inclusion proof, which carries the root of the log and verifies.
\<close>

theorem merkle_proof_complete:
  assumes "sha_law sha" "AuditLog_verify sha json log = Inr ()" "index < length (al_records log)"
  shows "\<exists>p. AuditLog_merkle_proof sha log index = Some p \<and> mp_leaf_hash p = ar_hash (al_records log ! index)
    \<and> mp_root_hash p = AuditLog_merkle_root sha log \<and> MerkleProof_verify sha p"
  using sha_law.proof_verifies [OF assms] .

theorem merkle_proof_complete_witness:
  "\<exists>p. AuditLog_merkle_proof line_sha sample_audit_log 0 = Some p
    \<and> mp_leaf_hash p = ar_hash (al_records sample_audit_log ! 0)
    \<and> mp_root_hash p = AuditLog_merkle_root line_sha sample_audit_log \<and> MerkleProof_verify line_sha p"
  using merkle_proof_complete [OF line.sha_law_axioms sample_audit_verifies, of 0] sample_audit_history(2) by simp

text \<open>
  C17: every log made by \<^verbatim>\<open>new\<close> and successful calls of \<^verbatim>\<open>append\<close>, with at least one and at most the permitted
  number of records, verifies, is encoded, and is read back as it was.
\<close>

theorem audit_log_persists:
  assumes "audit_json_laws json" "audit_history sha json log" "al_records log \<noteq> []"
    and "length (al_records log) \<le> DEFAULT_MAX_EVENTS" "length (al_records log) \<le> max_events"
  shows "AuditLog_verify sha json log = Inr () \<and>
    (\<exists>b. AuditLog_encode sha json log = Inr b \<and> AuditLog_decode sha json b max_events = Inr log)"
proof -
  have "AuditLog_verify sha json log = Inr ()" using history_verifies [OF assms(2)] assms(4) by (simp add: verified_log)
  then show ?thesis using audit_json_laws.decode_encode_log [OF assms(1)] assms(3,5) by blast
qed

theorem audit_log_persists_witness:
  "\<exists>b. AuditLog_encode line_sha line_json sample_audit_log = Inr b \<and>
     AuditLog_decode line_sha line_json b 1 = Inr sample_audit_log"
  using audit_log_persists [OF line.audit_json_laws_axioms sample_audit_history(1), of 1] sample_audit_history(2)
  by (cases "al_records sample_audit_log") (simp_all add: DEFAULT_MAX_EVENTS_def)

text \<open>
  A log without records is encoded, but what was written is refused by \<^verbatim>\<open>decode\<close> under every limit: a new log
  that is saved can be neither loaded nor appended to.
\<close>

lemma empty_audit_log_unreadable:
  assumes "audit_json_laws json" "AuditLog_new s = Inr log"
  shows "\<exists>b. AuditLog_encode sha json log = Inr b \<and>
    AuditLog_decode sha json b max_events = Inl (Malformed AUDIT_FORMAT (str ''audit log has no records''))"
proof -
  have "AuditLog_verify sha json log = Inr ()" "al_records log = []"
    using assms(2) by (auto simp: AuditLog_new_def AuditLog_verify_def split: sum.splits)
  then show ?thesis by (rule audit_json_laws.decode_encode_empty [OF assms(1)])
qed

lemma empty_audit_log_unreadable_witness:
  "\<exists>b. AuditLog_encode line_sha line_json \<lparr>al_session_id = [115], al_records = []\<rparr> = Inr b \<and>
    AuditLog_decode line_sha line_json b 9 = Inl (Malformed AUDIT_FORMAT (str ''audit log has no records''))"
  by (rule empty_audit_log_unreadable [OF line.audit_json_laws_axioms, of "[115]"])
    (simp add: AuditLog_new_def validate_text_def utf8_width_def)

end
