(* ===== verification/Spec2Isabelle.thy ===== *)
theory Spec2Isabelle
  imports Glob Domain Address Policy_Types Ip_Parse Ipnet Github_Meta Egress_Policy Auth_Cache Dns_Budget
    Command_Policy Utf8 Git_Branch Git_Argv Git_Identity Git_Guard Mcp_Framing Wire Protocol_Codec Protocol_Frame
    Protocol_Handshake Transition_Table Runtime_Lifecycle Guest_Startup Credential_Masking
    Connect_Proto Origin_Reservations Egress_Effects Http_Proxy Connect_Broker Dns_Broker Egress_Gateway Mcp_Jsonrpc Mcp_Policy
    Mcp_Broker Hex Security_Audit
begin

text \<open>
  Sendbox runs a coding agent inside an isolated guest and mediates everything the agent may do: the
  connections it opens, the commands it runs, the Git operations it performs, the tools it calls, and what
  of the host's secrets its output may show.  The host and the guest talk over an authenticated protocol.
  This library models the decision procedures, codecs, state machines and filters of that mediation, one
  theory per component, and proves what each promises.

  \<^bold>\<open>Conventions.\<close>  A Rust \<^verbatim>\<open>str\<close> is a list of scalar values (\<open>rstr\<close>, with \<open>rlen\<close> its length in UTF-8), bytes
  are 8-bit words, and fixed-width integers are words or natural numbers with the wrap-around written out.
  A \<^verbatim>\<open>Result\<close> is a sum with the error on the left.  Methods that change their receiver return it updated;
  methods behind a lock are single steps, and sequences of calls are lists of steps.  Time is an argument.
  Crates that are not in the repository are arguments: \<open>ipnet_ops\<close> (networks), \<open>cbor_ops\<close> (CBOR items),
  \<open>crypto_ops\<close> (HMAC, HKDF, SHA-256), \<open>audit_json\<close> (\<^verbatim>\<open>serde_json\<close> on the audit log), the parser of the \<^verbatim>\<open>url\<close> crate and
  the answers of the Git program.  What the code relies on of them is a locale (\<open>ipnet_laws\<close>, \<open>cbor_laws\<close>,
  \<open>crypto_laws\<close>, \<open>audit_json_laws\<close>, \<open>sha_law\<close>), which is interpreted on a concrete
  instance, so that the hypotheses of the properties are known to be satisfiable.

  \<^bold>\<open>Shared theories.\<close>  \<open>Rust_Prelude\<close> has strings, trimming, splitting and decimal numbers; \<open>Utf8\<close> the encoder and
  decoder of strings; \<open>Ip_Parse\<close> the address parser of the standard library; \<open>Ipnet\<close> networks; \<open>Wire\<close> CBOR items and
  parsers as functions that consume a prefix; \<open>Transition_Table\<close> guarded updates of a state by a table.

  \<^bold>\<open>Egress\<close> (crates/sendbox-egress/src).  \<open>Domain\<close> is domain.rs: normalization and label patterns.  \<open>Address\<close> is
  address.rs: the classes of addresses, which are shown to be unions of the blocks the comments name.
  \<open>Policy_Types\<close> has the documents of crates/sendbox-policy/src/lib.rs that are compiled.  \<open>Github_Meta\<close> is
  github_meta.rs: the published networks, their refresh and their age.  \<open>Egress_Policy\<close> is policy.rs: the compiler
  and the decision for names and for addresses; the decision is characterised exactly, blocks win, and a
  decision stays current only as long as its snapshot.  \<open>Auth_Cache\<close> is authorization.rs: lookups return exactly
  the authorizations in force.  \<open>Dns_Budget\<close> is dns_budget.rs: the counters refine a log of admitted queries
  as long as the counter does not wrap.  \<open>Origin_Reservations\<close> is origin.rs: the origins of remote tools stay
  refused.  \<open>Connect_Proto\<close> is connect_proto.rs and socks5.rs, \<open>Http_Proxy\<close> is http_proxy.rs: what a client's bytes
  ask for.  \<open>Connect_Broker\<close> is connect_broker.rs and \<open>Dns_Broker\<close> is dns_broker.rs: a handler from the first byte
  to the proxied session or the DNS response.  Both are programs of \<open>Egress_Effects\<close>, a state monad in which every
  access to shared state (the clock, the cache, the budget, the published networks, the reservations) is preceded by
  an arbitrary change that other connections make; the handlers' theorems speak of the trace of what was seen,
  asked, dialed, written and audited, and hold for every such interference.  \<open>Egress_Gateway\<close> is gateway.rs and the
  listener loops: tasks, sessions, permits and shutdown as a step relation.  The resolver, the dialer, httparse,
  http, hickory and serde_json are parameters about which nothing is assumed.

  \<^bold>\<open>Commands and Git.\<close>  \<open>Glob\<close> is crates/sendbox-core/src/glob.rs: the matcher with one backtracking point
  against its meaning.  \<open>Command_Policy\<close> is crates/sendbox-exec/src/policy.rs: rules with escapes, a table matcher
  equal to the meaning of patterns, and the decision.  \<open>Git_Branch\<close>, \<open>Git_Argv\<close>, \<open>Git_Identity\<close> and \<open>Git_Guard\<close> are
  pattern.rs, argv.rs, identity.rs and service.rs of crates/sendbox-git/src: whatever Git answers, an admitted
  push or pull only concerns permitted branches of the selected repository.

  \<^bold>\<open>The host-guest protocol\<close> (crates/sendbox-protocol/src).  \<open>Protocol_Codec\<close> is types.rs and codec.rs: decoding
  accepts exactly the canonical encodings.  \<open>Protocol_Frame\<close> is limits.rs, crypto.rs and frame.rs: the messages
  received are a prefix of the messages sent under any behaviour of the network that cannot forge a proof,
  and all of them arrive when the bytes do.  \<open>Protocol_Handshake\<close> is handshake.rs: both roles, authentication
  and completion.

  \<^bold>\<open>Tools, lifecycle and secrets.\<close>  \<open>Mcp_Framing\<close> is crates/sendbox-mcp/src/framing.rs: the decoder is
  independent of how the bytes are cut into chunks.  \<open>Mcp_Jsonrpc\<close>, \<open>Mcp_Policy\<close> and \<open>Mcp_Broker\<close> are jsonrpc.rs,
  policy.rs and broker.rs of the same crate: the messages, the decision about a tool and the list of tools, and the two
  tasks between an agent and a tool server as a step relation over the decoder's frames; forwarded calls
  are permitted and audited, answers belong to requests and lists are filtered.  \<open>Runtime_Lifecycle\<close> is
  crates/sendbox-runtime/src/lifecycle.rs and \<open>Guest_Startup\<close> is guest/sendbox-guest/src/state.rs, both over
  \<open>Transition_Table\<close>.  \<open>Credential_Masking\<close> is crates/sendbox-secrets/src/masking.rs: the drain loop in every mode;
  every call returns and registered values stay hidden across pieces.

  \<^bold>\<open>Records\<close> (crates/sendbox-security/src).  \<open>Security_Audit\<close> is audit.rs with canonical.rs: the hash chain of a
  session's events, its persisted form, Merkle roots and proofs, and the verifier of the older format.  The head
  of the chain and the Merkle root commit to the records: each theorem names the inputs on which SHA-256 would
  have to collide.  \<open>Hex\<close> has the hexadecimal text of hashes.

  \<^bold>\<open>Termination.\<close>  No definition uses fuel.  Loops over an index are recursions over what remains, or functions with
  a measure.  The loops that end only because of an invariant (the masker's) are partial functions with
  value \<open>None\<close> where they would not end, and it is proved that they return a value.

  \<^bold>\<open>Not modelled.\<close>  Socket, process and file handling, the enforcement through the kernel, the drivers of
  container runtimes, the launching and killing of tool servers, the files of the audit log, snapshots and
  provenance, the encrypted stores and the serde documents are operating-system calls and third-party
  code around the decisions above; the command line, the tests and the prototypes are outside the product's
  decisions.  The text of error messages is kept where the code builds it and is otherwise a constructor.
\<close>

end
